(* ===== verification/Prelude.thy ===== *)
theory Prelude
  imports Main "HOL-Library.Monad_Syntax" "HOL-Library.List_Lexorder" "HOL-Library.Char_ord"
    "HOL-Library.Product_Lexorder" "HOL-Library.Word" "HOL-Library.Multiset"
begin

text \<open>
  What the components share: Rust's \<open>Result\<close>, panics, \<open>Ordering\<close> with the iterator
  methods \<open>min_by\<close>, \<open>max_by\<close> and the stable \<open>sort_by\<close>, and the string and byte-slice
  methods of the standard library the sources call.

  A Rust computation that can panic has a value of type \<open>'a option\<close> whose \<open>None\<close> is the
  panic; the \<open>do\<close> notation of the option monad sequences such computations. A Rust
  \<open>Option\<close> inside it is a second \<open>option\<close>. Strings and byte slices are both \<open>char list\<close>:
  a Rust string is its UTF-8 bytes, and its ordering is the lexicographic order of the bytes.
\<close>

section \<open>Results and panics\<close>

datatype ('a, 'e) result = Ok 'a | Err 'e

type_synonym bytes = "char list"
type_synonym 'a panics = "'a option"
type_synonym u64 = "64 word"
type_synonym u8 = "8 word"

fun is_ok :: "('a, 'e) result \<Rightarrow> bool" where
  "is_ok (Ok a) = True"
| "is_ok (Err e) = False"

definition result_bind :: "('a, 'e) result \<Rightarrow> ('a \<Rightarrow> ('b, 'e) result) \<Rightarrow> ('b, 'e) result" where
  "result_bind r f = (case r of Ok a \<Rightarrow> f a | Err e \<Rightarrow> Err e)"

definition ok_or :: "'e \<Rightarrow> 'a option \<Rightarrow> ('a, 'e) result" where
  "ok_or e x = (case x of Some a \<Rightarrow> Ok a | None \<Rightarrow> Err e)"

definition is_some :: "'a option \<Rightarrow> bool" where
  "is_some x = (case x of None \<Rightarrow> False | Some _ \<Rightarrow> True)"

definition is_some_and :: "('a \<Rightarrow> bool) \<Rightarrow> 'a option \<Rightarrow> bool" where
  "is_some_and p x = (case x of None \<Rightarrow> False | Some a \<Rightarrow> p a)"

definition is_none_or :: "('a \<Rightarrow> bool) \<Rightarrow> 'a option \<Rightarrow> bool" where
  "is_none_or p x = (case x of None \<Rightarrow> True | Some a \<Rightarrow> p a)"

definition option_filter :: "('a \<Rightarrow> bool) \<Rightarrow> 'a option \<Rightarrow> 'a option" where
  "option_filter p x = (case x of None \<Rightarrow> None | Some a \<Rightarrow> if p a then Some a else None)"

definition or_else :: "'a option \<Rightarrow> 'a option \<Rightarrow> 'a option" where
  "or_else x y = (case x of None \<Rightarrow> y | Some a \<Rightarrow> Some a)"

definition unwrap_or :: "'a \<Rightarrow> 'a option \<Rightarrow> 'a" where
  "unwrap_or d x = (case x of None \<Rightarrow> d | Some a \<Rightarrow> a)"

definition map_err :: "('e \<Rightarrow> 'f) \<Rightarrow> ('a, 'e) result \<Rightarrow> ('a, 'f) result" where
  "map_err f r = (case r of Ok a \<Rightarrow> Ok a | Err e \<Rightarrow> Err (f e))"

named_theorems option_defs "the Option and Result methods, unfolded"

declare result_bind_def [option_defs] ok_or_def [option_defs] is_some_def [option_defs]
  is_some_and_def [option_defs] is_none_or_def [option_defs] option_filter_def [option_defs]
  or_else_def [option_defs] unwrap_or_def [option_defs]

lemma result_bind_simps [simp]:
  "result_bind (Ok a) f = f a" "result_bind (Err e) f = Err e"
  by (simp_all add: result_bind_def)

lemma map_err_Ok [simp]: "map_err f r = Ok a \<longleftrightarrow> r = Ok a"
  by (cases r) (simp_all add: map_err_def)

lemma map_err_Err [simp]: "map_err f r = Err e \<longleftrightarrow> (\<exists>e'. r = Err e' \<and> e = f e')"
  by (cases r) (auto simp: map_err_def)

lemma result_bind_Ok: "result_bind r f = Ok b \<longleftrightarrow> (\<exists>a. r = Ok a \<and> f a = Ok b)"
  by (cases r) simp_all

lemma result_bind_Err: "result_bind r f = Err e \<longleftrightarrow> r = Err e \<or> (\<exists>a. r = Ok a \<and> f a = Err e)"
  by (cases r) auto

lemma ok_or_simps [simp]: "ok_or e None = Err e" "ok_or e (Some a) = Ok a"
  by (simp_all add: ok_or_def)

lemma is_some_simps [simp]: "\<not> is_some None" "is_some (Some a)"
  by (simp_all add: is_some_def)

lemma is_some_iff: "is_some x \<longleftrightarrow> (\<exists>a. x = Some a)"
  by (cases x) simp_all

lemma is_some_and_simps [simp]: "\<not> is_some_and p None" "is_some_and p (Some a) = p a"
  by (simp_all add: is_some_and_def)

lemma is_none_or_simps [simp]: "is_none_or p None" "is_none_or p (Some a) = p a"
  by (simp_all add: is_none_or_def)

lemma or_else_simps [simp]: "or_else None y = y" "or_else (Some a) y = Some a"
  by (simp_all add: or_else_def)

lemma unwrap_or_simps [simp]: "unwrap_or d None = d" "unwrap_or d (Some a) = a"
  by (simp_all add: unwrap_or_def)

lemma or_else_assoc: "or_else (or_else x y) z = or_else x (or_else y z)"
  by (cases x) simp_all

lemma or_else_None_right [simp]: "or_else x None = x"
  by (cases x) simp_all

text \<open>What follows a panic-free step, whatever the step was.\<close>

lemma bind_SomeE: "Option.bind x f = Some r \<Longrightarrow> (\<And>y. f y = Some r \<Longrightarrow> P) \<Longrightarrow> P"
  by (cases x) auto

text \<open>A filter or a map whose closure can panic: the first panic ends it.\<close>

fun filter_panics :: "('a \<Rightarrow> bool panics) \<Rightarrow> 'a list \<Rightarrow> 'a list panics" where
  "filter_panics p [] = Some []"
| "filter_panics p (x # xs) =
     do { keep \<leftarrow> p x; rest \<leftarrow> filter_panics p xs; Some (if keep then x # rest else rest) }"

fun map_panics :: "('a \<Rightarrow> 'b panics) \<Rightarrow> 'a list \<Rightarrow> 'b list panics" where
  "map_panics f [] = Some []"
| "map_panics f (x # xs) = do { y \<leftarrow> f x; ys \<leftarrow> map_panics f xs; Some (y # ys) }"

lemma filter_panics_total:
  "(\<And>x. x \<in> set xs \<Longrightarrow> p x = Some (q x)) \<Longrightarrow> filter_panics p xs = Some (filter q xs)"
  by (induction xs) auto

lemma filter_panics_SomeD:
  "filter_panics p xs = Some ys \<Longrightarrow> ys = filter (\<lambda>x. p x = Some True) xs"
  by (induction xs arbitrary: ys) (auto split: Option.bind_splits if_splits)

lemma map_panics_total:
  "(\<And>x. x \<in> set xs \<Longrightarrow> f x = Some (g x)) \<Longrightarrow> map_panics f xs = Some (map g xs)"
  by (induction xs) auto

lemma map_panics_Some:
  "(\<And>x. x \<in> set xs \<Longrightarrow> \<exists>y. f x = Some y) \<Longrightarrow> \<exists>ys. map_panics f xs = Some ys"
  by (induction xs) fastforce+

lemma map_panics_length: "map_panics f xs = Some ys \<Longrightarrow> length ys = length xs"
  by (induction xs arbitrary: ys) (auto split: Option.bind_splits)

lemma map_panics_nth:
  "map_panics f xs = Some ys \<Longrightarrow> i < length xs \<Longrightarrow> f (xs ! i) = Some (ys ! i)"
  by (induction xs arbitrary: ys i) (auto simp: nth_Cons split: Option.bind_splits nat.splits)

lemma not_in_image_iff: "y \<notin> f ` A \<longleftrightarrow> (\<forall>x \<in> A. f x \<noteq> y)"
  by blast

lemma unat64: "unat (w :: u64) < 2 ^ 64"
  using unsigned_less [of w] by simp

lemma uint64: "uint (w :: u64) < 2 ^ 64"
  using unsigned_less [of w] by simp

text \<open>\<open>u64::checked_sub\<close>.\<close>

definition checked_sub :: "u64 \<Rightarrow> u64 \<Rightarrow> u64 option" where
  "checked_sub a b = (if b \<le> a then Some (a - b) else None)"

lemma checked_sub_Some:
  "checked_sub a b = Some c \<longleftrightarrow> unat b \<le> unat a \<and> c = a - b"
  by (auto simp: checked_sub_def word_le_nat_alt)

lemma checked_sub_unat: "checked_sub a b = Some c \<Longrightarrow> unat c = unat a - unat b"
  by (auto simp: checked_sub_def unat_sub word_le_nat_alt split: if_splits)

section \<open>Orderings\<close>

datatype ordering = Less | Equal | Greater

fun reverse_ordering :: "ordering \<Rightarrow> ordering" where
  "reverse_ordering Less = Greater"
| "reverse_ordering Equal = Equal"
| "reverse_ordering Greater = Less"

fun then_with :: "ordering \<Rightarrow> ordering \<Rightarrow> ordering" where
  "then_with Equal b = b"
| "then_with a b = a"

definition cmp_of :: "'a::linorder \<Rightarrow> 'a \<Rightarrow> ordering" where
  "cmp_of a b = (if a < b then Less else if b < a then Greater else Equal)"

lemma cmp_of_simps [simp]:
  "cmp_of a b = Less \<longleftrightarrow> a < b" "cmp_of a b = Equal \<longleftrightarrow> a = b" "cmp_of a b = Greater \<longleftrightarrow> b < a"
  by (auto simp: cmp_of_def)

lemma cmp_of_refl [simp]: "cmp_of a a = Equal"
  by simp

text \<open>
  \<open>Iterator::min_by\<close> keeps the first of several minimal elements, \<open>Iterator::max_by\<close> the
  last of several maximal ones; \<open>slice::sort_by\<close> is stable.
\<close>

fun min_by_from :: "('a \<Rightarrow> 'a \<Rightarrow> ordering) \<Rightarrow> 'a \<Rightarrow> 'a list \<Rightarrow> 'a" where
  "min_by_from cmp x [] = x"
| "min_by_from cmp x (y # ys) = min_by_from cmp (if cmp x y = Greater then y else x) ys"

definition min_by :: "('a \<Rightarrow> 'a \<Rightarrow> ordering) \<Rightarrow> 'a list \<Rightarrow> 'a option" where
  "min_by cmp xs = (case xs of [] \<Rightarrow> None | x # ys \<Rightarrow> Some (min_by_from cmp x ys))"

fun max_by_from :: "('a \<Rightarrow> 'a \<Rightarrow> ordering) \<Rightarrow> 'a \<Rightarrow> 'a list \<Rightarrow> 'a" where
  "max_by_from cmp x [] = x"
| "max_by_from cmp x (y # ys) = max_by_from cmp (if cmp x y = Greater then x else y) ys"

definition max_by :: "('a \<Rightarrow> 'a \<Rightarrow> ordering) \<Rightarrow> 'a list \<Rightarrow> 'a option" where
  "max_by cmp xs = (case xs of [] \<Rightarrow> None | x # ys \<Rightarrow> Some (max_by_from cmp x ys))"

fun insert_by :: "('a \<Rightarrow> 'a \<Rightarrow> ordering) \<Rightarrow> 'a \<Rightarrow> 'a list \<Rightarrow> 'a list" where
  "insert_by cmp x [] = [x]"
| "insert_by cmp x (y # ys) = (if cmp x y = Greater then y # insert_by cmp x ys else x # y # ys)"

fun sort_by :: "('a \<Rightarrow> 'a \<Rightarrow> ordering) \<Rightarrow> 'a list \<Rightarrow> 'a list" where
  "sort_by cmp [] = []"
| "sort_by cmp (x # xs) = insert_by cmp x (sort_by cmp xs)"

lemma min_by_from_mem: "min_by_from cmp x ys \<in> insert x (set ys)"
  by (induction ys arbitrary: x) (auto split: if_splits)

lemma max_by_from_mem: "max_by_from cmp x ys \<in> insert x (set ys)"
  by (induction ys arbitrary: x) (auto split: if_splits)

lemma min_by_mem: "min_by cmp xs = Some x \<Longrightarrow> x \<in> set xs"
  using min_by_from_mem by (force simp: min_by_def split: list.splits)

lemma max_by_mem: "max_by cmp xs = Some x \<Longrightarrow> x \<in> set xs"
  using max_by_from_mem by (force simp: max_by_def split: list.splits)

lemma min_by_None [simp]: "min_by cmp xs = None \<longleftrightarrow> xs = []"
  by (simp add: min_by_def split: list.splits)

lemma max_by_None [simp]: "max_by cmp xs = None \<longleftrightarrow> xs = []"
  by (simp add: max_by_def split: list.splits)

lemma mset_insert_by [simp]: "mset (insert_by cmp x ys) = add_mset x (mset ys)"
  by (induction ys) auto

lemma mset_sort_by [simp]: "mset (sort_by cmp xs) = mset xs"
  by (induction xs) auto

lemma set_sort_by [simp]: "set (sort_by cmp xs) = set xs"
  by (metis mset_sort_by set_mset_mset)

lemma length_sort_by [simp]: "length (sort_by cmp xs) = length xs"
  by (metis mset_sort_by size_mset)

text \<open>The contract of a comparator: a total preorder, as \<open>Ord\<close> and \<open>sort_by\<close> require.\<close>

locale cmp_order =
  fixes cmp :: "'a \<Rightarrow> 'a \<Rightarrow> ordering"
  assumes cmp_swap: "cmp y x = reverse_ordering (cmp x y)"
    and cmp_trans: "cmp x y \<noteq> Greater \<Longrightarrow> cmp y z \<noteq> Greater \<Longrightarrow> cmp x z \<noteq> Greater"
begin

lemma cmp_self: "cmp x x = Equal"
  using cmp_swap [of x x] by (cases "cmp x x") auto

lemma cmp_not_Greater_total: "cmp x y = Greater \<Longrightarrow> cmp y x \<noteq> Greater"
  using cmp_swap [of x y] by auto

lemma min_by_from_least: "z \<in> insert x (set ys) \<Longrightarrow> cmp (min_by_from cmp x ys) z \<noteq> Greater"
proof (induction ys arbitrary: x z)
  case Nil
  then show ?case by (simp add: cmp_self)
next
  case (Cons y ys)
  let ?m = "if cmp x y = Greater then y else x"
  have m: "cmp (min_by_from cmp ?m ys) ?m \<noteq> Greater" by (rule Cons.IH) simp
  show ?case
  proof (cases "z \<in> set ys")
    case True
    have "cmp (min_by_from cmp ?m ys) z \<noteq> Greater" by (rule Cons.IH) (simp add: True)
    then show ?thesis by simp
  next
    case False
    with Cons.prems have "cmp ?m z \<noteq> Greater"
      using cmp_self cmp_not_Greater_total [of x y] by auto
    from cmp_trans [OF m this] show ?thesis by simp
  qed
qed

lemma min_by_least: "min_by cmp xs = Some m \<Longrightarrow> z \<in> set xs \<Longrightarrow> cmp m z \<noteq> Greater"
  using min_by_from_least by (auto simp: min_by_def split: list.splits)

lemma max_by_from_greatest: "z \<in> insert x (set ys) \<Longrightarrow> cmp z (max_by_from cmp x ys) \<noteq> Greater"
proof (induction ys arbitrary: x z)
  case Nil
  then show ?case by (simp add: cmp_self)
next
  case (Cons y ys)
  let ?m = "if cmp x y = Greater then x else y"
  have m: "cmp ?m (max_by_from cmp ?m ys) \<noteq> Greater" by (rule Cons.IH) simp
  show ?case
  proof (cases "z \<in> set ys")
    case True
    have "cmp z (max_by_from cmp ?m ys) \<noteq> Greater" by (rule Cons.IH) (simp add: True)
    then show ?thesis by simp
  next
    case False
    with Cons.prems have "cmp z ?m \<noteq> Greater"
      using cmp_self cmp_not_Greater_total [of x y] by auto
    from cmp_trans [OF this m] show ?thesis by simp
  qed
qed

lemma max_by_greatest: "max_by cmp xs = Some m \<Longrightarrow> z \<in> set xs \<Longrightarrow> cmp z m \<noteq> Greater"
  using max_by_from_greatest by (auto simp: max_by_def split: list.splits)

lemma sorted_insert_by:
  "sorted_wrt (\<lambda>a b. cmp a b \<noteq> Greater) ys \<Longrightarrow> sorted_wrt (\<lambda>a b. cmp a b \<noteq> Greater) (insert_by cmp x ys)"
proof (induction ys)
  case Nil
  then show ?case by simp
next
  case (Cons y ys)
  have "set (insert_by cmp x ys) = insert x (set ys)"
    by (metis mset_insert_by set_mset_add_mset_insert set_mset_mset)
  moreover have "cmp x y = Greater \<Longrightarrow> cmp y x \<noteq> Greater"
    by (rule cmp_not_Greater_total)
  moreover have "cmp x y \<noteq> Greater \<Longrightarrow> \<forall>b\<in>set ys. cmp x b \<noteq> Greater"
    using Cons.prems cmp_trans [of x y] by simp
  ultimately show ?case using Cons by (cases "cmp x y = Greater") auto
qed

lemma sorted_sort_by: "sorted_wrt (\<lambda>a b. cmp a b \<noteq> Greater) (sort_by cmp xs)"
  by (induction xs) (auto intro: sorted_insert_by)

end

text \<open>Comparators the code builds: by a key, reversed, and chained with \<open>then_with\<close>.\<close>

lemma cmp_order_key: "cmp_order (\<lambda>x y. cmp_of (k x) (k y))"
  by unfold_locales (auto simp: cmp_of_def split: if_splits)

lemma cmp_order_reverse: "cmp_order c \<Longrightarrow> cmp_order (\<lambda>x y. c y x)"
  by (unfold_locales; metis cmp_order.cmp_swap cmp_order.cmp_trans)

lemma then_with_Greater [simp]:
  "then_with a b = Greater \<longleftrightarrow> a = Greater \<or> a = Equal \<and> b = Greater"
  by (cases a) auto

lemma then_with_Equal [simp]: "then_with a b = Equal \<longleftrightarrow> a = Equal \<and> b = Equal"
  by (cases a) auto

lemma reverse_then_with:
  "reverse_ordering (then_with a b) = then_with (reverse_ordering a) (reverse_ordering b)"
  by (cases a) auto

lemma reverse_ordering_Greater [simp]: "reverse_ordering a = Greater \<longleftrightarrow> a = Less"
  by (cases a) auto

lemma reverse_ordering_Equal [simp]: "reverse_ordering a = Equal \<longleftrightarrow> a = Equal"
  by (cases a) auto

lemma ordering_not_Greater: "a \<noteq> Greater \<longleftrightarrow> a = Less \<or> a = Equal"
  by (cases a) auto

lemma cmp_order_Equal_trans:
  assumes "cmp_order c"
  shows "c x y = Equal \<Longrightarrow> c y z = Equal \<Longrightarrow> c x z = Equal"
    and "c x y \<noteq> Greater \<Longrightarrow> c y z = Less \<Longrightarrow> c x z = Less"
    and "c x y = Less \<Longrightarrow> c y z \<noteq> Greater \<Longrightarrow> c x z = Less"
proof -
  note swap = cmp_order.cmp_swap [OF assms] and tr = cmp_order.cmp_trans [OF assms]
  have L: "c a b = Less \<longleftrightarrow> c b a = Greater" for a b
    by (simp add: swap [of b a])
  have E: "c a b = Equal \<longleftrightarrow> c a b \<noteq> Greater \<and> c b a \<noteq> Greater" for a b
    by (cases "c a b") (simp_all add: swap [of b a])
  show "c x y = Equal \<Longrightarrow> c y z = Equal \<Longrightarrow> c x z = Equal"
    using tr [of x y z] tr [of z y x] by (simp add: E)
  show "c x y \<noteq> Greater \<Longrightarrow> c y z = Less \<Longrightarrow> c x z = Less"
    using tr [of z x y] by (auto simp: L)
  show "c x y = Less \<Longrightarrow> c y z \<noteq> Greater \<Longrightarrow> c x z = Less"
    using tr [of y z x] by (auto simp: L)
qed

lemma cmp_order_then:
  assumes c: "cmp_order c" and d: "cmp_order d"
  shows "cmp_order (\<lambda>x y. then_with (c x y) (d x y))"
proof
  fix x y z
  show "then_with (c y x) (d y x) = reverse_ordering (then_with (c x y) (d x y))"
    by (simp add: reverse_then_with cmp_order.cmp_swap [OF c, of y x] cmp_order.cmp_swap [OF d, of y x])
  assume a: "then_with (c x y) (d x y) \<noteq> Greater" and b: "then_with (c y z) (d y z) \<noteq> Greater"
  then have "c x y \<noteq> Greater" "c y z \<noteq> Greater" by simp_all
  then have xz: "c x z \<noteq> Greater" by (rule cmp_order.cmp_trans [OF c])
  show "then_with (c x z) (d x z) \<noteq> Greater"
  proof (cases "c x z = Equal")
    case True
    have "c x y \<noteq> Less" "c y z \<noteq> Less"
      using True cmp_order_Equal_trans(3) [OF c, of x y z] cmp_order_Equal_trans(2) [OF c, of x y z]
        \<open>c x y \<noteq> Greater\<close> \<open>c y z \<noteq> Greater\<close> by force+
    then have xy: "c x y = Equal" and yz: "c y z = Equal"
      using \<open>c x y \<noteq> Greater\<close> \<open>c y z \<noteq> Greater\<close> ordering.exhaust by blast+
    with a b have "d x y \<noteq> Greater" "d y z \<noteq> Greater" by simp_all
    then have "d x z \<noteq> Greater" by (rule cmp_order.cmp_trans [OF d])
    with xz show ?thesis by simp
  qed (use xz in simp)
qed

section \<open>Strings and byte slices\<close>

definition CR :: char where "CR = CHR 0x0D"
definition LF :: char where "LF = CHR 0x0A"

text \<open>\<open>str::strip_prefix\<close> and \<open>strip_suffix\<close>: the affix comes first here.\<close>

fun strip_prefix :: "'a list \<Rightarrow> 'a list \<Rightarrow> 'a list option" where
  "strip_prefix [] t = Some t"
| "strip_prefix (p # ps) [] = None"
| "strip_prefix (p # ps) (t # ts) = (if p = t then strip_prefix ps ts else None)"

definition strip_suffix :: "'a list \<Rightarrow> 'a list \<Rightarrow> 'a list option" where
  "strip_suffix s t = map_option rev (strip_prefix (rev s) (rev t))"

definition starts_with :: "'a list \<Rightarrow> 'a list \<Rightarrow> bool" where
  "starts_with p t = is_some (strip_prefix p t)"

definition ends_with :: "'a list \<Rightarrow> 'a list \<Rightarrow> bool" where
  "ends_with s t = is_some (strip_suffix s t)"

lemma strip_prefix_Some_iff [simp]: "strip_prefix p t = Some r \<longleftrightarrow> t = p @ r"
  by (induction p t rule: strip_prefix.induct) auto

lemma strip_prefix_append [simp]: "strip_prefix p (p @ r) = Some r"
  by simp

lemma strip_suffix_Some_iff [simp]: "strip_suffix s t = Some r \<longleftrightarrow> t = r @ s"
  by (auto simp: strip_suffix_def) (metis rev_append rev_rev_ident)

lemma strip_suffix_append [simp]: "strip_suffix s (r @ s) = Some r"
  by (simp only: strip_suffix_Some_iff)

lemma starts_with_iff: "starts_with p t \<longleftrightarrow> (\<exists>r. t = p @ r)"
  by (auto simp: starts_with_def is_some_iff)

lemma ends_with_iff: "ends_with s t \<longleftrightarrow> (\<exists>r. t = r @ s)"
  by (auto simp: ends_with_def is_some_iff)

text \<open>
  \<open>str::trim\<close> removes the characters of Unicode's White_Space property; these are their
  UTF-8 encodings (U+0009 to U+000D, U+0020, U+0085, U+00A0, U+1680, U+2000 to U+200A,
  U+2028, U+2029, U+202F, U+205F and U+3000).
\<close>

definition white_space :: "string list" where
  "white_space =
     [[CHR 0x09], [CHR 0x0A], [CHR 0x0B], [CHR 0x0C], [CHR 0x0D], [CHR 0x20],
      [CHR 0xC2, CHR 0x85], [CHR 0xC2, CHR 0xA0], [CHR 0xE1, CHR 0x9A, CHR 0x80],
      [CHR 0xE2, CHR 0x80, CHR 0x80], [CHR 0xE2, CHR 0x80, CHR 0x81], [CHR 0xE2, CHR 0x80, CHR 0x82],
      [CHR 0xE2, CHR 0x80, CHR 0x83], [CHR 0xE2, CHR 0x80, CHR 0x84], [CHR 0xE2, CHR 0x80, CHR 0x85],
      [CHR 0xE2, CHR 0x80, CHR 0x86], [CHR 0xE2, CHR 0x80, CHR 0x87], [CHR 0xE2, CHR 0x80, CHR 0x88],
      [CHR 0xE2, CHR 0x80, CHR 0x89], [CHR 0xE2, CHR 0x80, CHR 0x8A], [CHR 0xE2, CHR 0x80, CHR 0xA8],
      [CHR 0xE2, CHR 0x80, CHR 0xA9], [CHR 0xE2, CHR 0x80, CHR 0xAF], [CHR 0xE2, CHR 0x81, CHR 0x9F],
      [CHR 0xE3, CHR 0x80, CHR 0x80]]"

fun strip_any :: "'a list list \<Rightarrow> 'a list \<Rightarrow> 'a list option" where
  "strip_any [] t = None"
| "strip_any (p # ps) t = (case strip_prefix p t of Some r \<Rightarrow> Some r | None \<Rightarrow> strip_any ps t)"

lemma strip_any_shorter:
  "strip_any ps t = Some r \<Longrightarrow> [] \<notin> set ps \<Longrightarrow> length r < length t"
  by (induction ps) (auto split: option.splits)

fun trim_front :: "nat \<Rightarrow> 'a list list \<Rightarrow> 'a list \<Rightarrow> 'a list" where
  "trim_front 0 ps t = t"
| "trim_front (Suc n) ps t = (case strip_any ps t of None \<Rightarrow> t | Some r \<Rightarrow> trim_front n ps r)"

text \<open>Every step removes a byte, so the length of the text is enough fuel.\<close>

lemma trim_front_fuel:
  "length t \<le> n \<Longrightarrow> [] \<notin> set ps \<Longrightarrow> strip_any ps (trim_front n ps t) = None"
proof (induction n arbitrary: t)
  case 0
  then have "t = []" by simp
  moreover have "strip_any ps [] = None"
    using strip_any_shorter [of ps "[]"] "0.prems" by (cases "strip_any ps []") auto
  ultimately show ?case by simp
next
  case (Suc n)
  then show ?case
    by (cases "strip_any ps t") (auto dest!: strip_any_shorter)
qed

definition trim_start :: "string \<Rightarrow> string" where
  "trim_start t = trim_front (length t) white_space t"

definition trim_end :: "string \<Rightarrow> string" where
  "trim_end t = rev (trim_front (length t) (map rev white_space) (rev t))"

definition trim :: "string \<Rightarrow> string" where
  "trim t = trim_end (trim_start t)"

text \<open>\<open>trim_end_matches('/')\<close>: every trailing occurrence of one character goes.\<close>

definition trim_end_matches :: "char \<Rightarrow> string \<Rightarrow> string" where
  "trim_end_matches c t = rev (dropWhile (\<lambda>x. x = c) (rev t))"

lemma trim_Nil [simp]: "trim [] = []"
  by (simp add: trim_def trim_start_def trim_end_def)

end
