(* ===== verification/Ordered_Map.thy ===== *)
theory Ordered_Map
  imports Prelude
begin

text \<open>
  The maps of \<open>std::collections\<close>. A \<open>BTreeMap\<close> is its entries in ascending key order, the
  order in which the sources iterate over it; a \<open>HashMap\<close> is modelled the same way, and no
  definition or property depends on the order in which a \<open>HashMap\<close> would be iterated.
\<close>

type_synonym ('k, 'v) bmap = "('k \<times> 'v) list"

text \<open>\<open>get\<close>, \<open>insert\<close>, \<open>remove\<close>, \<open>retain\<close> and \<open>values\<close>.\<close>

definition bm_get :: "'k \<Rightarrow> ('k, 'v) bmap \<Rightarrow> 'v option" where
  "bm_get k m = map_of m k"

fun bm_insert :: "'k::linorder \<Rightarrow> 'v \<Rightarrow> ('k, 'v) bmap \<Rightarrow> ('k, 'v) bmap" where
  "bm_insert k v [] = [(k, v)]"
| "bm_insert k v ((k', v') # m) =
     (if k < k' then (k, v) # (k', v') # m
      else if k = k' then (k, v) # m
      else (k', v') # bm_insert k v m)"

definition bm_remove :: "'k \<Rightarrow> ('k, 'v) bmap \<Rightarrow> ('k, 'v) bmap" where
  "bm_remove k m = filter (\<lambda>(k', _). k' \<noteq> k) m"

definition bm_retain :: "('k \<Rightarrow> bool) \<Rightarrow> ('k, 'v) bmap \<Rightarrow> ('k, 'v) bmap" where
  "bm_retain p m = filter (\<lambda>(k, _). p k) m"

definition bm_values :: "('k, 'v) bmap \<Rightarrow> 'v list" where
  "bm_values m = map snd m"

definition bm_map_values :: "('v \<Rightarrow> 'w) \<Rightarrow> ('k, 'v) bmap \<Rightarrow> ('k, 'w) bmap" where
  "bm_map_values f m = map (\<lambda>(k, v). (k, f v)) m"

text \<open>\<open>entry(k).or_default().push(x)\<close> on a map of vectors, and \<open>collect\<close> from pairs.\<close>

definition bm_push :: "'k::linorder \<Rightarrow> 'v \<Rightarrow> ('k, 'v list) bmap \<Rightarrow> ('k, 'v list) bmap" where
  "bm_push k x m = bm_insert k (unwrap_or [] (bm_get k m) @ [x]) m"

definition bm_collect :: "('k::linorder \<times> 'v) list \<Rightarrow> ('k, 'v) bmap" where
  "bm_collect kvs = fold (\<lambda>(k, v). bm_insert k v) kvs []"

definition bm_wf :: "('k::linorder, 'v) bmap \<Rightarrow> bool" where
  "bm_wf m \<longleftrightarrow> sorted_wrt (<) (map fst m)"

text \<open>The contract the components rely on.\<close>

locale ordered_map =
  fixes empty :: "'m"
    and insert_kv :: "'k \<Rightarrow> 'v \<Rightarrow> 'm \<Rightarrow> 'm"
    and remove_k :: "'k \<Rightarrow> 'm \<Rightarrow> 'm"
    and lookup :: "'k \<Rightarrow> 'm \<Rightarrow> 'v option"
    and wf :: "'m \<Rightarrow> bool"
  assumes lookup_empty: "lookup k empty = None"
    and lookup_insert_kv: "lookup k (insert_kv k' v m) = (if k = k' then Some v else lookup k m)"
    and lookup_remove_k: "lookup k (remove_k k' m) = (if k = k' then None else lookup k m)"
    and wf_empty: "wf empty"
    and wf_insert_kv: "wf m \<Longrightarrow> wf (insert_kv k v m)"
    and wf_remove_k: "wf m \<Longrightarrow> wf (remove_k k m)"
    and wf_ext: "wf m \<Longrightarrow> wf m' \<Longrightarrow> (\<And>k. lookup k m = lookup k m') \<Longrightarrow> m = m'"
begin

lemma lookup_fold_insert:
  "lookup k (fold (\<lambda>(k, v). insert_kv k v) kvs m) =
   or_else (map_of (rev kvs) k) (lookup k m)"
  by (induction kvs arbitrary: m)
    (auto simp: lookup_insert_kv map_add_def split: option.splits)

lemma wf_fold_insert: "wf m \<Longrightarrow> wf (fold (\<lambda>(k, v). insert_kv k v) kvs m)"
  by (induction kvs arbitrary: m) (auto intro: wf_insert_kv)

lemma insert_remove: "wf m \<Longrightarrow> insert_kv k v (remove_k k m) = insert_kv k v m"
  by (rule wf_ext) (auto simp: lookup_insert_kv lookup_remove_k intro: wf_insert_kv wf_remove_k)

lemma insert_same: "wf m \<Longrightarrow> lookup k m = Some v \<Longrightarrow> insert_kv k v m = m"
  by (rule wf_ext) (auto simp: lookup_insert_kv intro: wf_insert_kv)

lemma insert_insert: "wf m \<Longrightarrow> insert_kv k v (insert_kv k w m) = insert_kv k v m"
  by (rule wf_ext) (auto simp: lookup_insert_kv intro: wf_insert_kv)

lemma remove_absent: "wf m \<Longrightarrow> lookup k m = None \<Longrightarrow> remove_k k m = m"
  by (rule wf_ext) (auto simp: lookup_remove_k intro: wf_remove_k)

end

text \<open>Grouping: pushing a sequence of keyed values keeps, per key, their order.\<close>

locale grouping_map = ordered_map empty insert_kv remove_k lookup wf
  for empty :: "'m" and insert_kv :: "'k \<Rightarrow> 'x list \<Rightarrow> 'm \<Rightarrow> 'm" and remove_k lookup wf +
  fixes push :: "'k \<Rightarrow> 'x \<Rightarrow> 'm \<Rightarrow> 'm"
  assumes push_eq: "push k x m = insert_kv k (unwrap_or [] (lookup k m) @ [x]) m"
begin

lemma lookup_push:
  "lookup k (push k' x m) =
   (if k = k' then Some (unwrap_or [] (lookup k m) @ [x]) else lookup k m)"
  by (simp add: push_eq lookup_insert_kv)

lemma lookup_fold_push:
  "unwrap_or [] (lookup k (fold (\<lambda>(k, x). push k x) kxs m)) =
   unwrap_or [] (lookup k m) @ map snd (filter (\<lambda>(k', _). k' = k) kxs)"
  by (induction kxs arbitrary: m) (auto simp: lookup_push)

lemma lookup_fold_push_None:
  "lookup k (fold (\<lambda>(k, x). push k x) kxs m) = None \<longleftrightarrow>
   lookup k m = None \<and> k \<notin> fst ` set kxs"
  by (induction kxs arbitrary: m) (auto simp: lookup_push split: if_splits)

lemma lookup_fold_push_empty:
  "lookup k (fold (\<lambda>(k, x). push k x) kxs empty) =
   (if k \<in> fst ` set kxs then Some (map snd (filter (\<lambda>(k', _). k' = k) kxs)) else None)"
proof (cases "lookup k (fold (\<lambda>(k, x). push k x) kxs empty)")
  case None
  then have "k \<notin> fst ` set kxs" by (simp only: lookup_fold_push_None lookup_empty simp_thms)
  with None show ?thesis by simp
next
  case (Some xs)
  then have "k \<in> fst ` set kxs"
    using lookup_fold_push_None [of k kxs empty] lookup_empty by auto
  with Some show ?thesis using lookup_fold_push [of k kxs empty] by (simp add: lookup_empty)
qed

lemma wf_push: "wf m \<Longrightarrow> wf (push k x m)"
  by (simp add: push_eq wf_insert_kv)

lemma wf_fold_push: "wf m \<Longrightarrow> wf (fold (\<lambda>(k, x). push k x) kxs m)"
  by (induction kxs arbitrary: m) (auto intro: wf_push)

end

text \<open>The model provides the contract.\<close>

lemma bm_get_insert: "bm_get k (bm_insert k' v m) = (if k = k' then Some v else bm_get k m)"
  by (induction k' v m rule: bm_insert.induct) (auto simp: bm_get_def)

lemma bm_get_filter:
  "bm_get k (filter (\<lambda>(k', _). p k') m) = (if p k then bm_get k m else None)"
  by (induction m) (auto simp: bm_get_def)

lemma bm_get_remove: "bm_get k (bm_remove k' m) = (if k = k' then None else bm_get k m)"
  using bm_get_filter [of k "\<lambda>x. x \<noteq> k'" m] by (auto simp: bm_remove_def)

lemma bm_get_retain: "bm_get k (bm_retain p m) = (if p k then bm_get k m else None)"
  unfolding bm_retain_def by (rule bm_get_filter)

lemma bm_get_map_values: "bm_get k (bm_map_values f m) = map_option f (bm_get k m)"
  by (induction m) (auto simp: bm_get_def bm_map_values_def)

lemma bm_get_mem: "bm_get k m = Some v \<Longrightarrow> (k, v) \<in> set m"
  unfolding bm_get_def by (rule map_of_SomeD)

lemma set_bm_insert: "set (bm_insert k v m) \<subseteq> insert (k, v) (set m)"
  by (induction k v m rule: bm_insert.induct) auto

lemma keys_bm_insert: "fst ` set (bm_insert k v m) = insert k (fst ` set m)"
  by (induction k v m rule: bm_insert.induct) auto

lemma bm_wf_Nil [simp]: "bm_wf []"
  by (simp add: bm_wf_def)

lemma bm_wf_insert: "bm_wf m \<Longrightarrow> bm_wf (bm_insert k v m)"
  unfolding bm_wf_def
proof (induction k v m rule: bm_insert.induct)
  case (2 k v k' v' m)
  show ?case
  proof (cases "k < k' \<or> k = k'")
    case True
    with "2.prems" show ?thesis by auto
  next
    case False
    then have "k' < k" by auto
    then have "\<forall>x \<in> fst ` set (bm_insert k v m). k' < x"
      using "2.prems" by (auto simp: keys_bm_insert)
    with False 2 show ?thesis by auto
  qed
qed simp

lemma bm_wf_filter: "bm_wf m \<Longrightarrow> bm_wf (filter p m)"
  unfolding bm_wf_def by (induction m) auto

lemma bm_wf_remove: "bm_wf m \<Longrightarrow> bm_wf (bm_remove k m)"
  unfolding bm_remove_def by (rule bm_wf_filter)

lemma bm_wf_retain: "bm_wf m \<Longrightarrow> bm_wf (bm_retain p m)"
  unfolding bm_retain_def by (rule bm_wf_filter)

lemma bm_wf_map_values [simp]: "bm_wf (bm_map_values f m) = bm_wf m"
  by (simp add: bm_wf_def bm_map_values_def comp_def split_def)

lemma bm_wf_distinct: "bm_wf m \<Longrightarrow> distinct (map fst m)"
  by (auto simp: bm_wf_def strict_sorted_iff)

lemma bm_get_iff: "bm_wf m \<Longrightarrow> bm_get k m = Some v \<longleftrightarrow> (k, v) \<in> set m"
  by (simp add: bm_get_def map_of_eq_Some_iff bm_wf_distinct)

lemma bm_ext:
  assumes "bm_wf m" "bm_wf m'" "\<And>k. bm_get k m = bm_get k m'"
  shows "m = m'"
proof -
  have "set m = set m'"
    using assms by (auto simp: set_eq_iff simp flip: bm_get_iff)
  moreover have "inj_on fst (set m)"
    using bm_wf_distinct [OF assms(1)] by (simp add: distinct_map)
  ultimately show ?thesis
    using assms(1,2) by (intro map_sorted_distinct_set_unique [of fst]) (auto simp: bm_wf_def strict_sorted_iff)
qed

lemma bm_get_Nil [simp]: "bm_get k [] = None"
  by (simp add: bm_get_def)

interpretation bmap: ordered_map "[]" bm_insert bm_remove bm_get bm_wf
  by unfold_locales
    (auto simp: bm_get_insert bm_get_remove bm_wf_insert bm_wf_remove intro: bm_ext)

interpretation bgroup: grouping_map "[]" bm_insert bm_remove bm_get bm_wf bm_push
  by unfold_locales (simp add: bm_push_def)

lemma bm_get_collect: "bm_get k (bm_collect kvs) = map_of (rev kvs) k"
  using bmap.lookup_fold_insert [of k kvs "[]"] by (simp add: bm_collect_def bmap.lookup_empty)

lemma bm_wf_collect: "bm_wf (bm_collect kvs)"
  unfolding bm_collect_def by (rule bmap.wf_fold_insert) simp

end
