(* ===== verification/Json.thy ===== *)
theory Json
  imports Ordered_Map
begin

text \<open>
  JSON values, as \<open>serde_json::Value\<close> documents them: its constructors, and an object as a
  \<open>BTreeMap\<close> from keys. The crate is built with \<open>arbitrary_precision\<close> (Cargo.toml), so a
  number is its text. Reading and writing JSON text and converting numbers is \<open>serde_json\<close>'s
  work, not this repository's: those functions are the fields of \<open>json_ops\<close>, an argument of
  every definition that uses them.
\<close>

datatype json =
    JNull
  | JBool bool
  | JNumber string
  | JString string
  | JArray "json list"
  | JObject "(string \<times> json) list"

record json_ops =
  from_slice :: "bytes \<Rightarrow> json option"
  to_vec :: "json \<Rightarrow> bytes option"
  number_as_u64 :: "string \<Rightarrow> u64 option"
  number_from_str :: "string \<Rightarrow> string option"

section \<open>Accessors\<close>

fun as_str :: "json \<Rightarrow> string option" where
  "as_str (JString s) = Some s"
| "as_str _ = None"

fun as_bool :: "json \<Rightarrow> bool option" where
  "as_bool (JBool b) = Some b"
| "as_bool _ = None"

fun as_number :: "json \<Rightarrow> string option" where
  "as_number (JNumber n) = Some n"
| "as_number _ = None"

fun as_array :: "json \<Rightarrow> json list option" where
  "as_array (JArray xs) = Some xs"
| "as_array _ = None"

fun as_object :: "json \<Rightarrow> (string \<times> json) list option" where
  "as_object (JObject m) = Some m"
| "as_object _ = None"

fun is_null :: "json \<Rightarrow> bool" where
  "is_null JNull = True"
| "is_null _ = False"

definition as_u64 :: "json_ops \<Rightarrow> json \<Rightarrow> u64 option" where
  "as_u64 J v = Option.bind (as_number v) (number_as_u64 J)"

definition is_object :: "json \<Rightarrow> bool" where
  "is_object v = is_some (as_object v)"

definition is_array :: "json \<Rightarrow> bool" where
  "is_array v = is_some (as_array v)"

text \<open>\<open>Value::get\<close> with a string key; \<open>value[key] = v\<close>, which panics off an object
  (\<open>null\<close> becomes an object first).\<close>

definition json_get :: "string \<Rightarrow> json \<Rightarrow> json option" where
  "json_get k v = Option.bind (as_object v) (bm_get k)"

fun json_set :: "string \<Rightarrow> json \<Rightarrow> json \<Rightarrow> json panics" where
  "json_set k x (JObject m) = Some (JObject (bm_insert k x m))"
| "json_set k x JNull = Some (JObject [(k, x)])"
| "json_set k x _ = None"

lemma json_get_simps [simp]:
  "json_get k (JObject m) = bm_get k m"
  "json_get k JNull = None" "json_get k (JBool b) = None" "json_get k (JNumber n) = None"
  "json_get k (JString s) = None" "json_get k (JArray xs) = None"
  by (simp_all add: json_get_def)

lemma json_get_SomeE:
  assumes "json_get k v = Some x"
  obtains m where "v = JObject m" "bm_get k m = Some x"
  using assms by (cases v) auto

lemma as_str_Some [simp]: "as_str v = Some s \<longleftrightarrow> v = JString s"
  by (cases v) auto

lemma as_bool_Some [simp]: "as_bool v = Some b \<longleftrightarrow> v = JBool b"
  by (cases v) auto

lemma as_object_Some [simp]: "as_object v = Some m \<longleftrightarrow> v = JObject m"
  by (cases v) auto

lemma as_array_Some [simp]: "as_array v = Some xs \<longleftrightarrow> v = JArray xs"
  by (cases v) auto

lemma as_number_Some [simp]: "as_number v = Some n \<longleftrightarrow> v = JNumber n"
  by (cases v) auto

lemma is_object_iff: "is_object v \<longleftrightarrow> (\<exists>m. v = JObject m)"
  by (cases v) (auto simp: is_object_def)

lemma is_array_iff: "is_array v \<longleftrightarrow> (\<exists>xs. v = JArray xs)"
  by (cases v) (auto simp: is_array_def)

section \<open>Well-formed values\<close>

lemma json_size_field [termination_simp]:
  "(k, v) \<in> set m \<Longrightarrow> size v < Suc (size_list (size_prod (\<lambda>_. 0) size) m)"
  by (induction m) auto

text \<open>Every object's keys are distinct and ascending, as a \<open>BTreeMap\<close> keeps them.\<close>

fun json_wf :: "json \<Rightarrow> bool" where
  "json_wf (JArray xs) = list_all json_wf xs"
| "json_wf (JObject m) = (bm_wf m \<and> list_all (\<lambda>(k, v). json_wf v) m)"
| "json_wf _ = True"

text \<open>No object inside the value has the key: the statement of what a scrubber removes.\<close>

fun json_lacks :: "string \<Rightarrow> json \<Rightarrow> bool" where
  "json_lacks key (JArray xs) = list_all (json_lacks key) xs"
| "json_lacks key (JObject m) =
     (key \<notin> fst ` set m \<and> list_all (\<lambda>(k, v). json_lacks key v) m)"
| "json_lacks key _ = True"

lemma json_lacks_field:
  "json_lacks key (JObject m) \<Longrightarrow> bm_get k m = Some v \<Longrightarrow> json_lacks key v"
  by (auto simp: list_all_iff dest: bm_get_mem)

lemma json_lacks_insert:
  "json_lacks key (JObject m) \<Longrightarrow> k \<noteq> key \<Longrightarrow> json_lacks key v \<Longrightarrow>
   json_lacks key (JObject (bm_insert k v m))"
  using set_bm_insert [of k v m] by (fastforce simp: list_all_iff keys_bm_insert)

lemma json_lacks_filter:
  "json_lacks key (JObject m) \<Longrightarrow> json_lacks key (JObject (filter p m))"
  by (auto simp: list_all_iff)

lemma json_wf_insert:
  "json_wf (JObject m) \<Longrightarrow> json_wf v \<Longrightarrow> json_wf (JObject (bm_insert k v m))"
  using set_bm_insert [of k v m] by (fastforce simp: list_all_iff bm_wf_insert)

lemma json_wf_filter: "json_wf (JObject m) \<Longrightarrow> json_wf (JObject (filter p m))"
  by (auto simp: list_all_iff bm_wf_filter)

end
