(* ===== verification/Routing_Profile.thy ===== *)
theory Routing_Profile
  imports Json
begin

text \<open>
  Routing profiles (\<open>src/routing_profile.rs\<close>), the served-provider marker
  (\<open>src/attribution.rs\<close>) and the HTTP responses the handlers build.
\<close>

section \<open>Profiles\<close>

datatype routing_profile = Production | Beta

instantiation routing_profile :: linorder
begin

definition less_routing_profile :: "routing_profile \<Rightarrow> routing_profile \<Rightarrow> bool" where
  "a < b \<longleftrightarrow> a = Production \<and> b = Beta"

definition less_eq_routing_profile :: "routing_profile \<Rightarrow> routing_profile \<Rightarrow> bool" where
  "a \<le> b \<longleftrightarrow> a = Production \<or> b = Beta"

instance
proof
  fix x y z :: routing_profile
  show "(x < y) = (x \<le> y \<and> \<not> y \<le> x)"
    by (cases x; cases y) (simp_all add: less_routing_profile_def less_eq_routing_profile_def)
  show "x \<le> x" by (cases x) (simp_all add: less_eq_routing_profile_def)
  show "x \<le> y \<Longrightarrow> y \<le> z \<Longrightarrow> x \<le> z" by (auto simp: less_eq_routing_profile_def)
  show "x \<le> y \<Longrightarrow> y \<le> x \<Longrightarrow> x = y" by (auto simp: less_eq_routing_profile_def)
  show "x \<le> y \<or> y \<le> x" by (cases x) (simp_all add: less_eq_routing_profile_def)
qed

end

definition profiles_all :: "routing_profile list" where
  "profiles_all = [Production, Beta]"

lemma set_profiles_all [simp]: "p \<in> set profiles_all"
  by (cases p) (simp_all add: profiles_all_def)

lemma distinct_profiles_all [simp]: "distinct profiles_all"
  by (simp add: profiles_all_def)

fun profile_str :: "routing_profile \<Rightarrow> string" where
  "profile_str Production = ''production''"
| "profile_str Beta = ''beta''"

definition sidecar_alias :: "routing_profile \<Rightarrow> string \<Rightarrow> string" where
  "sidecar_alias profile canonical_model =
     ''seren-profile-'' @ profile_str profile @ ''/'' @ canonical_model"

text \<open>The aliases of two profiles never coincide, whatever the model slugs.\<close>

lemma sidecar_alias_inj: "sidecar_alias p m = sidecar_alias q n \<longleftrightarrow> p = q \<and> m = n"
  by (cases p; cases q) (auto simp: sidecar_alias_def)

section \<open>The provider that served a response\<close>

datatype served_provider = ServedProvider (provider_str: string)

definition served_provider_header :: string where
  "served_provider_header = ''x-seren-served-provider''"

text \<open>The header map and the conversion of a header value to visible text are the \<open>http\<close>
  crate's, so they are arguments.\<close>

type_synonym headers = "string \<Rightarrow> bytes option"

definition from_headers :: "(bytes \<Rightarrow> string option) \<Rightarrow> headers \<Rightarrow> served_provider option" where
  "from_headers to_str headers =
     do { value \<leftarrow> headers served_provider_header;
          provider_id \<leftarrow> to_str value;
          if provider_id = [] \<or> trim provider_id \<noteq> provider_id then None
          else Some (ServedProvider provider_id) }"

lemma from_headers_SomeD:
  "from_headers to_str headers = Some sp \<Longrightarrow> provider_str sp \<noteq> [] \<and> trim (provider_str sp) = provider_str sp"
  by (auto simp: from_headers_def split: Option.bind_splits if_splits)

section \<open>Responses\<close>

text \<open>The decimal text of a natural number, as \<open>serde_json\<close> writes an integer.\<close>

fun nat_text :: "nat \<Rightarrow> string" where
  "nat_text n =
     (if n < 10 then [char_of (48 + n)] else nat_text (n div 10) @ [char_of (48 + n mod 10)])"

declare nat_text.simps [simp del]

text \<open>A body sent whole, as JSON or as bytes, or as a stream of chunks that may break off.\<close>

datatype body = JsonBody json | RawBody bytes | StreamBody "bytes list" bool

record response =
  resp_status :: nat
  resp_content_type :: "bytes option"
  resp_generation_id :: "bytes option"
  resp_body :: body
  resp_served :: "served_provider option"

text \<open>\<open>(status, Json(value)).into_response()\<close>.\<close>

definition json_response :: "nat \<Rightarrow> json \<Rightarrow> response" where
  "json_response status value =
     \<lparr>resp_status = status, resp_content_type = Some ''application/json'',
      resp_generation_id = None, resp_body = JsonBody value, resp_served = None\<rparr>"

definition is_success :: "nat \<Rightarrow> bool" where
  "is_success status \<longleftrightarrow> 200 \<le> status \<and> status < 300"

definition is_server_error :: "nat \<Rightarrow> bool" where
  "is_server_error status \<longleftrightarrow> 500 \<le> status \<and> status < 600"

text \<open>The bodies \<open>{"error": {"message": m}}\<close> and \<open>{"error": {"code": c, "message": m}}\<close>.\<close>

definition error_message :: "string \<Rightarrow> json" where
  "error_message m = JObject [(''error'', JObject [(''message'', JString m)])]"

definition error_code_message :: "nat \<Rightarrow> string \<Rightarrow> json" where
  "error_code_message c m =
     JObject [(''error'', JObject [(''code'', JNumber (nat_text c)), (''message'', JString m)])]"

section \<open>Fixed metadata (\<open>src/compatibility.rs\<close>)\<close>

definition get_auth_key :: response where
  "get_auth_key =
     json_response 200
       (JObject [(''data'', JObject [(''label'', JString ''seren-router''), (''limit'', JNull)])])"

definition get_credits :: response where
  "get_credits =
     json_response 200
       (JObject [(''data'', JObject [(''total_credits'', JNumber ''0''), (''total_usage'', JNumber ''0'')])])"

end
