(* ===== verification/Float64.thy ===== *)
theory Float64
  imports Prelude Complex_Main
begin

text \<open>
  Rust's \<open>f64\<close>: IEEE 754 binary64 with round-to-nearest-even, on exact rationals. A finite
  number is its sign and its magnitude; every operation computes the exact rational result
  and rounds it once. One NaN stands for all of them: the sources never look at a NaN's
  sign or payload.
\<close>

datatype f64 = NaN | Infinity bool | Finite bool rat

type_synonym duration = nat \<comment> \<open>a \<open>std::time::Duration\<close>, in nanoseconds\<close>

section \<open>Rounding\<close>

fun bit_len :: "nat \<Rightarrow> nat" where
  "bit_len n = (if n = 0 then 0 else Suc (bit_len (n div 2)))"

declare bit_len.simps [simp del]

definition ilog2 :: "rat \<Rightarrow> int" where
  "ilog2 q =
     (let (n, d) = quotient_of q;
          k = int (bit_len (nat n)) - int (bit_len (nat d))
      in if 2 powi k \<le> q then k else k - 1)"

definition round_even :: "rat \<Rightarrow> int" where
  "round_even x =
     (let f = \<lfloor>x\<rfloor>; r = x - of_int f
      in if r < 1 / 2 then f else if 1 / 2 < r then f + 1 else if even f then f else f + 1)"

definition ulp_exp :: "rat \<Rightarrow> int" where
  "ulp_exp q = max (ilog2 q - 52) (- 1074)"

definition round_mag :: "rat \<Rightarrow> rat" where
  "round_mag q =
     (if q = 0 then 0 else of_int (round_even (q / 2 powi ulp_exp q)) * 2 powi ulp_exp q)"

definition f64_max_mag :: rat where
  "f64_max_mag = (2 ^ 53 - 1) * 2 ^ 971"

definition f64_round :: "bool \<Rightarrow> rat \<Rightarrow> f64" where
  "f64_round s q = (let m = round_mag q in if f64_max_mag < m then Infinity s else Finite s m)"

section \<open>Operations\<close>

fun f64_val :: "f64 \<Rightarrow> rat" where
  "f64_val (Finite s q) = (if s then - q else q)"
| "f64_val _ = 0"

definition f64_lit :: "rat \<Rightarrow> f64" where
  "f64_lit q = f64_round (q < 0) \<bar>q\<bar>"

definition f64_of_nat :: "nat \<Rightarrow> f64" where
  "f64_of_nat n = f64_round False (of_nat n)"

fun f64_neg :: "f64 \<Rightarrow> f64" where
  "f64_neg NaN = NaN"
| "f64_neg (Infinity s) = Infinity (\<not> s)"
| "f64_neg (Finite s q) = Finite (\<not> s) q"

fun f64_add :: "f64 \<Rightarrow> f64 \<Rightarrow> f64" where
  "f64_add NaN _ = NaN"
| "f64_add _ NaN = NaN"
| "f64_add (Infinity s) (Infinity t) = (if s = t then Infinity s else NaN)"
| "f64_add (Infinity s) (Finite _ _) = Infinity s"
| "f64_add (Finite _ _) (Infinity t) = Infinity t"
| "f64_add (Finite s a) (Finite t b) =
     (let r = f64_val (Finite s a) + f64_val (Finite t b)
      in if r = 0 then Finite (s \<and> t) 0 else f64_round (r < 0) \<bar>r\<bar>)"

definition f64_sub :: "f64 \<Rightarrow> f64 \<Rightarrow> f64" where
  "f64_sub a b = f64_add a (f64_neg b)"

fun f64_mul :: "f64 \<Rightarrow> f64 \<Rightarrow> f64" where
  "f64_mul NaN _ = NaN"
| "f64_mul _ NaN = NaN"
| "f64_mul (Infinity s) (Infinity t) = Infinity (s \<noteq> t)"
| "f64_mul (Infinity s) (Finite t b) = (if b = 0 then NaN else Infinity (s \<noteq> t))"
| "f64_mul (Finite s a) (Infinity t) = (if a = 0 then NaN else Infinity (s \<noteq> t))"
| "f64_mul (Finite s a) (Finite t b) = f64_round (s \<noteq> t) (a * b)"

fun f64_div :: "f64 \<Rightarrow> f64 \<Rightarrow> f64" where
  "f64_div NaN _ = NaN"
| "f64_div _ NaN = NaN"
| "f64_div (Infinity s) (Infinity t) = NaN"
| "f64_div (Infinity s) (Finite t b) = Infinity (s \<noteq> t)"
| "f64_div (Finite s a) (Infinity t) = Finite (s \<noteq> t) 0"
| "f64_div (Finite s a) (Finite t b) =
     (if b = 0 then if a = 0 then NaN else Infinity (s \<noteq> t)
      else f64_round (s \<noteq> t) (a / b))"

fun f64_is_finite :: "f64 \<Rightarrow> bool" where
  "f64_is_finite (Finite _ _) = True"
| "f64_is_finite _ = False"

text \<open>\<open><\<close> and \<open><=\<close> are false on a NaN; the two zeros are equal.\<close>

fun f64_lt :: "f64 \<Rightarrow> f64 \<Rightarrow> bool" where
  "f64_lt NaN _ = False"
| "f64_lt _ NaN = False"
| "f64_lt (Infinity s) (Infinity t) = (s \<and> \<not> t)"
| "f64_lt (Infinity s) (Finite _ _) = s"
| "f64_lt (Finite _ _) (Infinity t) = (\<not> t)"
| "f64_lt (Finite s a) (Finite t b) = (f64_val (Finite s a) < f64_val (Finite t b))"

definition f64_le :: "f64 \<Rightarrow> f64 \<Rightarrow> bool" where
  "f64_le a b = (a \<noteq> NaN \<and> b \<noteq> NaN \<and> \<not> f64_lt b a)"

text \<open>\<open>f64::max\<close> ignores a NaN.\<close>

definition f64_max :: "f64 \<Rightarrow> f64 \<Rightarrow> f64" where
  "f64_max a b = (if a = NaN then b else if b = NaN then a else if f64_lt a b then b else a)"

text \<open>\<open>f64::total_cmp\<close>, by its IEEE totalOrder key: class first, then the value, then the
  sign of a zero.\<close>

fun f64_total_key :: "f64 \<Rightarrow> int \<times> rat \<times> int" where
  "f64_total_key NaN = (2, 0, 0)"
| "f64_total_key (Infinity s) = (if s then - 1 else 1, 0, 0)"
| "f64_total_key (Finite s q) = (0, f64_val (Finite s q), if s then - 1 else 1)"

definition f64_total_cmp :: "f64 \<Rightarrow> f64 \<Rightarrow> ordering" where
  "f64_total_cmp a b = cmp_of (f64_total_key a) (f64_total_key b)"

text \<open>\<open>Duration::as_secs_f64\<close>: the whole seconds plus the rounded fraction.\<close>

definition as_secs_f64 :: "duration \<Rightarrow> f64" where
  "as_secs_f64 d =
     f64_add (f64_of_nat (d div 10 ^ 9)) (f64_div (f64_of_nat (d mod 10 ^ 9)) (f64_of_nat (10 ^ 9)))"

section \<open>Rounding is monotone and keeps powers of two\<close>

lemma bit_len_bounds: "0 < n \<Longrightarrow> 2 ^ (bit_len n - 1) \<le> n \<and> n < 2 ^ bit_len n \<and> 0 < bit_len n"
proof (induction n rule: bit_len.induct)
  case (1 n)
  show ?case
  proof (cases "n div 2 = 0")
    case True
    with "1.prems" have "n = 1" by auto
    then show ?thesis by (simp add: bit_len.simps)
  next
    case False
    let ?b = "bit_len (n div 2)"
    from False have IH: "2 ^ (?b - 1) \<le> n div 2" "n div 2 < 2 ^ ?b" "0 < ?b"
      using "1.IH" "1.prems" by auto
    have len: "bit_len n = Suc ?b" using "1.prems" by (subst bit_len.simps) simp
    have "(2::nat) ^ ?b = 2 * 2 ^ (?b - 1)" using IH(3) by (cases ?b) auto
    then have "2 ^ ?b \<le> n" using IH(1) by auto
    moreover have "n < 2 * 2 ^ ?b" using IH(2) by auto
    ultimately show ?thesis by (simp add: len)
  qed
qed

lemma powi_less_iff: "(2::rat) powi i < 2 powi j \<longleftrightarrow> i < j"
proof
  assume "(2::rat) powi i < 2 powi j"
  moreover have "j \<le> i \<Longrightarrow> (2::rat) powi j \<le> 2 powi i" by (rule power_int_increasing) auto
  ultimately show "i < j" by linarith
next
  assume "i < j"
  then show "(2::rat) powi i < 2 powi j" by (rule power_int_strict_increasing) simp
qed

lemma powi_pos [simp]: "0 < (2::rat) powi i"
  by simp

lemma ilog2_bounds:
  assumes "0 < q"
  shows "2 powi ilog2 q \<le> q" and "q < 2 powi (ilog2 q + 1)"
proof -
  obtain n d where nd: "quotient_of q = (n, d)" by (cases "quotient_of q")
  have d: "0 < d" and q: "q = of_int n / of_int d"
    using quotient_of_denom_pos [OF nd] quotient_of_div [OF nd] by auto
  then have n: "0 < n" using assms by (simp add: zero_less_divide_iff)
  define a b where "a = bit_len (nat n)" and "b = bit_len (nat d)"
  have A: "2 ^ (a - 1) \<le> nat n" "nat n < 2 ^ a" "0 < a"
    using bit_len_bounds [of "nat n"] n by (auto simp: a_def)
  have B: "2 ^ (b - 1) \<le> nat d" "nat d < 2 ^ b" "0 < b"
    using bit_len_bounds [of "nat d"] d by (auto simp: b_def)
  have n1: "(2::rat) powi (int a - 1) \<le> of_int n" and n2: "of_int n < (2::rat) powi int a"
  proof -
    have "of_nat (2 ^ (a - 1)) \<le> (of_nat (nat n) :: rat)" using A(1) by (simp only: of_nat_le_iff)
    then show "(2::rat) powi (int a - 1) \<le> of_int n"
      using A(3) n by (simp add: power_int_def nat_diff_distrib)
    have "of_nat (nat n) < (of_nat (2 ^ a) :: rat)" using A(2) by (simp only: of_nat_less_iff)
    then show "of_int n < (2::rat) powi int a" using n by (simp add: power_int_def)
  qed
  have d1: "(2::rat) powi (int b - 1) \<le> of_int d" and d2: "of_int d < (2::rat) powi int b"
  proof -
    have "of_nat (2 ^ (b - 1)) \<le> (of_nat (nat d) :: rat)" using B(1) by (simp only: of_nat_le_iff)
    then show "(2::rat) powi (int b - 1) \<le> of_int d"
      using B(3) d by (simp add: power_int_def nat_diff_distrib)
    have "of_nat (nat d) < (of_nat (2 ^ b) :: rat)" using B(2) by (simp only: of_nat_less_iff)
    then show "of_int d < (2::rat) powi int b" using d by (simp add: power_int_def)
  qed
  define k where "k = int a - int b"
  have dpos: "(0::rat) < of_int d" using d by simp
  have lo: "2 powi (k - 1) < q"
  proof -
    have "(2::rat) powi (k - 1) * of_int d < 2 powi (k - 1) * 2 powi int b"
      using d2 by (intro mult_strict_left_mono) auto
    also have "\<dots> = 2 powi (int a - 1)"
      using power_int_add [of "2::rat" "k - 1" "int b"] by (simp add: k_def)
    also have "\<dots> \<le> of_int n" by (rule n1)
    finally show ?thesis using dpos by (simp add: q pos_less_divide_eq)
  qed
  have hi: "q < 2 powi (k + 1)"
  proof -
    have "of_int n < (2::rat) powi int a" by (rule n2)
    also have "\<dots> = 2 powi (k + 1) * 2 powi (int b - 1)" by (simp add: k_def flip: power_int_add)
    also have "\<dots> \<le> 2 powi (k + 1) * of_int d" using d1 by (intro mult_left_mono) auto
    finally show ?thesis using dpos by (simp add: q pos_divide_less_eq)
  qed
  have il: "ilog2 q = (if 2 powi k \<le> q then k else k - 1)"
    by (simp add: ilog2_def nd k_def a_def b_def)
  show "2 powi ilog2 q \<le> q" using lo by (auto simp: il)
  show "q < 2 powi (ilog2 q + 1)" using hi by (auto simp: il)
qed

lemma ilog2_unique:
  assumes "2 powi k \<le> q" "q < 2 powi (k + 1)"
  shows "ilog2 q = k"
proof -
  have q: "0 < q" using assms(1) powi_pos [of k] by linarith
  have "(2::rat) powi k < 2 powi (ilog2 q + 1)" "(2::rat) powi ilog2 q < 2 powi (k + 1)"
    using assms ilog2_bounds [OF q] by linarith+
  then show ?thesis by (simp add: powi_less_iff)
qed

lemma ilog2_mono: "0 < p \<Longrightarrow> p \<le> q \<Longrightarrow> ilog2 p \<le> ilog2 q"
proof -
  assume p: "0 < p" and pq: "p \<le> q"
  have "(2::rat) powi ilog2 p < 2 powi (ilog2 q + 1)"
    using ilog2_bounds(1) [OF p] ilog2_bounds(2) [of q] p pq by linarith
  then show ?thesis by (simp add: powi_less_iff)
qed

lemma round_even_bounds: "of_int (round_even x) \<le> x + 1 / 2" "x - 1 / 2 \<le> of_int (round_even x)"
  by (auto simp: round_even_def Let_def) linarith+

lemma round_even_mono: "x \<le> y \<Longrightarrow> round_even x \<le> round_even y"
proof -
  assume xy: "x \<le> y"
  then have fl: "\<lfloor>x\<rfloor> \<le> \<lfloor>y\<rfloor>" by (rule floor_mono)
  show ?thesis
  proof (cases "\<lfloor>x\<rfloor> = \<lfloor>y\<rfloor>")
    case True
    with xy show ?thesis by (auto simp: round_even_def Let_def)
  next
    case False
    with fl have "\<lfloor>x\<rfloor> + 1 \<le> \<lfloor>y\<rfloor>" by simp
    moreover have "round_even x \<le> \<lfloor>x\<rfloor> + 1" "\<lfloor>y\<rfloor> \<le> round_even y"
      by (auto simp: round_even_def Let_def)
    ultimately show ?thesis by linarith
  qed
qed

lemma round_even_of_int [simp]: "round_even (of_int n) = n"
  by (simp add: round_even_def)

lemma round_mag_0 [simp]: "round_mag 0 = 0"
  by (simp add: round_mag_def)

lemma round_mag_nonneg: "0 \<le> q \<Longrightarrow> 0 \<le> round_mag q"
  using round_even_mono [of 0 "q / 2 powi ulp_exp q"] round_even_of_int [of 0]
  by (auto simp: round_mag_def)

text \<open>An integer multiple of the unit in the last place is kept.\<close>

lemma round_mag_exact:
  assumes "q = of_int n * 2 powi ulp_exp q"
  shows "round_mag q = q"
proof (cases "q = 0")
  case False
  have "q / 2 powi ulp_exp q = of_int n"
    by (subst assms) simp
  with assms show ?thesis by (simp add: round_mag_def)
qed simp

lemma powi_multiple:
  assumes "e \<le> k"
  shows "(2::rat) powi k = of_int (2 ^ nat (k - e)) * 2 powi e"
proof -
  have "(2::rat) powi k = 2 powi (k - e) * 2 powi e"
    using power_int_add [of "2::rat" "k - e" e] by simp
  moreover have "(2::rat) powi (k - e) = of_int (2 ^ nat (k - e))"
    using assms by (simp add: power_int_def)
  ultimately show ?thesis by simp
qed

lemma round_mag_powi:
  assumes "- 1074 \<le> k"
  shows "round_mag (2 powi k) = 2 powi k"
proof -
  have "(2::rat) powi k < 2 powi (k + 1)" by (simp add: powi_less_iff)
  then have "ilog2 (2 powi k) = k" by (intro ilog2_unique) auto
  then have "ulp_exp (2 powi k) \<le> k" using assms by (simp add: ulp_exp_def)
  then show ?thesis by (rule round_mag_exact [OF powi_multiple])
qed

lemma round_even_le: "x \<le> of_int n \<Longrightarrow> round_even x \<le> n"
  using round_even_mono [of x "of_int n"] by simp

lemma round_even_ge: "of_int n \<le> x \<Longrightarrow> n \<le> round_even x"
  using round_even_mono [of "of_int n" x] by simp

lemma round_mag_mono:
  assumes "0 \<le> p" "p \<le> q"
  shows "round_mag p \<le> round_mag q"
proof (cases "p = 0")
  case True
  with assms show ?thesis by (simp add: round_mag_nonneg)
next
  case False
  with assms have p: "0 < p" and q: "0 < q" by auto
  let ?e = "ulp_exp p" and ?f = "ulp_exp q"
  have il: "ilog2 p \<le> ilog2 q" using p assms(2) by (rule ilog2_mono)
  then have ef: "?e \<le> ?f" by (auto simp: ulp_exp_def)
  show ?thesis
  proof (cases "?e = ?f")
    case True
    have "p / 2 powi ?f \<le> q / 2 powi ?f" using assms(2) by (simp add: divide_right_mono)
    with True p q show ?thesis by (simp add: round_mag_def round_even_mono)
  next
    case False
    with ef have lt: "ilog2 p < ilog2 q" and f: "?f = ilog2 q - 52" and e: "?e \<le> ilog2 q"
      by (auto simp: ulp_exp_def)
    let ?B = "(2::rat) powi ilog2 q"
    have pB: "p \<le> ?B"
    proof -
      have "(2::rat) powi (ilog2 p + 1) \<le> ?B" using lt by (intro power_int_increasing) auto
      then show ?thesis using ilog2_bounds(2) [OF p] by linarith
    qed
    have "round_mag p \<le> ?B"
    proof -
      let ?n = "2 ^ nat (ilog2 q - ?e) :: int"
      have B: "?B = of_int ?n * 2 powi ?e" using e by (rule powi_multiple)
      have "p / 2 powi ?e \<le> of_int ?n" using pB by (simp add: B pos_divide_le_eq)
      then have "of_int (round_even (p / 2 powi ?e)) \<le> (of_int ?n :: rat)"
        by (simp only: of_int_le_iff round_even_le)
      then show ?thesis using p by (simp add: round_mag_def B)
    qed
    also have "?B \<le> round_mag q"
    proof -
      let ?n = "2 ^ nat (ilog2 q - ?f) :: int"
      have B: "?B = of_int ?n * 2 powi ?f" using f by (intro powi_multiple) simp
      have "of_int ?n \<le> q / 2 powi ?f"
        using ilog2_bounds(1) [OF q] by (simp add: B pos_le_divide_eq)
      then have "(of_int ?n :: rat) \<le> of_int (round_even (q / 2 powi ?f))"
        by (simp only: of_int_le_iff round_even_ge)
      then show ?thesis using q by (simp add: round_mag_def B)
    qed
    finally show ?thesis .
  qed
qed

text \<open>A bound that is a power of two survives rounding.\<close>

lemma round_mag_le_powi: "0 \<le> q \<Longrightarrow> q \<le> 2 powi k \<Longrightarrow> - 1074 \<le> k \<Longrightarrow> round_mag q \<le> 2 powi k"
  using round_mag_mono [of q "2 powi k"] by (simp add: round_mag_powi)

lemma round_mag_ge_powi: "2 powi k \<le> q \<Longrightarrow> - 1074 \<le> k \<Longrightarrow> 2 powi k \<le> round_mag q"
  using round_mag_mono [of "2 powi k" q] by (simp add: round_mag_powi)

text \<open>The rounding of a number whose binade is known.\<close>

lemma round_mag_at:
  assumes "2 powi k \<le> q" "q < 2 powi (k + 1)" "- 1022 \<le> k"
  shows "round_mag q = of_int (round_even (q / 2 powi (k - 52))) * 2 powi (k - 52)"
proof -
  have "0 < q" using assms(1) powi_pos [of k] by linarith
  moreover have "ulp_exp q = k - 52"
    using ilog2_unique [OF assms(1,2)] assms(3) by (simp add: ulp_exp_def)
  ultimately show ?thesis by (simp add: round_mag_def)
qed

section \<open>Finite, non-negative numbers\<close>

definition f64_nonneg_upto :: "int \<Rightarrow> f64 \<Rightarrow> bool" where
  "f64_nonneg_upto k x = (case x of Finite s q \<Rightarrow> \<not> s \<and> 0 \<le> q \<and> q \<le> 2 powi k | _ \<Rightarrow> False)"

lemma f64_max_mag_ge: "k \<le> 1023 \<Longrightarrow> (2::rat) powi k \<le> f64_max_mag"
proof -
  assume "k \<le> 1023"
  then have "(2::rat) powi k \<le> 2 powi 1023" by (intro power_int_increasing) auto
  also have "\<dots> = 2 ^ 52 * 2 ^ 971" by (simp add: power_int_def flip: power_add)
  also have "\<dots> \<le> f64_max_mag" unfolding f64_max_mag_def by (intro mult_right_mono) auto
  finally show ?thesis .
qed

lemma f64_round_upto:
  assumes "0 \<le> q" "q \<le> 2 powi k" "- 1074 \<le> k" "k \<le> 1023"
  shows "f64_round s q = Finite s (round_mag q)" "round_mag q \<le> 2 powi k" "0 \<le> round_mag q"
  using round_mag_le_powi [OF assms(1-3)] f64_max_mag_ge [OF assms(4)] round_mag_nonneg [OF assms(1)]
  by (auto simp: f64_round_def Let_def)

lemma f64_round_scaled:
  assumes "2 ^ 52 \<le> q * 2 ^ j" "q * 2 ^ j < 2 ^ 53" "j \<le> 1074"
  shows "f64_round s q = Finite s (of_int (round_even (q * 2 ^ j)) / 2 ^ j)"
proof -
  have p: "(2::rat) powi (int i - int j) = 2 ^ i / 2 ^ j" for i
    using power_int_diff [of "2::rat" "int i" "int j"] by (simp only: power_int_of_nat) simp
  have lo: "2 powi (52 - int j) \<le> q"
    using assms(1) p [of 52] by (simp add: pos_divide_le_eq)
  have hi: "q < 2 powi (52 - int j + 1)"
    using assms(2) p [of 53] by (simp add: pos_less_divide_eq)
  have "round_mag q = of_int (round_even (q / 2 powi (52 - int j - 52))) * 2 powi (52 - int j - 52)"
    by (rule round_mag_at [OF lo hi]) (use assms(3) in simp)
  also have "2 powi (52 - int j - 52) = 1 / (2::rat) ^ j"
    using p [of 0] by simp
  finally have r: "round_mag q = of_int (round_even (q * 2 ^ j)) / 2 ^ j" by simp
  have "0 \<le> q" using lo powi_pos [of "52 - int j"] by linarith
  moreover have "q \<le> 2 powi (53 - int j)" using hi by simp
  ultimately have "f64_round s q = Finite s (round_mag q)"
    using f64_round_upto(1) [of q "53 - int j" s] assms(3) by simp
  then show ?thesis by (simp add: r)
qed

lemma f64_round_nonneg_upto:
  "0 \<le> q \<Longrightarrow> q \<le> 2 powi k \<Longrightarrow> - 1074 \<le> k \<Longrightarrow> k \<le> 1023 \<Longrightarrow> f64_nonneg_upto k (f64_round False q)"
  using f64_round_upto(1) [of q k False] f64_round_upto(2,3) [of q k] by (simp add: f64_nonneg_upto_def)

lemma f64_nonneg_uptoE:
  assumes "f64_nonneg_upto k x"
  obtains q where "x = Finite False q" "0 \<le> q" "q \<le> 2 powi k"
  using assms by (cases x) (auto simp: f64_nonneg_upto_def)

lemma f64_nonneg_upto_mono: "f64_nonneg_upto k x \<Longrightarrow> k \<le> l \<Longrightarrow> f64_nonneg_upto l x"
  by (auto simp: f64_nonneg_upto_def power_int_increasing split: f64.splits
      intro: order_trans [OF _ power_int_increasing])

lemma f64_nonneg_upto_finite:
  "f64_nonneg_upto k x \<Longrightarrow> f64_is_finite x \<and> \<not> f64_lt x (f64_lit 0)"
  by (auto simp: f64_nonneg_upto_def f64_lit_def f64_round_def f64_max_mag_def split: f64.splits)

lemma f64_add_nonneg_upto:
  assumes "f64_nonneg_upto k x" "f64_nonneg_upto k y" "- 1074 \<le> k" "k < 1023"
  shows "f64_nonneg_upto (k + 1) (f64_add x y)"
proof -
  obtain p q where pq: "x = Finite False p" "0 \<le> p" "p \<le> 2 powi k"
      "y = Finite False q" "0 \<le> q" "q \<le> 2 powi k"
    using assms by (metis f64_nonneg_uptoE)
  have "p + q \<le> 2 powi (k + 1)" using pq by (simp add: power_int_add)
  then show ?thesis
    using pq assms f64_round_nonneg_upto [of "p + q" "k + 1"]
    by (auto simp: Let_def f64_nonneg_upto_def)
qed

interpretation f64_total: cmp_order f64_total_cmp
  unfolding f64_total_cmp_def by (rule cmp_order_key)

end
