(* ===== verification/Db_Health.thy ===== *)
theory Db_Health
  imports Routing_Profile Float64
begin

text \<open>
  Database health and its supervisor (\<open>src/db.rs\<close>). The status is one atomic byte and the
  recovery request a \<open>tokio\<close> \<open>Notify\<close>, whose documented state is one stored permit. Ledger
  operations report from other tasks, so the supervisor and the reporters are a step relation
  whose steps are the single atomic accesses; a reporter between its two accesses is counted
  in \<open>w_reporting\<close>. Opening a pool and running migrations is \<open>sqlx\<close>'s work: the outcome of a
  recovery is the environment's choice.
\<close>

section \<open>Status\<close>

datatype database_status = Starting | Ready | Degraded

fun status_code :: "database_status \<Rightarrow> u8" where
  "status_code Starting = 0"
| "status_code Ready = 1"
| "status_code Degraded = 2"

fun status_str :: "database_status \<Rightarrow> string" where
  "status_str Starting = ''starting''"
| "status_str Ready = ''ok''"
| "status_str Degraded = ''degraded''"

record database_health =
  dh_status :: u8
  dh_permit :: bool

definition health_new :: "database_status \<Rightarrow> database_health" where
  "health_new s = \<lparr>dh_status = status_code s, dh_permit = False\<rparr>"

definition health_starting :: database_health where
  "health_starting = health_new Starting"

definition health_ready :: database_health where
  "health_ready = health_new Ready"

definition status_of :: "database_health \<Rightarrow> database_status panics" where
  "status_of h =
     (if dh_status h = 0 then Some Starting else if dh_status h = 1 then Some Ready
      else if dh_status h = 2 then Some Degraded else None)"

definition report_ready :: "database_health \<Rightarrow> database_health" where
  "report_ready h = h\<lparr>dh_status := status_code Ready\<rparr>"

text \<open>The two atomic accesses of a failure report.\<close>

definition mark_degraded :: "database_health \<Rightarrow> database_health" where
  "mark_degraded h = h\<lparr>dh_status := status_code Degraded\<rparr>"

definition notify_one :: "database_health \<Rightarrow> database_health" where
  "notify_one h = h\<lparr>dh_permit := True\<rparr>"

definition report_failure :: "database_health \<Rightarrow> database_health" where
  "report_failure h = notify_one (mark_degraded h)"

definition recovery_phase_label :: "database_status \<Rightarrow> string" where
  "recovery_phase_label s = (case s of Starting \<Rightarrow> ''initial'' | _ \<Rightarrow> ''recovery'')"

section \<open>Pool settings\<close>

definition nanos_per_sec :: nat where "nanos_per_sec = 10 ^ 9"
definition ACQUIRE_TIMEOUT :: duration where "ACQUIRE_TIMEOUT = 90 * nanos_per_sec"
definition IDLE_TIMEOUT :: duration where "IDLE_TIMEOUT = 30 * nanos_per_sec"
definition MAX_LIFETIME :: duration where "MAX_LIFETIME = 30 * 60 * nanos_per_sec"
definition MAX_CONNECTIONS :: nat where "MAX_CONNECTIONS = 10"
definition INITIAL_RECOVERY_BACKOFF :: duration where "INITIAL_RECOVERY_BACKOFF = 250 * 10 ^ 6"
definition MAX_RECOVERY_BACKOFF :: duration where "MAX_RECOVERY_BACKOFF = 30 * nanos_per_sec"

record pool_options =
  po_acquire_timeout :: duration
  po_idle_timeout :: duration
  po_max_lifetime :: duration
  po_min_connections :: nat
  po_max_connections :: nat

definition pool_options_default :: pool_options where
  "pool_options_default =
     \<lparr>po_acquire_timeout = ACQUIRE_TIMEOUT, po_idle_timeout = IDLE_TIMEOUT,
      po_max_lifetime = MAX_LIFETIME, po_min_connections = 0, po_max_connections = MAX_CONNECTIONS\<rparr>"

definition connect_lazy :: "(string \<Rightarrow> ('opts, 'e) result) \<Rightarrow> string \<Rightarrow> ('opts \<times> pool_options, 'e) result" where
  "connect_lazy from_str database_url =
     result_bind (from_str database_url) (\<lambda>opts. Ok (opts, pool_options_default))"

section \<open>The supervisor\<close>

text \<open>\<open>Duration::saturating_mul\<close>.\<close>

definition duration_max :: duration where
  "duration_max = (2 ^ 64 - 1) * nanos_per_sec + 999999999"

definition next_backoff :: "duration \<Rightarrow> duration \<Rightarrow> duration" where
  "next_backoff max_backoff backoff = min (min (backoff * 2) duration_max) max_backoff"

text \<open>Where the supervisor is: running the recovery, reporting its failure, asleep, testing the
  loop condition of \<open>wait_for_recovery_request\<close>, or parked in \<open>notified().await\<close>.\<close>

datatype phase = Recovering | Reporting | Sleeping duration | Checking | Parked

record world =
  w_health :: database_health
  w_phase :: phase
  w_backoff :: duration
  w_reporting :: nat

inductive supervisor_step :: "duration \<Rightarrow> duration \<Rightarrow> world \<Rightarrow> world \<Rightarrow> bool"
  for initial_backoff max_backoff where
  recovered: "w_phase w = Recovering \<Longrightarrow> supervisor_step initial_backoff max_backoff w
     (w\<lparr>w_health := report_ready (w_health w), w_backoff := initial_backoff, w_phase := Checking\<rparr>)"
| failed: "w_phase w = Recovering \<Longrightarrow> supervisor_step initial_backoff max_backoff w
     (w\<lparr>w_health := mark_degraded (w_health w), w_phase := Reporting\<rparr>)"
| reported: "w_phase w = Reporting \<Longrightarrow> supervisor_step initial_backoff max_backoff w
     (w\<lparr>w_health := notify_one (w_health w), w_phase := Sleeping (w_backoff w),
        w_backoff := next_backoff max_backoff (w_backoff w)\<rparr>)"
| woke: "w_phase w = Sleeping d \<Longrightarrow> supervisor_step initial_backoff max_backoff w (w\<lparr>w_phase := Recovering\<rparr>)"
| still_ready: "w_phase w = Checking \<Longrightarrow> status_of (w_health w) = Some Ready \<Longrightarrow>
     supervisor_step initial_backoff max_backoff w (w\<lparr>w_phase := Parked\<rparr>)"
| not_ready: "w_phase w = Checking \<Longrightarrow> status_of (w_health w) = Some s \<Longrightarrow> s \<noteq> Ready \<Longrightarrow>
     supervisor_step initial_backoff max_backoff w (w\<lparr>w_phase := Recovering\<rparr>)"
| notified: "w_phase w = Parked \<Longrightarrow> dh_permit (w_health w) \<Longrightarrow> supervisor_step initial_backoff max_backoff w
     (w\<lparr>w_health := (w_health w)\<lparr>dh_permit := False\<rparr>, w_phase := Checking\<rparr>)"

text \<open>A ledger operation reports success in one access and failure in two.\<close>

inductive reporter_step :: "world \<Rightarrow> world \<Rightarrow> bool" where
  succeeded: "reporter_step w (w\<lparr>w_health := report_ready (w_health w)\<rparr>)"
| marked: "reporter_step w (w\<lparr>w_health := mark_degraded (w_health w), w_reporting := w_reporting w + 1\<rparr>)"
| requested: "0 < w_reporting w \<Longrightarrow>
     reporter_step w (w\<lparr>w_health := notify_one (w_health w), w_reporting := w_reporting w - 1\<rparr>)"

definition supervise_with :: "database_health \<Rightarrow> duration \<Rightarrow> world" where
  "supervise_with h initial_backoff =
     \<lparr>w_health = h, w_phase = Recovering, w_backoff = initial_backoff, w_reporting = 0\<rparr>"

inductive reachable :: "duration \<Rightarrow> duration \<Rightarrow> world \<Rightarrow> bool" for initial_backoff max_backoff where
  start: "reachable initial_backoff max_backoff (supervise_with (health_new s) initial_backoff)"
| supervisor: "reachable initial_backoff max_backoff w \<Longrightarrow>
     supervisor_step initial_backoff max_backoff w w' \<Longrightarrow> reachable initial_backoff max_backoff w'"
| reporter: "reachable initial_backoff max_backoff w \<Longrightarrow> reporter_step w w' \<Longrightarrow>
     reachable initial_backoff max_backoff w'"

text \<open>\<open>supervise\<close> runs the loop with the service's backoff.\<close>

definition supervise_reachable :: "world \<Rightarrow> bool" where
  "supervise_reachable w = reachable INITIAL_RECOVERY_BACKOFF MAX_RECOVERY_BACKOFF w"

section \<open>No failure is missed\<close>

lemmas health_defs = report_ready_def mark_degraded_def notify_one_def health_new_def

definition world_inv :: "duration \<Rightarrow> duration \<Rightarrow> world \<Rightarrow> bool" where
  "world_inv initial_backoff max_backoff w \<longleftrightarrow>
     dh_status (w_health w) \<in> {0, 1, 2} \<and>
     (w_phase w = Parked \<longrightarrow> dh_status (w_health w) = 1 \<or> dh_permit (w_health w) \<or> 0 < w_reporting w) \<and>
     initial_backoff \<le> w_backoff w \<and> w_backoff w \<le> max_backoff \<and>
     (\<forall>d. w_phase w = Sleeping d \<longrightarrow> initial_backoff \<le> d \<and> d \<le> max_backoff)"

lemma status_of_cases:
  "status_of h = Some s \<longleftrightarrow> dh_status h = status_code s"
  "status_of h = None \<longleftrightarrow> dh_status h \<notin> {0, 1, 2}"
  by (cases s) (auto simp: status_of_def)

lemma next_backoff_bounds:
  "initial_backoff \<le> backoff \<Longrightarrow> initial_backoff \<le> max_backoff \<Longrightarrow> max_backoff \<le> duration_max \<Longrightarrow>
   initial_backoff \<le> next_backoff max_backoff backoff \<and> next_backoff max_backoff backoff \<le> max_backoff"
  by (auto simp: next_backoff_def)

lemma supervisor_step_inv:
  assumes "supervisor_step i m w w'" and "world_inv i m w" and "i \<le> m" "m \<le> duration_max"
  shows "world_inv i m w'"
  using assms next_backoff_bounds [of i "w_backoff w" m]
  by (cases rule: supervisor_step.cases) (auto simp: world_inv_def health_defs status_of_cases)

lemma reporter_step_inv:
  assumes "reporter_step w w'" and "world_inv i m w"
  shows "world_inv i m w'"
  using assms by (cases rule: reporter_step.cases) (auto simp: world_inv_def health_defs)

lemma reachable_inv:
  assumes "reachable i m w" and "i \<le> m" "m \<le> duration_max"
  shows "world_inv i m w"
  using assms
proof (induction rule: reachable.induct)
  case (start s)
  then show ?case by (cases s) (auto simp: world_inv_def supervise_with_def health_defs)
next
  case (supervisor w w')
  then show ?case by (blast intro: supervisor_step_inv)
next
  case (reporter w w')
  then show ?case by (blast intro: reporter_step_inv)
qed

lemma supervise_inv: "supervise_reachable w \<Longrightarrow> world_inv INITIAL_RECOVERY_BACKOFF MAX_RECOVERY_BACKOFF w"
  unfolding supervise_reachable_def
  by (erule reachable_inv) (simp_all add: INITIAL_RECOVERY_BACKOFF_def MAX_RECOVERY_BACKOFF_def
      duration_max_def nanos_per_sec_def)

inductive_cases parked_step: "supervisor_step i m w w'"

text \<open>C23: In every interleaving of the supervisor with reporting operations the status byte is
  one of the three the code writes; once no reporter is between its two accesses and the database
  is not known to be ready, the supervisor has a step (a failure is never slept through, though
  the permit may have been consumed by an earlier wait); while the database is ready and nothing
  was reported it stays parked without polling; and every pause between recoveries is between
  250 milliseconds and 30 seconds.\<close>

theorem supervisor_never_misses_a_failure:
  assumes "supervise_reachable w"
  shows "(\<exists>s. status_of (w_health w) = Some s) \<and>
    (status_of (w_health w) \<noteq> Some Ready \<and> w_reporting w = 0 \<longrightarrow>
       (\<exists>w'. supervisor_step INITIAL_RECOVERY_BACKOFF MAX_RECOVERY_BACKOFF w w')) \<and>
    (w_phase w = Parked \<and> \<not> dh_permit (w_health w) \<longrightarrow>
       \<not> (\<exists>w'. supervisor_step INITIAL_RECOVERY_BACKOFF MAX_RECOVERY_BACKOFF w w')) \<and>
    (\<forall>d. w_phase w = Sleeping d \<longrightarrow> 250 * 10 ^ 6 \<le> d \<and> d \<le> 30 * 10 ^ 9)"
proof (intro conjI impI)
  note inv = supervise_inv [OF assms]
  show status: "\<exists>s. status_of (w_health w) = Some s"
    using inv status_of_cases(2) [of "w_health w"] by (auto simp: world_inv_def)
  show "\<exists>w'. supervisor_step INITIAL_RECOVERY_BACKOFF MAX_RECOVERY_BACKOFF w w'"
    if "status_of (w_health w) \<noteq> Some Ready \<and> w_reporting w = 0"
  proof (cases "w_phase w")
    case Parked
    with inv that have "dh_permit (w_health w)"
      by (auto simp: world_inv_def status_of_cases)
    with Parked show ?thesis by (blast intro: supervisor_step.notified)
  next
    case Checking
    with that status show ?thesis by (blast intro: supervisor_step.not_ready)
  qed (blast intro: supervisor_step.intros)+
  show "\<not> (\<exists>w'. supervisor_step INITIAL_RECOVERY_BACKOFF MAX_RECOVERY_BACKOFF w w')"
    if "w_phase w = Parked \<and> \<not> dh_permit (w_health w)"
    using that by (auto elim: parked_step)
  show "\<forall>d. w_phase w = Sleeping d \<longrightarrow> 250 * 10 ^ 6 \<le> d \<and> d \<le> 30 * 10 ^ 9"
    using inv by (simp add: world_inv_def INITIAL_RECOVERY_BACKOFF_def MAX_RECOVERY_BACKOFF_def nanos_per_sec_def)
qed

theorem supervisor_never_misses_a_failure_witness:
  "\<exists>w'. supervisor_step INITIAL_RECOVERY_BACKOFF MAX_RECOVERY_BACKOFF
     (supervise_with health_starting INITIAL_RECOVERY_BACKOFF) w'"
proof -
  have "supervise_reachable (supervise_with health_starting INITIAL_RECOVERY_BACKOFF)"
    unfolding supervise_reachable_def health_starting_def by (rule reachable.start)
  from supervisor_never_misses_a_failure [OF this] show ?thesis
    by (simp add: supervise_with_def health_starting_def health_new_def status_of_def)
qed

end
