(* ===== verification/Server.thy ===== *)
theory Server
  imports Db_Health
begin

text \<open>
  The server around the handlers (\<open>src/server.rs\<close>): probes, request ids, the answer to a panic,
  the limits of each class of routes and the middleware stack of \<open>serve\<close>. A router is the list
  of its routes and each route carries its layers, outermost first: \<open>router.layer(l)\<close> puts \<open>l\<close>
  around every route registered so far. What a layer of tower or axum does is theirs; the crate's
  features are an argument.
\<close>

section \<open>Constants\<close>

definition STANDARD_REQUEST_TIMEOUT :: duration where "STANDARD_REQUEST_TIMEOUT = 30 * nanos_per_sec"
definition INFERENCE_REQUEST_TIMEOUT :: duration where "INFERENCE_REQUEST_TIMEOUT = 10 * 60 * nanos_per_sec"
definition SHUTDOWN_TIMEOUT :: duration where "SHUTDOWN_TIMEOUT = 30 * nanos_per_sec"
definition READINESS_DEPENDENCY_TIMEOUT :: duration where "READINESS_DEPENDENCY_TIMEOUT = 2 * nanos_per_sec"
definition METRICS_ROUTE :: string where "METRICS_ROUTE = ''/metrics''"
definition STANDARD_PAYLOAD_SIZE_BYTES :: nat where "STANDARD_PAYLOAD_SIZE_BYTES = 1048576"
definition INFERENCE_PAYLOAD_SIZE_BYTES :: nat where "INFERENCE_PAYLOAD_SIZE_BYTES = 20 * 1048576"
definition MAX_REQUESTS_PER_SEC :: nat where "MAX_REQUESTS_PER_SEC = 100"
definition MAX_CONCURRENT_REQUESTS :: nat where "MAX_CONCURRENT_REQUESTS = 1024"

section \<open>Routes and their layers\<close>

text \<open>The features that change how requests are served.\<close>

record features =
  ft_metrics :: bool
  ft_security_headers :: bool
  ft_compression :: bool
  ft_payload_limit :: bool
  ft_sensitive_headers :: bool
  ft_cors :: bool
  ft_rate_limiting :: bool
  ft_concurrency_limit :: bool

datatype http_method = GET | POST | OtherMethod string

datatype handler =
    Hello | ChatCompletions | LegacyCompletions | GetGeneration | GetModels
  | GetModelEndpointsByAuthor | GetModelEndpoints | GetAuthKey | GetCredits | Livez | Readyz | Metrics

datatype layer =
    Timeout nat duration
  | DisableDefaultBodyLimit
  | RequestBodyLimit nat
  | Authorize
  | ConcurrencyLimit nat
  | RequestDecompression
  | Compression
  | TrimTrailingSlash
  | SensitiveHeader string
  | PermissiveCors
  | Helmet
  | TraceHttp
  | Prometheus
  | RateLimit duration nat
  | PropagateRequestId string
  | SetRequestId string
  | CatchPanic

record route =
  ro_method :: http_method
  ro_path :: string
  ro_handler :: handler
  ro_layers :: "layer list"

definition route_at :: "string \<Rightarrow> http_method \<Rightarrow> handler \<Rightarrow> route" where
  "route_at path m h = \<lparr>ro_method = m, ro_path = path, ro_handler = h, ro_layers = []\<rparr>"

definition layered :: "layer \<Rightarrow> route list \<Rightarrow> route list" where
  "layered l router = map (\<lambda>r. r\<lparr>ro_layers := l # ro_layers r\<rparr>) router"

definition standard_payload_size :: "features \<Rightarrow> nat option" where
  "standard_payload_size ft = (if ft_payload_limit ft then Some STANDARD_PAYLOAD_SIZE_BYTES else None)"

definition inference_payload_size :: "features \<Rightarrow> nat option" where
  "inference_payload_size ft = (if ft_payload_limit ft then Some INFERENCE_PAYLOAD_SIZE_BYTES else None)"

definition route_policies :: "features \<Rightarrow> route list \<Rightarrow> duration \<Rightarrow> nat option \<Rightarrow> route list panics" where
  "route_policies ft router timeout payload_size =
     (let router = layered (Timeout 408 timeout) router in
      if ft_payload_limit ft
      then do { limit \<leftarrow> payload_size;
                Some (layered (RequestBodyLimit limit) (layered DisableDefaultBodyLimit router)) }
      else Some router)"

definition standard_route_policies :: "features \<Rightarrow> route list \<Rightarrow> route list panics" where
  "standard_route_policies ft router =
     route_policies ft router STANDARD_REQUEST_TIMEOUT (standard_payload_size ft)"

definition inference_route_policies :: "features \<Rightarrow> route list \<Rightarrow> route list panics" where
  "inference_route_policies ft router =
     route_policies ft router INFERENCE_REQUEST_TIMEOUT (inference_payload_size ft)"

definition health_router :: "features \<Rightarrow> route list panics" where
  "health_router ft =
     standard_route_policies ft [route_at ''/livez'' GET Livez, route_at ''/readyz'' GET Readyz]"

text \<open>\<open>GovernorConfigBuilder::finish\<close> yields nothing for a period or a burst of zero.\<close>

definition rate_limit :: "duration \<Rightarrow> nat \<Rightarrow> layer option" where
  "rate_limit period burst = (if period = 0 \<or> burst = 0 then None else Some (RateLimit period burst))"

text \<open>The routes as \<open>serve\<close> listens with them: the probes are merged in, then the stack grows
  outwards.\<close>

definition serve_routes :: "features \<Rightarrow> route list \<Rightarrow> route list panics" where
  "serve_routes ft app =
     do { health \<leftarrow> health_router ft;
          let app = app @ health;
          let app = (if ft_concurrency_limit ft then layered (ConcurrencyLimit MAX_CONCURRENT_REQUESTS) app else app);
          let app = (if ft_compression ft then layered Compression (layered RequestDecompression app) else app);
          let app = layered TrimTrailingSlash app;
          let app = (if ft_sensitive_headers ft then layered (SensitiveHeader ''authorization'') app else app);
          let app = (if ft_cors ft then layered PermissiveCors app else app);
          let app = (if ft_security_headers ft then layered Helmet app else app);
          let app = layered TraceHttp app;
          let app = (if ft_metrics ft then layered Prometheus (app @ [route_at METRICS_ROUTE GET Metrics]) else app);
          app \<leftarrow> (if ft_rate_limiting ft
                 then do { l \<leftarrow> rate_limit (10 ^ 9 div MAX_REQUESTS_PER_SEC) MAX_REQUESTS_PER_SEC; Some (layered l app) }
                 else Some app);
          let app = layered (SetRequestId ''x-request-id'') (layered (PropagateRequestId ''x-request-id'') app);
          Some (layered CatchPanic app) }"

section \<open>Probes\<close>

definition record_availability :: "database_health \<Rightarrow> nat panics" where
  "record_availability h = do { s \<leftarrow> status_of h; Some (if s = Ready then 1 else 0) }"

definition livez :: response where
  "livez = \<lparr>resp_status = 200, resp_content_type = None, resp_generation_id = None, resp_body = RawBody [],
            resp_served = None\<rparr>"

definition unavailable :: "string \<Rightarrow> response" where
  "unavailable database_status =
     json_response 503 (JObject
       [(''dependencies'', JObject [(''database'', JString database_status), (''sidecar'', JString ''unavailable'')]),
        (''reason'', JString ''sidecar''), (''status'', JString ''unavailable'')])"

definition ready :: "string \<Rightarrow> response" where
  "ready database_status =
     json_response 200 (JObject
       [(''dependencies'', JObject [(''database'', JString database_status), (''sidecar'', JString ''ok'')]),
        (''status'', JString ''ok'')])"

text \<open>\<open>probe\<close> is the answer of the sidecar's readiness address.\<close>

definition readyz :: "database_health \<Rightarrow> (nat, 'e) result \<Rightarrow> response panics" where
  "readyz h probe =
     do { availability \<leftarrow> record_availability h;
          s \<leftarrow> status_of h;
          Some (case probe of
              Ok status \<Rightarrow> if is_success status then ready (status_str s) else unavailable (status_str s)
            | Err _ \<Rightarrow> unavailable (status_str s)) }"

section \<open>Request ids and panics\<close>

definition make_request_id :: "(string \<Rightarrow> bytes option) \<Rightarrow> string \<Rightarrow> headers \<Rightarrow> bytes option" where
  "make_request_id parse_value uuid headers =
     (case headers ''x-request-id'' of Some existing \<Rightarrow> Some existing | None \<Rightarrow> parse_value uuid)"

datatype panic_payload = PanicString string | PanicStr string | PanicOther

definition panic_message :: "panic_payload \<Rightarrow> string" where
  "panic_message e = (case e of PanicString s \<Rightarrow> s | PanicStr s \<Rightarrow> s | PanicOther \<Rightarrow> ''unknown panic'')"

text \<open>The message is logged; the response does not depend on it.\<close>

definition handle_panic :: "panic_payload \<Rightarrow> string \<times> response" where
  "handle_panic e =
     (panic_message e, json_response 500 (JObject [(''error'', JString ''internal server error'')]))"

section \<open>What the layers and the probes amount to\<close>

lemma layered_Nil [simp]: "layered l [] = []"
  and layered_Cons [simp]: "layered l (r # rs) = r\<lparr>ro_layers := l # ro_layers r\<rparr> # layered l rs"
  and layered_append [simp]: "layered l (rs @ qs) = layered l rs @ layered l qs"
  and set_layered [simp]: "set (layered l rs) = (\<lambda>r. r\<lparr>ro_layers := l # ro_layers r\<rparr>) ` set rs"
  by (simp_all add: layered_def)

lemma route_selectors [simp]:
  "ro_method (route_at path m h) = m" "ro_path (route_at path m h) = path"
  "ro_handler (route_at path m h) = h" "ro_layers (route_at path m h) = []"
  by (simp_all add: route_at_def)

definition wrapped :: "layer list \<Rightarrow> route list \<Rightarrow> route list" where
  "wrapped ls rs = map (\<lambda>r. r\<lparr>ro_layers := ls @ ro_layers r\<rparr>) rs"

lemma wrapped_simps [simp]:
  "wrapped ls [] = []" "wrapped ls (r # rs) = r\<lparr>ro_layers := ls @ ro_layers r\<rparr> # wrapped ls rs"
  "wrapped ls (rs @ qs) = wrapped ls rs @ wrapped ls qs" "wrapped ls (wrapped ms rs) = wrapped (ls @ ms) rs"
  "map ro_path (wrapped ls rs) = map ro_path rs"
  by (simp_all add: wrapped_def comp_def)

lemma layered_wrapped: "layered l rs = wrapped [l] rs"
  by (simp add: layered_def wrapped_def)

text \<open>The layers a class of routes gets, whatever the features.\<close>

definition policy_layers :: "features \<Rightarrow> duration \<Rightarrow> nat \<Rightarrow> layer list" where
  "policy_layers ft timeout size_limit =
     (if ft_payload_limit ft then [RequestBodyLimit size_limit, DisableDefaultBodyLimit] else []) @ [Timeout 408 timeout]"

lemma standard_route_policies_eq:
  "standard_route_policies ft router =
     Some (wrapped (policy_layers ft STANDARD_REQUEST_TIMEOUT STANDARD_PAYLOAD_SIZE_BYTES) router)"
  by (simp add: standard_route_policies_def standard_payload_size_def route_policies_def policy_layers_def
      layered_wrapped Let_def)

lemma inference_route_policies_eq:
  "inference_route_policies ft router =
     Some (wrapped (policy_layers ft INFERENCE_REQUEST_TIMEOUT INFERENCE_PAYLOAD_SIZE_BYTES) router)"
  by (simp add: inference_route_policies_def inference_payload_size_def route_policies_def policy_layers_def
      layered_wrapped Let_def)

text \<open>The layers of \<open>serve\<close> around the application's routes and around the metrics route.\<close>

definition outer_layers :: "features \<Rightarrow> layer list" where
  "outer_layers ft =
     [CatchPanic, SetRequestId ''x-request-id'', PropagateRequestId ''x-request-id''] @
     (if ft_rate_limiting ft then [RateLimit (10 ^ 9 div MAX_REQUESTS_PER_SEC) MAX_REQUESTS_PER_SEC] else []) @
     (if ft_metrics ft then [Prometheus] else [])"

definition inner_layers :: "features \<Rightarrow> layer list" where
  "inner_layers ft =
     [TraceHttp] @ (if ft_security_headers ft then [Helmet] else []) @
     (if ft_cors ft then [PermissiveCors] else []) @
     (if ft_sensitive_headers ft then [SensitiveHeader ''authorization''] else []) @ [TrimTrailingSlash] @
     (if ft_compression ft then [Compression, RequestDecompression] else []) @
     (if ft_concurrency_limit ft then [ConcurrencyLimit MAX_CONCURRENT_REQUESTS] else [])"

lemma serve_routes_eq:
  assumes "health_router ft = Some health"
  shows "serve_routes ft app = Some
    (wrapped (outer_layers ft @ inner_layers ft) (app @ health) @
     (if ft_metrics ft then wrapped (outer_layers ft) [route_at METRICS_ROUTE GET Metrics] else []))"
  using assms
  by (simp add: serve_routes_def Let_def outer_layers_def inner_layers_def rate_limit_def MAX_REQUESTS_PER_SEC_def
      layered_wrapped)

text \<open>Readiness is the sidecar's: whatever the database's state, as long as the health cell holds
  one of its three values.\<close>

lemma readyz_status:
  assumes "readyz h probe = Some answer"
  shows "is_success (resp_status answer) \<longleftrightarrow> (\<exists>status. probe = Ok status \<and> is_success status)"
  using assms
  by (cases probe) (auto simp: readyz_def bind_eq_Some_conv ready_def unavailable_def json_response_def is_success_def
      split: if_splits)

lemma readyz_total: "status_of h \<noteq> None \<Longrightarrow> \<exists>answer. readyz h probe = Some answer"
  by (auto simp: readyz_def record_availability_def)

end
