(* ===== verification/Measurements.thy ===== *)
theory Measurements
  imports Routing_Profile Float64
begin

text \<open>
  Smoothed throughput and time-to-first-token measurements (\<open>src/policy/measurements.rs\<close>). The
  store behind the \<open>RwLock\<close> is passed and returned; nothing the code does under the lock can
  panic, so the lock is never poisoned.
\<close>

section \<open>Data\<close>

record model_measurements =
  throughput_tokens_per_second :: f64
  time_to_first_token_seconds :: f64

record observation =
  ob_completion_tokens :: u64
  ob_stream_duration :: duration
  ob_time_to_first_token :: duration

datatype measurement_error = ZeroStreamDuration

type_synonym measurement_store =
  "(routing_profile, (string, (string, model_measurements) bmap) bmap) bmap"

definition EWMA_ALPHA :: f64 where "EWMA_ALPHA = f64_lit (2 / 10)"

section \<open>Operations\<close>

definition ewma :: "f64 \<Rightarrow> f64 \<Rightarrow> f64" where
  "ewma previous new_sample =
     f64_add (f64_mul EWMA_ALPHA new_sample) (f64_mul (f64_sub (f64_lit 1) EWMA_ALPHA) previous)"

definition sample_of :: "observation \<Rightarrow> model_measurements" where
  "sample_of observed =
     \<lparr>throughput_tokens_per_second =
        f64_div (f64_of_nat (unat (ob_completion_tokens observed)))
          (as_secs_f64 (ob_stream_duration observed)),
      time_to_first_token_seconds = as_secs_f64 (ob_time_to_first_token observed)\<rparr>"

definition update_measurements ::
  "model_measurements option \<Rightarrow> model_measurements \<Rightarrow> model_measurements" where
  "update_measurements current new_sample =
     (case current of
        None \<Rightarrow> new_sample
      | Some c \<Rightarrow>
          \<lparr>throughput_tokens_per_second =
             ewma (throughput_tokens_per_second c) (throughput_tokens_per_second new_sample),
           time_to_first_token_seconds =
             ewma (time_to_first_token_seconds c) (time_to_first_token_seconds new_sample)\<rparr>)"

definition observe_for ::
  "measurement_store \<Rightarrow> routing_profile \<Rightarrow> string \<Rightarrow> string \<Rightarrow> observation \<Rightarrow>
   measurement_store \<times> (model_measurements, measurement_error) result" where
  "observe_for store profile provider_id canonical_slug observed =
     (if ob_stream_duration observed = 0 then (store, Err ZeroStreamDuration)
      else let by_provider = unwrap_or [] (bm_get profile store);
               by_model = unwrap_or [] (bm_get provider_id by_provider);
               current = update_measurements (bm_get canonical_slug by_model) (sample_of observed)
           in (bm_insert profile
                 (bm_insert provider_id (bm_insert canonical_slug current by_model) by_provider) store,
               Ok current))"

definition get_for ::
  "measurement_store \<Rightarrow> routing_profile \<Rightarrow> string \<Rightarrow> string \<Rightarrow> model_measurements option" where
  "get_for store profile provider_id canonical_slug =
     Option.bind (Option.bind (bm_get profile store) (bm_get provider_id)) (bm_get canonical_slug)"

definition observe ::
  "measurement_store \<Rightarrow> string \<Rightarrow> string \<Rightarrow> observation \<Rightarrow>
   measurement_store \<times> (model_measurements, measurement_error) result" where
  "observe store provider_id canonical_slug observed =
     observe_for store Production provider_id canonical_slug observed"

definition get_measurements :: "measurement_store \<Rightarrow> string \<Rightarrow> string \<Rightarrow> model_measurements option" where
  "get_measurements store provider_id canonical_slug =
     get_for store Production provider_id canonical_slug"

section \<open>What the store remembers\<close>

lemma bm_get_single [simp]: "bm_get k [(k', v)] = (if k = k' then Some v else None)"
  by (auto simp: bm_get_def)

lemma get_for_observe:
  "get_for (fst (observe_for store p i s observed)) p' i' s' =
   (if (p', i', s') = (p, i, s) \<and> ob_stream_duration observed \<noteq> 0
    then Some (update_measurements (get_for store p i s) (sample_of observed))
    else get_for store p' i' s')"
  by (cases "bm_get p store"; cases "bm_get i (unwrap_or [] (bm_get p store))")
    (auto simp: observe_for_def get_for_def Let_def bm_get_insert)

text \<open>An observation changes the measurements of exactly its own profile, provider and model:
  the first one is stored as it is and a later one is smoothed into the current values; an
  observation of a zero-length stream is rejected and stored nowhere.\<close>

lemma observe_for_updates_only_its_key:
  "get_for (fst (observe_for store p i s observed)) p' i' s' =
     (if (p', i', s') = (p, i, s) \<and> ob_stream_duration observed \<noteq> 0
      then Some (update_measurements (get_for store p i s) (sample_of observed))
      else get_for store p' i' s') \<and>
   snd (observe_for store p i s observed) =
     (if ob_stream_duration observed = 0 then Err ZeroStreamDuration
      else Ok (update_measurements (get_for store p i s) (sample_of observed)))"
  by (simp add: get_for_observe)
    (cases "bm_get p store"; cases "bm_get i (unwrap_or [] (bm_get p store))";
      simp add: observe_for_def get_for_def Let_def)

section \<open>Measurements stay finite\<close>

text \<open>The two rounded coefficients; their sum exceeds 1, but by less than a result can show.\<close>

lemma alpha_value: "EWMA_ALPHA = Finite False (3602879701896397 / 2 ^ 54)"
proof -
  have "f64_round False (1 / 5) = Finite False (of_int (round_even (1 / 5 * 2 ^ 55)) / 2 ^ 55)"
    by (rule f64_round_scaled) simp_all
  moreover have "round_even (1 / 5 * 2 ^ 55) = 7205759403792794"
  proof -
    have "\<lfloor>1 / 5 * 2 ^ 55 :: rat\<rfloor> = 7205759403792793" by (rule floor_unique) simp_all
    then show ?thesis by (simp add: round_even_def)
  qed
  ultimately show ?thesis by (simp add: EWMA_ALPHA_def f64_lit_def)
qed

lemma one_value: "f64_lit 1 = Finite False 1"
proof -
  have "f64_round False 1 = Finite False (of_int (round_even (1 * 2 ^ 52)) / 2 ^ 52)"
    by (rule f64_round_scaled) simp_all
  moreover have "round_even (1 * 2 ^ 52) = 2 ^ 52" using round_even_of_int [of "2 ^ 52"] by simp
  ultimately show ?thesis by (simp add: f64_lit_def)
qed

lemma beta_value: "f64_sub (f64_lit 1) EWMA_ALPHA = Finite False (3602879701896397 / 2 ^ 52)"
proof -
  let ?q = "14411518807585587 / 2 ^ 54 :: rat"
  have "f64_round False ?q = Finite False (of_int (round_even (?q * 2 ^ 53)) / 2 ^ 53)"
    by (rule f64_round_scaled) simp_all
  moreover have "round_even (?q * 2 ^ 53) = 7205759403792794"
  proof -
    have "\<lfloor>?q * 2 ^ 53\<rfloor> = 7205759403792793" by (rule floor_unique) simp_all
    then show ?thesis by (simp add: round_even_def)
  qed
  ultimately show ?thesis
    by (simp add: f64_sub_def one_value alpha_value Let_def)
qed

lemma round_mag_numeral:
  assumes "2 ^ k \<le> q" "q < 2 ^ Suc k" "52 \<le> k"
  shows "round_mag q = of_int (round_even (q / 2 ^ (k - 52))) * 2 ^ (k - 52)"
proof -
  have "2 powi int k \<le> q" "q < 2 powi (int k + 1)"
    using assms(1,2) by (simp_all add: power_int_add)
  from round_mag_at [OF this] have
    "round_mag q = of_int (round_even (q / 2 powi (int k - 52))) * 2 powi (int k - 52)" by simp
  moreover have "int k - 52 = int (k - 52)" using assms(3) by simp
  ultimately show ?thesis by (metis power_int_of_nat)
qed

lemma alpha_part: "round_mag (3602879701896397 / 2 ^ 54 * 2 ^ 128) = 3602879701896397 * 2 ^ 74"
  using round_mag_numeral [of 125 "3602879701896397 / 2 ^ 54 * 2 ^ 128"]
    round_even_of_int [of 7205759403792794] by simp

lemma beta_part: "round_mag (3602879701896397 / 2 ^ 52 * 2 ^ 128) = 3602879701896397 * 2 ^ 76"
  using round_mag_numeral [of 127 "3602879701896397 / 2 ^ 52 * 2 ^ 128"]
    round_even_of_int [of 7205759403792794] by simp

lemma sum_part: "round_mag (3602879701896397 * 2 ^ 74 + 3602879701896397 * 2 ^ 76) = 2 ^ 128"
proof -
  have "\<lfloor>18014398509481985 / 4 :: rat\<rfloor> = 4503599627370496" by (rule floor_unique) simp_all
  then have "round_even (18014398509481985 / 4) = 4503599627370496" by (simp add: round_even_def)
  then show ?thesis
    using round_mag_numeral [of 128 "3602879701896397 * 2 ^ 74 + 3602879701896397 * 2 ^ 76"] by simp
qed

text \<open>The bound every stored value keeps: finite, not negative and at most \<open>2 ^ 128\<close>.\<close>

lemma ewma_bounded:
  assumes "f64_nonneg_upto 128 previous" "f64_nonneg_upto 128 new_sample"
  shows "f64_nonneg_upto 128 (ewma previous new_sample)"
proof -
  obtain p where p: "previous = Finite False p" "0 \<le> p" "p \<le> 2 powi 128"
    using assms(1) by (rule f64_nonneg_uptoE)
  obtain q where q: "new_sample = Finite False q" "0 \<le> q" "q \<le> 2 powi 128"
    using assms(2) by (rule f64_nonneg_uptoE)
  define a where "a = round_mag (3602879701896397 / 2 ^ 54 * q)"
  define b where "b = round_mag (3602879701896397 / 2 ^ 52 * p)"
  have a: "f64_mul EWMA_ALPHA new_sample = Finite False a" "0 \<le> a" "a \<le> 3602879701896397 * 2 ^ 74"
  proof -
    have le: "3602879701896397 / 2 ^ 54 * q \<le> 3602879701896397 / 2 ^ 54 * 2 ^ 128" using q by simp
    with round_mag_mono [OF _ le] q show "a \<le> 3602879701896397 * 2 ^ 74"
      unfolding alpha_part a_def by simp
    show "0 \<le> a" unfolding a_def using q by (intro round_mag_nonneg) simp
    have "3602879701896397 / 2 ^ 54 * q \<le> 2 powi 128" using le by simp
    from f64_round_upto(1) [OF _ this] q
    show "f64_mul EWMA_ALPHA new_sample = Finite False a" by (simp add: a_def alpha_value)
  qed
  have b: "f64_mul (f64_sub (f64_lit 1) EWMA_ALPHA) previous = Finite False b" "0 \<le> b"
    "b \<le> 3602879701896397 * 2 ^ 76"
  proof -
    have le: "3602879701896397 / 2 ^ 52 * p \<le> 3602879701896397 / 2 ^ 52 * 2 ^ 128" using p by simp
    with round_mag_mono [OF _ le] p show "b \<le> 3602879701896397 * 2 ^ 76"
      unfolding beta_part b_def by simp
    show "0 \<le> b" unfolding b_def using p by (intro round_mag_nonneg) simp
    have "3602879701896397 / 2 ^ 52 * p \<le> 2 powi 128" using le by simp
    from f64_round_upto(1) [OF _ this] p
    show "f64_mul (f64_sub (f64_lit 1) EWMA_ALPHA) previous = Finite False b"
      by (simp add: b_def beta_value)
  qed
  have "round_mag (a + b) \<le> 2 ^ 128"
    using round_mag_mono [of "a + b" "3602879701896397 * 2 ^ 74 + 3602879701896397 * 2 ^ 76"] a b
    unfolding sum_part by linarith
  moreover have "a + b \<le> 2 powi 129" using a(3) b(3) by simp
  then have "f64_round False (a + b) = Finite False (round_mag (a + b))"
    using f64_round_upto(1) [of "a + b" 129] a(2) b(2) by simp
  ultimately show ?thesis
    using a b round_mag_nonneg [of "a + b"]
    by (auto simp: ewma_def a(1) b(1) Let_def f64_nonneg_upto_def)
qed

text \<open>The seconds of a \<open>Duration\<close>: its whole seconds are a 64-bit number.\<close>

definition duration_ok :: "duration \<Rightarrow> bool" where
  "duration_ok d \<longleftrightarrow> d div 10 ^ 9 < 2 ^ 64"

lemma f64_of_nat_bounds:
  assumes "n \<le> 2 ^ k" "k \<le> 1023"
  obtains q where "f64_of_nat n = Finite False q" "0 \<le> q" "q \<le> 2 powi int k" "0 < n \<Longrightarrow> 1 \<le> q"
proof -
  have "(of_nat n :: rat) \<le> of_nat (2 ^ k)" using assms(1) by (simp only: of_nat_le_iff)
  then have le: "of_nat n \<le> (2::rat) powi int k" by simp
  have "1 \<le> round_mag (of_nat n)" if "0 < n"
    using round_mag_ge_powi [of 0 "of_nat n"] that by simp
  with f64_round_upto(1) [OF _ le, of False] f64_round_upto(2,3) [OF _ le] assms(2) that
  show thesis by (simp add: f64_of_nat_def)
qed

lemma subsecond_bounds:
  assumes "n < 10 ^ 9"
  obtains q where "f64_div (f64_of_nat n) (f64_of_nat (10 ^ 9)) = Finite False q" "0 \<le> q" "q \<le> 1"
    "0 < n \<Longrightarrow> 2 powi (- 30) \<le> q"
proof -
  have "n \<le> 2 ^ 30" using assms by simp
  from f64_of_nat_bounds [OF this] obtain a where
    a: "f64_of_nat n = Finite False a" "0 \<le> a" "0 < n \<Longrightarrow> 1 \<le> a" by auto
  have exact: "f64_of_nat (10 ^ 9) = Finite False (10 ^ 9)"
  proof -
    have "f64_round False (10 ^ 9) = Finite False (of_int (round_even (10 ^ 9 * 2 ^ 23)) / 2 ^ 23)"
      by (rule f64_round_scaled) simp_all
    then show ?thesis
      using round_even_of_int [of "10 ^ 9 * 2 ^ 23"] by (simp add: f64_of_nat_def)
  qed
  have "a \<le> 10 ^ 9"
    using a(1) exact round_mag_mono [of "of_nat n" "10 ^ 9"] f64_round_upto(1) [of "10 ^ 9" 30 False]
      f64_round_upto(1) [of "of_nat n" 30 False] assms
    by (auto simp: f64_of_nat_def)
  then have le: "a / 10 ^ 9 \<le> 2 powi 0" by simp
  have "2 powi (- 30) \<le> round_mag (a / 10 ^ 9)" if "0 < n"
    using round_mag_ge_powi [of "- 30" "a / 10 ^ 9"] a(3) [OF that] by (simp add: power_int_minus)
  with f64_round_upto(1) [OF _ le, of False] f64_round_upto(2,3) [OF _ le] a that
  show thesis by (simp add: a(1) exact [simplified])
qed

lemma as_secs_bounds:
  assumes "duration_ok d"
  obtains q where "as_secs_f64 d = Finite False q" "0 \<le> q" "q \<le> 2 powi 65"
    "0 < d \<Longrightarrow> 2 powi (- 30) \<le> q"
proof -
  have "d div 10 ^ 9 \<le> 2 ^ 64" using assms by (simp add: duration_ok_def)
  from f64_of_nat_bounds [OF this] obtain a where
    a: "f64_of_nat (d div 10 ^ 9) = Finite False a" "0 \<le> a" "a \<le> 2 powi 64"
      "0 < d div 10 ^ 9 \<Longrightarrow> 1 \<le> a" by auto
  have "d mod 10 ^ 9 < 10 ^ 9" by simp
  from subsecond_bounds [OF this] obtain b where
    b: "f64_div (f64_of_nat (d mod 10 ^ 9)) (f64_of_nat (10 ^ 9)) = Finite False b" "0 \<le> b" "b \<le> 1"
      "0 < d mod 10 ^ 9 \<Longrightarrow> 2 powi (- 30) \<le> b" by auto
  have le: "a + b \<le> 2 powi 65" using a(3) b(3) by simp
  have "2 powi (- 30) \<le> a + b" if "0 < d"
  proof (cases "0 < d div 10 ^ 9")
    case True
    have "(2::rat) powi (- 30) \<le> 1" by (simp add: power_int_minus)
    with a(4) [OF True] b(2) show ?thesis by linarith
  next
    case False
    then have "0 < d mod 10 ^ 9" using that by (simp add: div_eq_0_iff)
    with a(2) b(4) show ?thesis by linarith
  qed
  then have low: "2 powi (- 30) \<le> round_mag (a + b)" if "0 < d"
    using round_mag_ge_powi [of "- 30" "a + b"] that by simp
  have zero: "a + b = 0 \<Longrightarrow> \<not> 0 < d"
    using \<open>0 < d \<Longrightarrow> 2 powi (- 30) \<le> a + b\<close> powi_pos [of "- 30"] by force
  show thesis
  proof (cases "a + b = 0")
    case True
    then show thesis
      using that [of 0] zero a b by (simp add: as_secs_f64_def Let_def)
  next
    case False
    then have "as_secs_f64 d = Finite False (round_mag (a + b))"
      using f64_round_upto(1) [OF _ le, of False] a b by (simp add: as_secs_f64_def Let_def)
    then show thesis
      using that low f64_round_upto(2,3) [OF _ le] a b by simp
  qed
qed

definition measurements_ok :: "model_measurements \<Rightarrow> bool" where
  "measurements_ok m \<longleftrightarrow>
     f64_nonneg_upto 128 (throughput_tokens_per_second m) \<and>
     f64_nonneg_upto 128 (time_to_first_token_seconds m)"

lemma sample_ok:
  assumes "duration_ok (ob_stream_duration ob)" "duration_ok (ob_time_to_first_token ob)"
    and "ob_stream_duration ob \<noteq> 0"
  shows "measurements_ok (sample_of ob)"
proof -
  obtain t where t: "as_secs_f64 (ob_time_to_first_token ob) = Finite False t" "0 \<le> t" "t \<le> 2 powi 65"
    by (rule as_secs_bounds [OF assms(2)])
  obtain d where d: "as_secs_f64 (ob_stream_duration ob) = Finite False d" "2 powi (- 30) \<le> d"
    by (rule as_secs_bounds [OF assms(1)]) (use assms(3) in auto)
  have "unat (ob_completion_tokens ob) \<le> 2 ^ 64"
    using unat64 [of "ob_completion_tokens ob"] by simp
  from f64_of_nat_bounds [OF this] obtain n where
    n: "f64_of_nat (unat (ob_completion_tokens ob)) = Finite False n" "0 \<le> n" "n \<le> 2 powi 64" by auto
  have pos: "0 < d" using d(2) powi_pos [of "- 30"] by linarith
  have "n \<le> 2 powi 94 * d"
  proof -
    have "(2::rat) powi 64 = 2 powi 94 * 2 powi (- 30)" by (simp add: power_int_minus)
    also have "\<dots> \<le> 2 powi 94 * d" using d(2) by (intro mult_left_mono) auto
    finally show ?thesis using n(3) by linarith
  qed
  then have "n / d \<le> 2 powi 94" using pos by (simp add: pos_divide_le_eq)
  then have "f64_nonneg_upto 94 (f64_round False (n / d))"
    using n pos by (intro f64_round_nonneg_upto) auto
  moreover have "f64_nonneg_upto 65 (Finite False t)" using t by (simp add: f64_nonneg_upto_def)
  ultimately show ?thesis
    using pos by (auto simp: measurements_ok_def sample_of_def t(1) d(1) n(1)
        intro: f64_nonneg_upto_mono)
qed

definition store_ok :: "measurement_store \<Rightarrow> bool" where
  "store_ok store \<longleftrightarrow> (\<forall>p i s m. get_for store p i s = Some m \<longrightarrow> measurements_ok m)"

lemma store_ok_Nil: "store_ok []"
  by (simp add: store_ok_def get_for_def)

lemma update_measurements_ok:
  assumes "measurements_ok new_sample" "is_none_or measurements_ok current"
  shows "measurements_ok (update_measurements current new_sample)"
  using assms by (cases current) (auto simp: update_measurements_def measurements_ok_def intro: ewma_bounded)

lemma observe_for_store_ok:
  assumes "store_ok store" "duration_ok (ob_stream_duration ob)" "duration_ok (ob_time_to_first_token ob)"
  shows "store_ok (fst (observe_for store p i s ob))"
proof (cases "ob_stream_duration ob = 0")
  case True
  then show ?thesis using assms(1) by (simp add: observe_for_def)
next
  case False
  have "is_none_or measurements_ok (get_for store p i s)"
    using assms(1) by (cases "get_for store p i s") (auto simp: store_ok_def)
  with sample_ok [OF assms(2,3) False]
  have "measurements_ok (update_measurements (get_for store p i s) (sample_of ob))"
    by (rule update_measurements_ok)
  with assms(1) show ?thesis by (auto simp: store_ok_def get_for_observe split: if_splits)
qed

text \<open>C32: Whatever 64-bit durations and token counts are observed, in any order and however many
  times, every stored throughput and latency is a finite, non-negative number of at most
  \<open>2 ^ 128\<close>: rounding errors of the smoothing never accumulate, so a candidate built from a
  measurement is always valid.\<close>

theorem measurements_stay_finite:
  assumes "\<forall>(p, i, s, ob) \<in> set observations.
      duration_ok (ob_stream_duration ob) \<and> duration_ok (ob_time_to_first_token ob)"
    and "get_for (fold (\<lambda>(p, i, s, ob) store. fst (observe_for store p i s ob)) observations [])
           profile provider_id slug = Some m"
  shows "f64_is_finite (throughput_tokens_per_second m) \<and>
    \<not> f64_lt (throughput_tokens_per_second m) (f64_lit 0) \<and>
    f64_is_finite (time_to_first_token_seconds m) \<and>
    \<not> f64_lt (time_to_first_token_seconds m) (f64_lit 0)"
proof -
  have "store_ok store \<Longrightarrow> store_ok
      (fold (\<lambda>(p, i, s, ob) store. fst (observe_for store p i s ob)) observations store)" for store
    using assms(1)
    by (induction observations arbitrary: store) (auto intro: observe_for_store_ok)
  from this [OF store_ok_Nil] assms(2) have "measurements_ok m" by (auto simp: store_ok_def)
  then show ?thesis using f64_nonneg_upto_finite by (auto simp: measurements_ok_def)
qed

theorem measurements_stay_finite_witness:
  "\<exists>m. get_for (fst (observe_for [] Beta ''p'' ''m''
      \<lparr>ob_completion_tokens = 100, ob_stream_duration = 10 ^ 9, ob_time_to_first_token = 5\<rparr>))
      Beta ''p'' ''m'' = Some m \<and> f64_is_finite (throughput_tokens_per_second m)"
proof -
  let ?ob = "\<lparr>ob_completion_tokens = 100, ob_stream_duration = 10 ^ 9, ob_time_to_first_token = 5\<rparr>"
  have "get_for (fold (\<lambda>(p, i, s, ob) store. fst (observe_for store p i s ob))
      [(Beta, ''p'', ''m'', ?ob)] []) Beta ''p'' ''m'' = Some (sample_of ?ob)"
    by (simp add: get_for_observe update_measurements_def) (simp add: get_for_def)
  from measurements_stay_finite [OF _ this] show ?thesis
    by (simp add: duration_ok_def get_for_observe update_measurements_def) (simp add: get_for_def)
qed

end
