(* ===== verification/Preference.thy ===== *)
theory Preference
  imports Routing_Profile
begin

text \<open>
  Routing preferences of a completion request (\<open>src/policy/preference.rs\<close>): the model suffixes
  \<open>:nitro\<close> and \<open>:floor\<close>, the explicit \<open>provider.sort\<close> and the rewritten \<open>model\<close> field. The
  mutated request is returned; on an error the code has not changed it.
\<close>

datatype preference = Default | Balanced | Price | Throughput | Latency

record request_preference =
  canonical_model :: string
  rp_preference :: preference

datatype preference_error = InvalidModel | InvalidSort

fun preference_error_text :: "preference_error \<Rightarrow> string" where
  "preference_error_text InvalidModel = ''model must be a string''"
| "preference_error_text InvalidSort = ''provider.sort must be one of: price, throughput, latency''"

definition preference_error_response :: "preference_error \<Rightarrow> response" where
  "preference_error_response e = json_response 400 (error_message (preference_error_text e))"

definition NITRO_SUFFIX :: string where "NITRO_SUFFIX = '':nitro''"
definition FLOOR_SUFFIX :: string where "FLOOR_SUFFIX = '':floor''"

definition parse_sort :: "json \<Rightarrow> (preference, preference_error) result" where
  "parse_sort requested_sort =
     (case as_str requested_sort of
        Some s \<Rightarrow>
          if s = ''price'' then Ok Price
          else if s = ''throughput'' then Ok Throughput
          else if s = ''latency'' then Ok Latency
          else Err InvalidSort
      | None \<Rightarrow> Err InvalidSort)"

definition split_suffix :: "string \<Rightarrow> string \<times> preference" where
  "split_suffix model =
     (case strip_suffix NITRO_SUFFIX model of
        Some m \<Rightarrow> (m, Throughput)
      | None \<Rightarrow>
          (case strip_suffix FLOOR_SUFFIX model of
             Some m \<Rightarrow> (m, Price)
           | None \<Rightarrow> (model, Default)))"

text \<open>\<open>pointer("/provider/sort")\<close>.\<close>

definition sort_pointer :: "json \<Rightarrow> json option" where
  "sort_pointer request = Option.bind (json_get ''provider'' request) (json_get ''sort'')"

definition parse_request ::
  "json \<Rightarrow> (json \<times> request_preference, preference_error) result panics" where
  "parse_request request =
     (case Option.bind (json_get ''model'' request) as_str of
        None \<Rightarrow> Some (Err InvalidModel)
      | Some model \<Rightarrow>
          let (canonical, suffix_preference) = split_suffix model in
          (case (case sort_pointer request of
                   None \<Rightarrow> Ok None
                 | Some requested_sort \<Rightarrow> (case parse_sort requested_sort of Ok p \<Rightarrow> Ok (Some p) | Err e \<Rightarrow> Err e)) of
             Err e \<Rightarrow> Some (Err e)
           | Ok explicit_preference \<Rightarrow>
               do { request' \<leftarrow> json_set ''model'' (JString canonical) request;
                    Some (Ok (request', \<lparr>canonical_model = canonical,
                      rp_preference = unwrap_or suffix_preference explicit_preference\<rparr>)) }))"

section \<open>What a request asks for\<close>

text \<open>The suffix decides unless the request sorts explicitly.\<close>

definition wanted :: "string \<Rightarrow> json option \<Rightarrow> preference option" where
  "wanted model requested_sort =
     (case requested_sort of
        Some v \<Rightarrow> (if v = JString ''price'' then Some Price
                   else if v = JString ''throughput'' then Some Throughput
                   else if v = JString ''latency'' then Some Latency else None)
      | None \<Rightarrow> Some (if ends_with '':nitro'' model then Throughput
                     else if ends_with '':floor'' model then Price else Default))"

definition base_model :: "string \<Rightarrow> string" where
  "base_model model =
     (if ends_with '':nitro'' model \<or> ends_with '':floor'' model
      then take (length model - 6) model else model)"

lemma strip_suffix_cases:
  "strip_suffix s t = (if ends_with s t then Some (take (length t - length s) t) else None)"
proof (cases "strip_suffix s t")
  case (Some r)
  then have "t = r @ s" by (simp only: strip_suffix_Some_iff)
  with Some show ?thesis by (simp add: ends_with_def)
qed (simp add: ends_with_def)

lemma split_suffix_eq:
  "split_suffix model = (base_model model,
     if ends_with '':nitro'' model then Throughput
     else if ends_with '':floor'' model then Price else Default)"
  by (simp add: split_suffix_def base_model_def strip_suffix_cases NITRO_SUFFIX_def FLOOR_SUFFIX_def
      eval_nat_numeral)

lemma parse_sort_wanted: "parse_sort requested_sort = (case wanted model (Some requested_sort) of Some p \<Rightarrow> Ok p | None \<Rightarrow> Err InvalidSort)"
  by (cases requested_sort) (auto simp: parse_sort_def wanted_def)

text \<open>Parsing a request never panics: a missing or non-string model and an unknown explicit
  sort are client errors; otherwise only the \<open>model\<close> field changes, to the model without its
  \<open>:nitro\<close> or \<open>:floor\<close> suffix, and an explicit \<open>provider.sort\<close> overrides the suffix.\<close>

lemma parse_request_decision:
  "parse_request request =
    (case json_get ''model'' request of
       Some (JString model) \<Rightarrow>
         (case wanted model (sort_pointer request) of
            Some p \<Rightarrow> Some (Ok (JObject (bm_insert ''model'' (JString (base_model model))
                        (unwrap_or [] (as_object request))),
                        \<lparr>canonical_model = base_model model, rp_preference = p\<rparr>))
          | None \<Rightarrow> Some (Err InvalidSort))
     | _ \<Rightarrow> Some (Err InvalidModel))"
proof (cases "json_get ''model'' request")
  case (Some v)
  then obtain entries where request: "request = JObject entries" by (rule json_get_SomeE)
  show ?thesis
  proof (cases v)
    case (JString model)
    show ?thesis
    proof (cases "sort_pointer request")
      case None
      with Some JString request show ?thesis
        by (simp add: parse_request_def split_suffix_eq wanted_def)
    next
      case sort: (Some x)
      show ?thesis
        using Some JString request sort parse_sort_wanted [of x model]
        by (cases "wanted model (Some x)") (simp_all add: parse_request_def split_suffix_eq)
    qed
  qed (use Some in \<open>simp_all add: parse_request_def\<close>)
qed (simp add: parse_request_def)

end
