(* ===== verification/Decimal_Api.thy ===== *)
theory Decimal_Api
  imports Float64
begin

text \<open>
  The interface of the \<open>rust_decimal\<close> crate. Its code is not in this repository, so its
  operations are the fields of a record that every definition computing with decimals takes
  as an argument. \<open>decimal_laws\<close> states the documented behaviour the sources rely on, through
  the number \<open>d_val\<close> a decimal denotes. An operator that panics on overflow (\<open>+\<close>, \<open>*\<close>, \<open>/\<close>)
  is the checked operation, whose \<open>None\<close> is the panic.

  \<open>bounded_decimal\<close> at the end is a concrete instance of the record that satisfies the laws;
  the witnesses use it.
\<close>

record 'd decimal_ops =
  d_val :: "'d \<Rightarrow> rat"
  d_zero :: 'd
  d_one :: 'd
  d_cmp :: "'d \<Rightarrow> 'd \<Rightarrow> ordering"
  d_of_nat :: "nat \<Rightarrow> 'd"
  d_checked_add :: "'d \<Rightarrow> 'd \<Rightarrow> 'd option"
  d_checked_mul :: "'d \<Rightarrow> 'd \<Rightarrow> 'd option"
  d_checked_div :: "'d \<Rightarrow> 'd \<Rightarrow> 'd option"
  d_is_zero :: "'d \<Rightarrow> bool"
  d_is_sign_negative :: "'d \<Rightarrow> bool"
  d_ceil :: "'d \<Rightarrow> 'd"
  d_round_dp_away :: "nat \<Rightarrow> 'd \<Rightarrow> 'd"
  d_rescale :: "nat \<Rightarrow> 'd \<Rightarrow> 'd"
  d_normalize :: "'d \<Rightarrow> 'd"
  d_to_usize :: "'d \<Rightarrow> nat option"
  d_to_f64 :: "'d \<Rightarrow> f64 option"
  d_to_string :: "'d \<Rightarrow> string"
  d_from_str :: "string \<Rightarrow> 'd option"
  d_from_scientific :: "string \<Rightarrow> 'd option"

definition d_lt :: "'d decimal_ops \<Rightarrow> 'd \<Rightarrow> 'd \<Rightarrow> bool" where
  "d_lt D a b \<longleftrightarrow> d_cmp D a b = Less"

definition d_le :: "'d decimal_ops \<Rightarrow> 'd \<Rightarrow> 'd \<Rightarrow> bool" where
  "d_le D a b \<longleftrightarrow> d_cmp D a b \<noteq> Greater"

section \<open>Documented behaviour\<close>

text \<open>The numbers a decimal can hold: a 96-bit integer over a power of ten up to \<open>10^28\<close>.\<close>

definition dec_representable :: "rat \<Rightarrow> bool" where
  "dec_representable q \<longleftrightarrow> (\<exists>m e. \<bar>m\<bar> < 2 ^ 96 \<and> e \<le> 28 \<and> q = of_int m / 10 ^ e)"

definition dec_max :: rat where "dec_max = 2 ^ 96 - 1"

text \<open>\<open>RoundingStrategy::MidpointAwayFromZero\<close> to \<open>n\<close> decimal places.\<close>

definition round_away :: "nat \<Rightarrow> rat \<Rightarrow> rat" where
  "round_away n q = sgn q * of_int \<lfloor>\<bar>q\<bar> * 10 ^ n + 1 / 2\<rfloor> / 10 ^ n"

text \<open>An operation with exact result \<open>r\<close>: it overflows only beyond the largest decimal, and its
  rounding never passes a number a decimal can hold. So it is exact when a decimal can hold
  \<open>r\<close>, and rounding never changes a sign.\<close>

definition dec_result :: "'d decimal_ops \<Rightarrow> rat \<Rightarrow> 'd option \<Rightarrow> bool" where
  "dec_result D r x \<longleftrightarrow>
     (\<bar>r\<bar> \<le> dec_max \<longrightarrow> x \<noteq> None) \<and>
     (\<forall>c. x = Some c \<longrightarrow>
        (\<forall>b. dec_representable b \<longrightarrow>
           (r \<le> b \<longrightarrow> d_val D c \<le> b) \<and> (b \<le> r \<longrightarrow> b \<le> d_val D c)))"

definition decimal_laws :: "'d decimal_ops \<Rightarrow> bool" where
  "decimal_laws D \<longleftrightarrow>
     (\<forall>a b. d_cmp D a b = cmp_of (d_val D a) (d_val D b)) \<and>
     d_val D (d_zero D) = 0 \<and> d_val D (d_one D) = 1 \<and>
     (\<forall>n < 2 ^ 64. d_val D (d_of_nat D n) = of_nat n) \<and>
     (\<forall>a b. dec_result D (d_val D a + d_val D b) (d_checked_add D a b)) \<and>
     (\<forall>a b. dec_result D (d_val D a * d_val D b) (d_checked_mul D a b)) \<and>
     (\<forall>a b. d_val D b \<noteq> 0 \<longrightarrow> dec_result D (d_val D a / d_val D b) (d_checked_div D a b)) \<and>
     (\<forall>a. d_is_zero D a \<longleftrightarrow> d_val D a = 0) \<and>
     (\<forall>a. (d_val D a < 0 \<longrightarrow> d_is_sign_negative D a) \<and>
          (0 < d_val D a \<longrightarrow> \<not> d_is_sign_negative D a)) \<and>
     (\<forall>a. d_val D (d_ceil D a) = of_int \<lceil>d_val D a\<rceil>) \<and>
     (\<forall>n a. d_val D (d_round_dp_away D n a) = round_away n (d_val D a)) \<and>
     (\<forall>n a. (\<exists>m. d_val D a = of_int m / 10 ^ n) \<longrightarrow> d_val D (d_rescale D n a) = d_val D a) \<and>
     (\<forall>a. d_val D (d_normalize D a) = d_val D a) \<and>
     (\<forall>a. 0 \<le> d_val D a \<longrightarrow> d_val D a < 2 ^ 64 \<longrightarrow>
          d_to_usize D a = Some (nat \<lfloor>d_val D a\<rfloor>)) \<and>
     (\<forall>a. 0 \<le> d_val D a \<longrightarrow> d_val D a \<le> 1 \<longrightarrow>
          (\<exists>x. d_to_f64 D a = Some x \<and> f64_nonneg_upto 0 x))"

lemma decimal_lawsD:
  assumes "decimal_laws D"
  shows d_cmp_val: "d_cmp D a b = cmp_of (d_val D a) (d_val D b)"
    and d_zero_val: "d_val D (d_zero D) = 0"
    and d_one_val: "d_val D (d_one D) = 1"
    and d_of_nat_val: "n < 2 ^ 64 \<Longrightarrow> d_val D (d_of_nat D n) = of_nat n"
    and d_add_result: "dec_result D (d_val D a + d_val D b) (d_checked_add D a b)"
    and d_mul_result: "dec_result D (d_val D a * d_val D b) (d_checked_mul D a b)"
    and d_div_result: "d_val D b \<noteq> 0 \<Longrightarrow> dec_result D (d_val D a / d_val D b) (d_checked_div D a b)"
    and d_is_zero_val: "d_is_zero D a \<longleftrightarrow> d_val D a = 0"
    and d_sign_negative_val: "d_val D a < 0 \<Longrightarrow> d_is_sign_negative D a"
    and d_sign_positive_val: "0 < d_val D a \<Longrightarrow> \<not> d_is_sign_negative D a"
    and d_ceil_val: "d_val D (d_ceil D a) = of_int \<lceil>d_val D a\<rceil>"
    and d_round_val: "d_val D (d_round_dp_away D k a) = round_away k (d_val D a)"
    and d_rescale_val: "d_val D a = of_int m / 10 ^ k \<Longrightarrow> d_val D (d_rescale D k a) = d_val D a"
    and d_normalize_val: "d_val D (d_normalize D a) = d_val D a"
    and d_to_usize_val:
      "0 \<le> d_val D a \<Longrightarrow> d_val D a < 2 ^ 64 \<Longrightarrow> d_to_usize D a = Some (nat \<lfloor>d_val D a\<rfloor>)"
    and d_to_f64_val:
      "0 \<le> d_val D a \<Longrightarrow> d_val D a \<le> 1 \<Longrightarrow> \<exists>x. d_to_f64 D a = Some x \<and> f64_nonneg_upto 0 x"
  using assms unfolding decimal_laws_def by blast+

lemma d_lt_val: "decimal_laws D \<Longrightarrow> d_lt D a b \<longleftrightarrow> d_val D a < d_val D b"
  by (simp add: d_lt_def d_cmp_val)

lemma d_le_val: "decimal_laws D \<Longrightarrow> d_le D a b \<longleftrightarrow> d_val D a \<le> d_val D b"
  by (auto simp: d_le_def d_cmp_val not_less)

lemma d_cmp_order:
  assumes "decimal_laws D"
  shows "cmp_order (d_cmp D)"
proof -
  have "d_cmp D = (\<lambda>a b. cmp_of (d_val D a) (d_val D b))"
    by (simp add: fun_eq_iff d_cmp_val [OF assms])
  then show ?thesis using cmp_order_key [of "d_val D"] by simp
qed

lemma dec_result_exact:
  "dec_result D r x \<Longrightarrow> dec_representable r \<Longrightarrow> \<bar>r\<bar> \<le> dec_max \<Longrightarrow> \<exists>c. x = Some c \<and> d_val D c = r"
  by (cases x) (auto simp: dec_result_def intro: order_antisym)

lemma dec_representable_int: "\<bar>n\<bar> < 2 ^ 96 \<Longrightarrow> dec_representable (of_int n)"
  unfolding dec_representable_def by (rule exI [of _ n], rule exI [of _ 0]) simp

lemma dec_result_le:
  "dec_result D r (Some c) \<Longrightarrow> dec_representable b \<Longrightarrow> r \<le> b \<Longrightarrow> d_val D c \<le> b"
  by (simp add: dec_result_def)

lemma dec_result_ge:
  "dec_result D r (Some c) \<Longrightarrow> dec_representable b \<Longrightarrow> b \<le> r \<Longrightarrow> b \<le> d_val D c"
  by (simp add: dec_result_def)

lemma dec_result_total: "dec_result D r x \<Longrightarrow> \<bar>r\<bar> \<le> dec_max \<Longrightarrow> \<exists>c. x = Some c"
  by (cases x) (auto simp: dec_result_def)

lemma dec_result_nonneg: "dec_result D r (Some c) \<Longrightarrow> 0 \<le> r \<Longrightarrow> 0 \<le> d_val D c"
  using dec_result_ge [of D r c 0] dec_representable_int [of 0] by simp

section \<open>Rounding and representable numbers\<close>

lemma dec_representable_le: "dec_representable r \<Longrightarrow> \<bar>r\<bar> \<le> dec_max"
proof -
  assume "dec_representable r"
  then obtain m e where m: "\<bar>m\<bar> < 2 ^ 96" and r: "r = of_int m / 10 ^ e"
    by (auto simp: dec_representable_def)
  have "\<bar>of_int m :: rat\<bar> = of_int \<bar>m\<bar>" by simp
  also have "\<dots> \<le> of_int (2 ^ 96 - 1)" using m by (simp only: of_int_le_iff)
  finally have "\<bar>of_int m :: rat\<bar> \<le> dec_max" by (simp add: dec_max_def)
  moreover have "\<bar>r\<bar> \<le> \<bar>of_int m\<bar>"
    using one_le_power [of "10::rat" e] by (simp add: r abs_divide divide_le_eq mult_le_cancel_left1)
  ultimately show ?thesis by linarith
qed

lemma dec_result_representable:
  "dec_result D r x \<Longrightarrow> dec_representable r \<Longrightarrow> \<exists>c. x = Some c \<and> d_val D c = r"
  by (rule dec_result_exact) (auto intro: dec_representable_le)

lemma dec_representableI:
  "q = of_int m / 10 ^ e \<Longrightarrow> \<bar>m\<bar> < 2 ^ 96 \<Longrightarrow> e \<le> 28 \<Longrightarrow> dec_representable q"
  by (auto simp: dec_representable_def)

lemma round_away_nonneg: "0 \<le> q \<Longrightarrow> 0 \<le> round_away n q"
  by (auto simp: round_away_def sgn_if intro!: divide_nonneg_pos)

lemma round_away_scaled: "\<exists>m. round_away n q = of_int m / 10 ^ n"
  by (rule exI [of _ "(if q = 0 then 0 else if 0 < q then 1 else - 1) * \<lfloor>\<bar>q\<bar> * 10 ^ n + 1 / 2\<rfloor>"])
    (simp add: round_away_def sgn_if)

lemma round_away_error: "\<bar>round_away n q - q\<bar> \<le> 1 / (2 * 10 ^ n)"
proof -
  have p: "(0::rat) < 10 ^ n" by simp
  define f where "f = \<lfloor>\<bar>q\<bar> * 10 ^ n + 1 / 2\<rfloor>"
  have f: "of_int f \<le> \<bar>q\<bar> * 10 ^ n + 1 / 2" "\<bar>q\<bar> * 10 ^ n - 1 / 2 \<le> of_int f"
    unfolding f_def by linarith+
  have "\<bar>of_int f - \<bar>q\<bar> * 10 ^ n\<bar> \<le> 1 / 2"
    using f by (simp only: abs_le_iff) linarith
  then have "\<bar>of_int f - \<bar>q\<bar> * 10 ^ n\<bar> / 10 ^ n \<le> 1 / 2 / 10 ^ n"
    using p by (intro divide_right_mono) auto
  moreover have "\<bar>of_int f / 10 ^ n - \<bar>q\<bar>\<bar> = \<bar>of_int f - \<bar>q\<bar> * 10 ^ n\<bar> / 10 ^ n"
  proof -
    have e: "of_int f / 10 ^ n - \<bar>q\<bar> = (of_int f - \<bar>q\<bar> * 10 ^ n) / 10 ^ n"
      by (simp add: diff_divide_distrib)
    show ?thesis unfolding e by (simp add: abs_divide)
  qed
  ultimately have "\<bar>of_int f / 10 ^ n - \<bar>q\<bar>\<bar> \<le> 1 / (2 * 10 ^ n)" by simp
  moreover have "round_away n q - q = sgn q * (of_int f / 10 ^ n - \<bar>q\<bar>)"
    by (simp add: round_away_def f_def algebra_simps sgn_if abs_if)
  ultimately show ?thesis
    by (cases "q = 0") (auto simp: abs_mult sgn_if round_away_def)
qed

lemma round_away_exact:
  assumes "q = of_int m / 10 ^ n"
  shows "round_away n q = q"
proof -
  have "\<bar>q\<bar> * 10 ^ n = of_int \<bar>m\<bar>" by (simp add: assms abs_divide)
  then have "\<lfloor>\<bar>q\<bar> * 10 ^ n + 1 / 2\<rfloor> = \<bar>m\<bar>"
    by (intro floor_unique) (simp_all del: of_int_abs)
  then have "round_away n q = sgn q * (of_int \<bar>m\<bar> / 10 ^ n)" by (simp add: round_away_def)
  also have "\<dots> = q" by (simp add: assms sgn_if abs_if zero_less_divide_iff)
  finally show ?thesis .
qed

section \<open>A concrete instance\<close>

text \<open>Exact rationals with the overflow bound of the crate.\<close>

definition bounded :: "rat \<Rightarrow> rat option" where
  "bounded q = (if \<bar>q\<bar> \<le> dec_max then Some q else None)"

definition bounded_decimal :: "rat decimal_ops" where
  "bounded_decimal =
     \<lparr>d_val = (\<lambda>q. q), d_zero = 0, d_one = 1, d_cmp = cmp_of, d_of_nat = of_nat,
      d_checked_add = (\<lambda>a b. bounded (a + b)), d_checked_mul = (\<lambda>a b. bounded (a * b)),
      d_checked_div = (\<lambda>a b. if b = 0 then None else bounded (a / b)),
      d_is_zero = (\<lambda>a. a = 0), d_is_sign_negative = (\<lambda>a. a < 0),
      d_ceil = (\<lambda>a. of_int \<lceil>a\<rceil>), d_round_dp_away = round_away, d_rescale = (\<lambda>_ a. a),
      d_normalize = (\<lambda>a. a),
      d_to_usize = (\<lambda>a. if 0 \<le> a \<and> a < 2 ^ 64 then Some (nat \<lfloor>a\<rfloor>) else None),
      d_to_f64 = (\<lambda>a. Some (f64_lit a)),
      d_to_string = (\<lambda>_. ''0''), d_from_str = (\<lambda>s. if s = ''0'' then Some 0 else None),
      d_from_scientific = (\<lambda>_. None)\<rparr>"

lemma bounded_result: "dec_result bounded_decimal r (bounded r)"
  by (auto simp: dec_result_def bounded_def bounded_decimal_def)

lemma bounded_decimal_laws: "decimal_laws bounded_decimal"
proof -
  have f: "0 \<le> a \<Longrightarrow> a \<le> 1 \<Longrightarrow> f64_nonneg_upto 0 (f64_lit a)" for a
    using f64_round_nonneg_upto [of a 0] by (simp add: f64_lit_def)
  show ?thesis
    unfolding decimal_laws_def using bounded_result f
    by (simp add: bounded_decimal_def)
qed

lemmas bounded_decimal_simps = bounded_decimal_def bounded_def dec_max_def

text \<open>The same decimals with another parser.\<close>

definition parsing_decimal :: "(string \<Rightarrow> rat option) \<Rightarrow> rat decimal_ops" where
  "parsing_decimal f = bounded_decimal\<lparr>d_from_str := f\<rparr>"

lemma parsing_decimal_bounded: "bounded_decimal = parsing_decimal (d_from_str bounded_decimal)"
  by (simp add: parsing_decimal_def)

lemma parsing_decimal_laws: "decimal_laws (parsing_decimal f)"
  using bounded_decimal_laws
  unfolding decimal_laws_def dec_result_def parsing_decimal_def by simp

end
