(* ===== verification/Registry.thy ===== *)
theory Registry
  imports Routing_Profile Decimal_Api
begin

text \<open>
  The reviewed provider registry (\<open>src/registry.rs\<close>): its data, the request constraints of a
  model mapping and the validation every consumer runs first. Decimals are of the abstract
  type \<open>'d\<close> of \<open>decimal_ops\<close>. Reading the YAML file is \<open>serde_yaml\<close>'s work and not modelled.
\<close>

section \<open>Data\<close>

datatype completion_endpoint = Chat | Legacy

record 'd top_p_bounds =
  tp_min :: 'd
  tp_max :: 'd

record 'd request_constraints =
  rc_endpoints :: "completion_endpoint set"
  rc_supports_streaming :: bool
  rc_top_p :: "'d top_p_bounds option"

record 'd model_mapping =
  m_slug :: string
  m_name :: string
  m_context_length :: u64
  m_provider_model_id :: string
  m_input_price_per_mtok :: 'd
  m_cached_input_price_per_mtok :: "'d option"
  m_output_price_per_mtok :: 'd
  m_request_constraints :: "'d request_constraints"

record 'd provider =
  p_id :: string
  p_display_name :: string
  p_public_display_name :: "string option"
  p_public_tag :: "string option"
  p_base_url :: string
  p_secret_env :: string
  p_enabled :: bool
  p_priority :: u8
  p_catalog_url :: "string option"
  p_profiles :: "routing_profile set"
  p_models :: "'d model_mapping list"

record 'd registry =
  r_providers :: "'d provider list"

text \<open>The \<open>serde\<close> defaults.\<close>

definition default_profiles :: "routing_profile set" where
  "default_profiles = {Production}"

definition default_completion_endpoints :: "completion_endpoint set" where
  "default_completion_endpoints = {Chat, Legacy}"

definition default_constraints :: "'d request_constraints" where
  "default_constraints =
     \<lparr>rc_endpoints = default_completion_endpoints, rc_supports_streaming = True, rc_top_p = None\<rparr>"

definition constraints_is_default :: "'d request_constraints \<Rightarrow> bool" where
  "constraints_is_default c \<longleftrightarrow> c = default_constraints"

section \<open>Request constraints\<close>

definition supports_endpoint :: "'d request_constraints \<Rightarrow> completion_endpoint \<Rightarrow> bool" where
  "supports_endpoint c endpoint \<longleftrightarrow> endpoint \<in> rc_endpoints c"

definition permits_streaming :: "'d request_constraints \<Rightarrow> bool \<Rightarrow> bool" where
  "permits_streaming c stream \<longleftrightarrow> \<not> stream \<or> rc_supports_streaming c"

definition permits_top_p :: "'d decimal_ops \<Rightarrow> 'd request_constraints \<Rightarrow> 'd option \<Rightarrow> bool" where
  "permits_top_p D c top_p =
     (case (rc_top_p c, top_p) of
        (Some bounds, Some p) \<Rightarrow> d_le D (tp_min bounds) p \<and> d_le D p (tp_max bounds)
      | _ \<Rightarrow> True)"

section \<open>Catalog naming and profiles of a provider\<close>

definition supports :: "'d provider \<Rightarrow> routing_profile \<Rightarrow> bool" where
  "supports p profile \<longleftrightarrow> profile \<in> p_profiles p"

definition catalog_display_name :: "'d provider \<Rightarrow> string" where
  "catalog_display_name p =
     (case (p_public_display_name p, p_public_tag p) of
        (Some display_name, Some _) \<Rightarrow> display_name
      | _ \<Rightarrow> p_display_name p)"

definition catalog_tag :: "'d provider \<Rightarrow> string" where
  "catalog_tag p =
     (case (p_public_display_name p, p_public_tag p) of
        (Some _, Some tag) \<Rightarrow> tag
      | _ \<Rightarrow> p_id p)"

text \<open>The profiles of a provider in the order a \<open>BTreeSet\<close> iterates over them.\<close>

definition profile_list :: "'d provider \<Rightarrow> routing_profile list" where
  "profile_list p = filter (\<lambda>profile. profile \<in> p_profiles p) profiles_all"

lemma set_profile_list [simp]: "set (profile_list p) = p_profiles p"
  by (auto simp: profile_list_def)

lemma distinct_profile_list [simp]: "distinct (profile_list p)"
  by (simp add: profile_list_def)

definition enabled_providers :: "'d registry \<Rightarrow> 'd provider list" where
  "enabled_providers r = filter p_enabled (r_providers r)"

section \<open>Validation\<close>

datatype 'd registry_validation_error =
    DuplicateProviderId string
  | EmptyProviderPublicDisplayName string
  | EmptyProviderPublicTag string
  | IncompleteProviderPublicAliases string
  | EmptyProviderProfiles string
  | EmptyModelName string string
  | ZeroModelContextLength string string
  | EmptyModelCompletionEndpoints string string
  | InvalidModelTopPBounds string string 'd 'd

datatype price_side = InputSide | CachedInputSide | OutputSide

fun price_side_text :: "price_side \<Rightarrow> string" where
  "price_side_text InputSide = ''input''"
| "price_side_text CachedInputSide = ''cached input''"
| "price_side_text OutputSide = ''output''"

definition validate_mapping ::
  "'d decimal_ops \<Rightarrow> string \<Rightarrow> 'd model_mapping \<Rightarrow> (unit, 'd registry_validation_error) result" where
  "validate_mapping D provider_id m =
     (if trim (m_name m) = [] then Err (EmptyModelName provider_id (m_slug m))
      else if m_context_length m = 0 then Err (ZeroModelContextLength provider_id (m_slug m))
      else if rc_endpoints (m_request_constraints m) = {}
        then Err (EmptyModelCompletionEndpoints provider_id (m_slug m))
      else case rc_top_p (m_request_constraints m) of
          Some bounds \<Rightarrow>
            (if d_lt D (tp_min bounds) (d_zero D) \<or> d_lt D (tp_max bounds) (tp_min bounds) \<or>
                d_lt D (d_one D) (tp_max bounds)
             then Err (InvalidModelTopPBounds provider_id (m_slug m) (tp_min bounds) (tp_max bounds))
             else Ok ())
        | None \<Rightarrow> Ok ())"

fun validate_mappings ::
  "'d decimal_ops \<Rightarrow> string \<Rightarrow> 'd model_mapping list \<Rightarrow> (unit, 'd registry_validation_error) result" where
  "validate_mappings D provider_id [] = Ok ()"
| "validate_mappings D provider_id (m # ms) =
     result_bind (validate_mapping D provider_id m) (\<lambda>_. validate_mappings D provider_id ms)"

definition validate_provider ::
  "'d decimal_ops \<Rightarrow> string set \<Rightarrow> 'd provider \<Rightarrow> (unit, 'd registry_validation_error) result" where
  "validate_provider D provider_ids p =
     (if p_id p \<in> provider_ids then Err (DuplicateProviderId (p_id p))
      else if is_some (p_public_display_name p) \<noteq> is_some (p_public_tag p)
        then Err (IncompleteProviderPublicAliases (p_id p))
      else if is_some_and (\<lambda>name. trim name = []) (p_public_display_name p)
        then Err (EmptyProviderPublicDisplayName (p_id p))
      else if is_some_and (\<lambda>tag. trim tag = []) (p_public_tag p)
        then Err (EmptyProviderPublicTag (p_id p))
      else if p_profiles p = {} then Err (EmptyProviderProfiles (p_id p))
      else validate_mappings D (p_id p) (p_models p))"

fun validate_providers ::
  "'d decimal_ops \<Rightarrow> string set \<Rightarrow> 'd provider list \<Rightarrow> (unit, 'd registry_validation_error) result" where
  "validate_providers D provider_ids [] = Ok ()"
| "validate_providers D provider_ids (p # ps) =
     result_bind (validate_provider D provider_ids p)
       (\<lambda>_. validate_providers D (insert (p_id p) provider_ids) ps)"

definition registry_validate ::
  "'d decimal_ops \<Rightarrow> 'd registry \<Rightarrow> (unit, 'd registry_validation_error) result" where
  "registry_validate D r = validate_providers D {} (r_providers r)"

section \<open>What validation establishes\<close>

text \<open>The registry's contract, stated over the numbers the decimals denote.\<close>

definition bounds_ok :: "'d decimal_ops \<Rightarrow> 'd top_p_bounds \<Rightarrow> bool" where
  "bounds_ok D b \<longleftrightarrow>
     0 \<le> d_val D (tp_min b) \<and> d_val D (tp_min b) \<le> d_val D (tp_max b) \<and> d_val D (tp_max b) \<le> 1"

definition mapping_ok :: "'d decimal_ops \<Rightarrow> 'd model_mapping \<Rightarrow> bool" where
  "mapping_ok D m \<longleftrightarrow>
     trim (m_name m) \<noteq> [] \<and> 0 < unat (m_context_length m) \<and>
     rc_endpoints (m_request_constraints m) \<noteq> {} \<and>
     (\<forall>b. rc_top_p (m_request_constraints m) = Some b \<longrightarrow> bounds_ok D b)"

definition provider_ok :: "'d decimal_ops \<Rightarrow> 'd provider \<Rightarrow> bool" where
  "provider_ok D p \<longleftrightarrow>
     p_profiles p \<noteq> {} \<and> (\<forall>m \<in> set (p_models p). mapping_ok D m) \<and>
     (case (p_public_display_name p, p_public_tag p) of
        (Some name, Some tag) \<Rightarrow> trim name \<noteq> [] \<and> trim tag \<noteq> []
      | (None, None) \<Rightarrow> True
      | _ \<Rightarrow> False)"

definition registry_ok :: "'d decimal_ops \<Rightarrow> 'd registry \<Rightarrow> bool" where
  "registry_ok D r \<longleftrightarrow>
     distinct (map p_id (r_providers r)) \<and> (\<forall>p \<in> set (r_providers r). provider_ok D p)"

lemma validate_mapping_Ok:
  "decimal_laws D \<Longrightarrow> validate_mapping D i m = Ok () \<longleftrightarrow> mapping_ok D m"
  by (auto simp: validate_mapping_def mapping_ok_def bounds_ok_def d_lt_val d_zero_val d_one_val
      not_less unat_gt_0 split: option.splits)

lemma validate_mappings_Ok:
  "decimal_laws D \<Longrightarrow> validate_mappings D i ms = Ok () \<longleftrightarrow> (\<forall>m \<in> set ms. mapping_ok D m)"
proof (induction ms)
  case (Cons m ms)
  then show ?case
    using validate_mapping_Ok [of D i m]
    by (cases "validate_mapping D i m") (auto simp: result_bind_def)
qed simp

lemma validate_provider_Ok:
  "decimal_laws D \<Longrightarrow> validate_provider D ids p = Ok () \<longleftrightarrow> p_id p \<notin> ids \<and> provider_ok D p"
  by (cases "p_public_display_name p"; cases "p_public_tag p")
    (auto simp: validate_provider_def provider_ok_def validate_mappings_Ok)

lemma validate_providers_Ok:
  "decimal_laws D \<Longrightarrow> validate_providers D ids ps = Ok () \<longleftrightarrow>
     distinct (map p_id ps) \<and> p_id ` set ps \<inter> ids = {} \<and> (\<forall>p \<in> set ps. provider_ok D p)"
proof (induction ps arbitrary: ids)
  case (Cons p ps)
  have "validate_providers D ids (p # ps) = Ok () \<longleftrightarrow>
      validate_provider D ids p = Ok () \<and> validate_providers D (insert (p_id p) ids) ps = Ok ()"
    by (auto simp: result_bind_def split: result.splits)
  with Cons show ?case by (auto simp: validate_provider_Ok)
qed simp

text \<open>C40: Validation accepts a registry exactly when it satisfies the registry contract:
  provider ids are distinct, public aliases come complete and non-blank, every provider
  allows a profile, and every mapping has a name, a context length, an endpoint and top_p
  bounds inside [0, 1] in order.\<close>

theorem registry_validate_iff_ok:
  assumes "decimal_laws D"
  shows "registry_validate D r = Ok () \<longleftrightarrow> registry_ok D r"
  using validate_providers_Ok [OF assms, of "{}"] by (simp add: registry_validate_def registry_ok_def)

definition example_mapping :: "string \<Rightarrow> rat \<Rightarrow> rat \<Rightarrow> rat model_mapping" where
  "example_mapping slug input_price output_price =
     \<lparr>m_slug = slug, m_name = ''Model'', m_context_length = 1, m_provider_model_id = ''upstream'',
      m_input_price_per_mtok = input_price, m_cached_input_price_per_mtok = None,
      m_output_price_per_mtok = output_price, m_request_constraints = default_constraints\<rparr>"

definition example_provider :: "string \<Rightarrow> u8 \<Rightarrow> rat model_mapping list \<Rightarrow> rat provider" where
  "example_provider provider_id priority models =
     \<lparr>p_id = provider_id, p_display_name = provider_id, p_public_display_name = None,
      p_public_tag = None, p_base_url = ''http://127.0.0.1:1234/v1'', p_secret_env = ''KEY'',
      p_enabled = True, p_priority = priority, p_catalog_url = None, p_profiles = {Production},
      p_models = models\<rparr>"

theorem registry_validate_iff_ok_witness:
  "registry_validate bounded_decimal
     \<lparr>r_providers = [example_provider ''a'' 0 [], example_provider ''a'' 1 []]\<rparr> \<noteq> Ok ()"
  using registry_validate_iff_ok [OF bounded_decimal_laws,
      of "\<lparr>r_providers = [example_provider ''a'' 0 [], example_provider ''a'' 1 []]\<rparr>"]
  by (simp add: registry_ok_def example_provider_def)

end
