(* ===== verification/Pricing.thy ===== *)
theory Pricing
  imports Registry
begin

text \<open>
  Provider prices and exact USD cost (\<open>src/pricing.rs\<close>). A \<open>HashMap\<close> is a \<open>bmap\<close>. The
  arithmetic operators of \<open>Decimal\<close> panic on overflow and \<open>expect\<close> panics on \<open>None\<close>, so
  the cost functions have a \<open>panics\<close> result.
\<close>

section \<open>The price table\<close>

record 'd model_prices =
  input_price_per_mtok :: 'd
  output_price_per_mtok :: 'd

record 'd provider_prices =
  provider_cost :: "'d model_prices"
  provider_cached_input_price_per_mtok :: "'d option"

record usage =
  prompt_tokens :: u64
  completion_tokens :: u64

record 'd price_table =
  prices_by_provider :: "(string, (string, 'd provider_prices) bmap) bmap"

datatype 'd price_table_error =
    InvalidRegistry "'d registry_validation_error"
  | DuplicateMapping string string
  | NegativePrice string string price_side

definition mapping_prices :: "'d model_mapping \<Rightarrow> 'd provider_prices" where
  "mapping_prices m =
     \<lparr>provider_cost = \<lparr>input_price_per_mtok = m_input_price_per_mtok m,
                       output_price_per_mtok = m_output_price_per_mtok m\<rparr>,
      provider_cached_input_price_per_mtok = m_cached_input_price_per_mtok m\<rparr>"

fun check_prices ::
  "'d decimal_ops \<Rightarrow> string \<Rightarrow> string \<Rightarrow> (price_side \<times> 'd option) list \<Rightarrow>
   (unit, 'd price_table_error) result" where
  "check_prices D provider_id slug [] = Ok ()"
| "check_prices D provider_id slug ((side, price) # rest) =
     (if is_some_and (\<lambda>x. d_lt D x (d_zero D)) price
      then Err (NegativePrice provider_id slug side)
      else check_prices D provider_id slug rest)"

definition mapping_sides :: "'d model_mapping \<Rightarrow> (price_side \<times> 'd option) list" where
  "mapping_sides m =
     [(InputSide, Some (m_input_price_per_mtok m)),
      (CachedInputSide, m_cached_input_price_per_mtok m),
      (OutputSide, Some (m_output_price_per_mtok m))]"

fun insert_models ::
  "'d decimal_ops \<Rightarrow> string \<Rightarrow> (string, 'd provider_prices) bmap \<Rightarrow> 'd model_mapping list \<Rightarrow>
   ((string, 'd provider_prices) bmap, 'd price_table_error) result" where
  "insert_models D provider_id prices [] = Ok prices"
| "insert_models D provider_id prices (m # ms) =
     result_bind (check_prices D provider_id (m_slug m) (mapping_sides m)) (\<lambda>_.
       if is_some (bm_get (m_slug m) prices) then Err (DuplicateMapping provider_id (m_slug m))
       else insert_models D provider_id (bm_insert (m_slug m) (mapping_prices m) prices) ms)"

fun insert_providers ::
  "'d decimal_ops \<Rightarrow> (string, (string, 'd provider_prices) bmap) bmap \<Rightarrow> 'd provider list \<Rightarrow>
   ((string, (string, 'd provider_prices) bmap) bmap, 'd price_table_error) result" where
  "insert_providers D table [] = Ok table"
| "insert_providers D table (p # ps) =
     result_bind
       (insert_models D (p_id p) (unwrap_or [] (bm_get (p_id p) table)) (p_models p))
       (\<lambda>prices. insert_providers D (bm_insert (p_id p) prices table) ps)"

definition price_table_from_registry ::
  "'d decimal_ops \<Rightarrow> 'd registry \<Rightarrow> ('d price_table, 'd price_table_error) result" where
  "price_table_from_registry D r =
     (case registry_validate D r of
        Err e \<Rightarrow> Err (InvalidRegistry e)
      | Ok _ \<Rightarrow>
          result_bind (insert_providers D [] (enabled_providers r))
            (\<lambda>table. Ok \<lparr>prices_by_provider = table\<rparr>))"

definition price_table_get ::
  "'d price_table \<Rightarrow> string \<Rightarrow> string \<Rightarrow> 'd provider_prices option" where
  "price_table_get t provider_id canonical_slug =
     Option.bind (bm_get provider_id (prices_by_provider t)) (bm_get canonical_slug)"

section \<open>Cost\<close>

definition TOKENS_PER_MILLION :: nat where "TOKENS_PER_MILLION = 1000000"
definition COST_SCALE :: nat where "COST_SCALE = 10"

definition normalize_cost_usd :: "'d decimal_ops \<Rightarrow> 'd \<Rightarrow> 'd option" where
  "normalize_cost_usd D cost =
     (if d_lt D cost (d_zero D) then None
      else Some (d_rescale D COST_SCALE (d_round_dp_away D COST_SCALE cost)))"

definition rounded_cost :: "'d decimal_ops \<Rightarrow> 'd \<Rightarrow> 'd panics" where
  "rounded_cost D cost_per_million =
     do { cost \<leftarrow> d_checked_div D cost_per_million (d_of_nat D TOKENS_PER_MILLION);
          normalize_cost_usd D cost }"

definition cost_usd :: "'d decimal_ops \<Rightarrow> 'd model_prices \<Rightarrow> usage \<Rightarrow> 'd panics" where
  "cost_usd D prices usage =
     do { prompt_cost \<leftarrow> d_checked_mul D (d_of_nat D (unat (prompt_tokens usage)))
                          (input_price_per_mtok prices);
          completion_cost \<leftarrow> d_checked_mul D (d_of_nat D (unat (completion_tokens usage)))
                              (output_price_per_mtok prices);
          total \<leftarrow> d_checked_add D prompt_cost completion_cost;
          rounded_cost D total }"

definition provider_cost_usd ::
  "'d decimal_ops \<Rightarrow> 'd provider_prices \<Rightarrow> usage \<Rightarrow> u64 option \<Rightarrow> 'd option panics" where
  "provider_cost_usd D prices usage cached_prompt_tokens =
     (case provider_cached_input_price_per_mtok prices of
        None \<Rightarrow> do { cost \<leftarrow> cost_usd D (provider_cost prices) usage; Some (Some cost) }
      | Some cached_input_price \<Rightarrow>
          (case cached_prompt_tokens of
             None \<Rightarrow> Some None
           | Some cached \<Rightarrow>
               (case checked_sub (prompt_tokens usage) cached of
                  None \<Rightarrow> Some None
                | Some uncached \<Rightarrow>
                    do { uncached_cost \<leftarrow> d_checked_mul D (d_of_nat D (unat uncached))
                                           (input_price_per_mtok (provider_cost prices));
                         cached_cost \<leftarrow> d_checked_mul D (d_of_nat D (unat cached)) cached_input_price;
                         prompt_cost \<leftarrow> d_checked_add D uncached_cost cached_cost;
                         completion_cost \<leftarrow> d_checked_mul D
                             (d_of_nat D (unat (completion_tokens usage)))
                             (output_price_per_mtok (provider_cost prices));
                         total \<leftarrow> d_checked_add D prompt_cost completion_cost;
                         cost \<leftarrow> rounded_cost D total;
                         Some (Some cost) })))"

section \<open>What a price table holds\<close>

definition prices_ok :: "'d decimal_ops \<Rightarrow> 'd model_mapping \<Rightarrow> bool" where
  "prices_ok D m \<longleftrightarrow>
     0 \<le> d_val D (m_input_price_per_mtok m) \<and> 0 \<le> d_val D (m_output_price_per_mtok m) \<and>
     is_none_or (\<lambda>c. 0 \<le> d_val D c) (m_cached_input_price_per_mtok m)"

definition provider_prices_ok :: "'d decimal_ops \<Rightarrow> 'd provider \<Rightarrow> bool" where
  "provider_prices_ok D p \<longleftrightarrow>
     distinct (map m_slug (p_models p)) \<and> (\<forall>m \<in> set (p_models p). prices_ok D m)"

lemma check_prices_Ok:
  "decimal_laws D \<Longrightarrow> check_prices D i s (mapping_sides m) = Ok () \<longleftrightarrow> prices_ok D m"
  by (cases "m_cached_input_price_per_mtok m")
    (auto simp: mapping_sides_def prices_ok_def d_lt_val d_zero_val not_less)

text \<open>A successful insertion of mappings, and the map it leaves.\<close>

lemma insert_models_Ok:
  assumes "decimal_laws D"
  shows "insert_models D i prices ms = Ok prices' \<longleftrightarrow>
    (\<forall>m \<in> set ms. prices_ok D m \<and> bm_get (m_slug m) prices = None) \<and> distinct (map m_slug ms) \<and>
    prices' = fold (\<lambda>(k, v). bm_insert k v) (map (\<lambda>m. (m_slug m, mapping_prices m)) ms) prices"
proof (induction ms arbitrary: prices)
  case (Cons m ms)
  show ?case
  proof (cases "prices_ok D m \<and> bm_get (m_slug m) prices = None")
    case True
    then have ok: "check_prices D i (m_slug m) (mapping_sides m) = Ok ()"
      by (simp add: check_prices_Ok assms)
    have "(\<forall>x \<in> set ms. bm_get (m_slug x) (bm_insert (m_slug m) (mapping_prices m) prices) = None)
        \<longleftrightarrow> (\<forall>x \<in> set ms. bm_get (m_slug x) prices = None) \<and> m_slug m \<notin> m_slug ` set ms"
      unfolding not_in_image_iff bm_get_insert by auto
    with True show ?thesis by (auto simp: ok Cons.IH)
  next
    case False
    then have "insert_models D i prices (m # ms) \<noteq> Ok prices'"
      using check_prices_Ok [OF assms, of i "m_slug m" m]
      by (auto simp: result_bind_def is_some_iff split: result.splits)
    with False show ?thesis by auto
  qed
qed auto

definition models_map :: "'d model_mapping list \<Rightarrow> (string, 'd provider_prices) bmap" where
  "models_map ms = fold (\<lambda>(k, v). bm_insert k v) (map (\<lambda>m. (m_slug m, mapping_prices m)) ms) []"

definition providers_map ::
  "'d provider list \<Rightarrow> (string, (string, 'd provider_prices) bmap) bmap" where
  "providers_map ps =
     fold (\<lambda>(k, v). bm_insert k v) (map (\<lambda>p. (p_id p, models_map (p_models p))) ps) []"

lemma map_of_rev_distinct:
  assumes "distinct (map fst kvs)"
  shows "map_of (rev kvs) k = Some v \<longleftrightarrow> (k, v) \<in> set kvs"
  using assms map_of_eq_Some_iff [of "rev kvs" k v] by (simp add: rev_map [symmetric])

lemma insert_models_get:
  assumes "distinct (map m_slug ms)"
  shows "bm_get s (models_map ms) = Some prices \<longleftrightarrow> (\<exists>m \<in> set ms. m_slug m = s \<and> mapping_prices m = prices)"
proof -
  have "distinct (map fst (map (\<lambda>m. (m_slug m, mapping_prices m)) ms))"
    using assms by (simp add: comp_def)
  from map_of_rev_distinct [OF this] show ?thesis
    by (auto simp: models_map_def bmap.lookup_fold_insert)
qed

lemma insert_providers_Ok:
  assumes "decimal_laws D" "distinct (map p_id ps)"
    and "\<forall>p \<in> set ps. bm_get (p_id p) table = None"
  shows "insert_providers D table ps = Ok table' \<longleftrightarrow>
    (\<forall>p \<in> set ps. provider_prices_ok D p) \<and>
    table' = fold (\<lambda>(k, v). bm_insert k v)
      (map (\<lambda>p. (p_id p, models_map (p_models p))) ps) table"
  using assms(2,3)
proof (induction ps arbitrary: table)
  case (Cons p ps)
  show ?case
  proof (cases "provider_prices_ok D p")
    case True
    then have "insert_models D (p_id p) [] (p_models p) = Ok (models_map (p_models p))"
      by (auto simp: insert_models_Ok assms(1) provider_prices_ok_def models_map_def)
    moreover have "\<forall>q \<in> set ps. bm_get (p_id q) (bm_insert (p_id p) x table) = None" for x
      using Cons.prems unfolding distinct.simps list.map set_map not_in_image_iff
      by (simp add: bm_get_insert)
    ultimately show ?thesis using Cons True by simp
  next
    case False
    then have "insert_models D (p_id p) [] (p_models p) \<noteq> Ok x" for x
      by (auto simp: insert_models_Ok assms(1) provider_prices_ok_def)
    then have "insert_providers D table (p # ps) \<noteq> Ok table'"
      using Cons.prems by (auto simp: result_bind_def split: result.splits)
    with False show ?thesis by auto
  qed
qed auto

lemma price_table_from_registry_Ok:
  assumes "decimal_laws D"
  shows "price_table_from_registry D r = Ok t \<longleftrightarrow>
    registry_ok D r \<and> (\<forall>p \<in> set (enabled_providers r). provider_prices_ok D p) \<and>
    t = \<lparr>prices_by_provider = providers_map (enabled_providers r)\<rparr>"
proof (cases "registry_ok D r")
  case True
  then have valid: "registry_validate D r = Ok ()"
    by (simp add: registry_validate_def validate_providers_Ok [OF assms] registry_ok_def)
  have "distinct (map p_id (enabled_providers r))"
    using True by (simp add: registry_ok_def enabled_providers_def distinct_map_filter)
  then have inserted: "insert_providers D [] (enabled_providers r) = Ok x \<longleftrightarrow>
      (\<forall>p \<in> set (enabled_providers r). provider_prices_ok D p) \<and>
      x = providers_map (enabled_providers r)" for x
    by (simp add: insert_providers_Ok [OF assms] providers_map_def)
  show ?thesis
    using True by (auto simp: price_table_from_registry_def valid result_bind_Ok inserted)
next
  case False
  then have "registry_validate D r \<noteq> Ok ()"
    by (simp add: registry_validate_def validate_providers_Ok [OF assms] registry_ok_def)
  then have "price_table_from_registry D r \<noteq> Ok t"
    by (auto simp: price_table_from_registry_def split: result.splits)
  with False show ?thesis by blast
qed

text \<open>C35: Building the price table succeeds exactly when the registry validates and no enabled
  provider repeats a model slug or has a negative input, cached-input or output price; a
  disabled provider's prices are never looked at.\<close>

theorem price_table_from_registry_succeeds_iff:
  assumes "decimal_laws D"
  shows "(\<exists>t. price_table_from_registry D r = Ok t) \<longleftrightarrow>
    registry_ok D r \<and> (\<forall>p \<in> set (enabled_providers r). provider_prices_ok D p)"
  by (simp add: price_table_from_registry_Ok [OF assms])

theorem price_table_from_registry_succeeds_iff_witness:
  "\<not> (\<exists>t. price_table_from_registry bounded_decimal
     \<lparr>r_providers = [example_provider ''a'' 0 [example_mapping ''m'' 1 (- 1)]]\<rparr> = Ok t)"
  unfolding price_table_from_registry_succeeds_iff [OF bounded_decimal_laws]
  by (simp add: enabled_providers_def provider_prices_ok_def prices_ok_def example_provider_def
      example_mapping_def bounded_decimal_def)

text \<open>A table that was built answers a lookup with the reviewed prices of exactly the enabled
  provider's own mapping of that slug: no price is invented or taken from another provider.\<close>

lemma price_table_get_reviewed:
  assumes "decimal_laws D" and "price_table_from_registry D r = Ok t"
  shows "price_table_get t provider_id slug = Some prices \<longleftrightarrow>
    (\<exists>p \<in> set (r_providers r). p_enabled p \<and> p_id p = provider_id \<and>
       (\<exists>m \<in> set (p_models p). m_slug m = slug \<and> prices = mapping_prices m))"
proof -
  let ?models = "\<lambda>p. models_map (p_models p)"
  have ok: "registry_ok D r" and prices_ok: "\<forall>p \<in> set (enabled_providers r). provider_prices_ok D p"
    and t: "prices_by_provider t = providers_map (enabled_providers r)"
    using assms(2) by (simp_all add: price_table_from_registry_Ok [OF assms(1)])
  have "distinct (map fst (map (\<lambda>p. (p_id p, ?models p)) (enabled_providers r)))"
    using ok by (simp add: registry_ok_def enabled_providers_def distinct_map_filter comp_def)
  then have "bm_get provider_id (prices_by_provider t) = Some x \<longleftrightarrow>
      (\<exists>p \<in> set (enabled_providers r). p_id p = provider_id \<and> x = ?models p)" for x
    unfolding t by (auto simp: providers_map_def bmap.lookup_fold_insert map_of_rev_distinct)
  moreover have "bm_get slug (?models p) = Some prices \<longleftrightarrow>
      (\<exists>m \<in> set (p_models p). m_slug m = slug \<and> prices = mapping_prices m)"
    if "p \<in> set (enabled_providers r)" for p
    using prices_ok that insert_models_get [of "p_models p" slug prices]
    by (auto simp: provider_prices_ok_def)
  ultimately show ?thesis
    by (auto simp: price_table_get_def bind_eq_Some_conv enabled_providers_def)
qed

section \<open>Cost is exact\<close>

text \<open>The exact cost before rounding, as a rational number; \<open>None\<close> is an unresolved cost.\<close>

definition reference_cost ::
  "'d decimal_ops \<Rightarrow> 'd provider_prices \<Rightarrow> usage \<Rightarrow> u64 option \<Rightarrow> rat option" where
  "reference_cost D prices usage cached =
     (let price = d_val D (input_price_per_mtok (provider_cost prices));
          prompt = of_nat (unat (prompt_tokens usage));
          completion = of_nat (unat (completion_tokens usage)) *
            d_val D (output_price_per_mtok (provider_cost prices))
      in case provider_cached_input_price_per_mtok prices of
           None \<Rightarrow> Some ((prompt * price + completion) / 10 ^ 6)
         | Some cached_price \<Rightarrow>
             (case cached of
                None \<Rightarrow> None
              | Some n \<Rightarrow>
                  if unat (prompt_tokens usage) < unat n then None
                  else Some (((prompt - of_nat (unat n)) * price +
                               of_nat (unat n) * d_val D cached_price + completion) / 10 ^ 6)))"

text \<open>A price of at most \<open>s\<close> decimal places whose digits fit 31 bits.\<close>

definition price_digits :: "'d decimal_ops \<Rightarrow> nat \<Rightarrow> 'd \<Rightarrow> bool" where
  "price_digits D s x \<longleftrightarrow> (\<exists>m. 0 \<le> m \<and> m < 2 ^ 31 \<and> d_val D x = of_int m / 10 ^ s)"

definition prices_digits :: "'d decimal_ops \<Rightarrow> nat \<Rightarrow> 'd provider_prices \<Rightarrow> bool" where
  "prices_digits D s prices \<longleftrightarrow>
     price_digits D s (input_price_per_mtok (provider_cost prices)) \<and>
     price_digits D s (output_price_per_mtok (provider_cost prices)) \<and>
     is_none_or (price_digits D s) (provider_cached_input_price_per_mtok prices)"

text \<open>Products and sums of such amounts stay exact: \<open>amount D s b x\<close> bounds the digits by \<open>b\<close>.\<close>

definition amount :: "'d decimal_ops \<Rightarrow> nat \<Rightarrow> int \<Rightarrow> 'd \<Rightarrow> bool" where
  "amount D s b x \<longleftrightarrow> (\<exists>m. 0 \<le> m \<and> m \<le> b \<and> d_val D x = of_int m / 10 ^ s)"

lemma tokens_mul:
  assumes "decimal_laws D" "price_digits D s x" "n < 2 ^ 64" "s \<le> 28"
  obtains c where "d_checked_mul D (d_of_nat D n) x = Some c"
    "d_val D c = of_nat n * d_val D x" "amount D s (int n * (2 ^ 31 - 1)) c"
proof -
  obtain m where m: "0 \<le> m" "m < 2 ^ 31" "d_val D x = of_int m / 10 ^ s"
    using assms(2) by (auto simp: price_digits_def)
  have b: "int n * m \<le> int n * (2 ^ 31 - 1)" using m by (intro mult_left_mono) auto
  have "int n * (2 ^ 31 - 1) < (2 ^ 96 :: int)" using assms(3) by simp
  with b have "\<bar>int n * m\<bar> < 2 ^ 96" using m by (simp add: abs_mult)
  moreover have v: "of_nat n * d_val D x = of_int (int n * m) / 10 ^ s" by (simp add: m)
  ultimately have "dec_representable (of_nat n * d_val D x)"
    using assms(4) by (intro dec_representableI) auto
  with d_mul_result [OF assms(1), of "d_of_nat D n" x]
  obtain c where "d_checked_mul D (d_of_nat D n) x = Some c" "d_val D c = of_nat n * d_val D x"
    using dec_result_representable by (metis d_of_nat_val [OF assms(1,3)])
  moreover from this(2) v b m have "amount D s (int n * (2 ^ 31 - 1)) c"
    by (auto simp: amount_def intro!: exI [of _ "int n * m"])
  ultimately show thesis using that by blast
qed

lemma amount_add:
  assumes "decimal_laws D" "amount D s a x" "amount D s b y" "a + b < 2 ^ 96" "s \<le> 28"
  obtains c where "d_checked_add D x y = Some c" "d_val D c = d_val D x + d_val D y"
    "amount D s (a + b) c"
proof -
  obtain m n where m: "0 \<le> m" "m \<le> a" "d_val D x = of_int m / 10 ^ s"
    and n: "0 \<le> n" "n \<le> b" "d_val D y = of_int n / 10 ^ s"
    using assms(2,3) by (auto simp: amount_def)
  have v: "d_val D x + d_val D y = of_int (m + n) / 10 ^ s"
    by (simp add: m n add_divide_distrib)
  then have "dec_representable (d_val D x + d_val D y)"
    using m n assms(4,5) by (intro dec_representableI [OF v]) auto
  with d_add_result [OF assms(1), of x y]
  obtain c where "d_checked_add D x y = Some c" "d_val D c = d_val D x + d_val D y"
    using dec_result_representable by blast
  moreover from this(2) v m n have "amount D s (a + b) c"
    by (auto simp: amount_def intro!: exI [of _ "m + n"])
  ultimately show thesis using that by blast
qed

lemma rounded_cost_amount:
  assumes "decimal_laws D" "amount D s b x" "b < 2 ^ 96" "s \<le> 22"
  obtains c where "rounded_cost D x = Some c" "d_val D c = round_away 10 (d_val D x / 10 ^ 6)"
proof -
  obtain m where m: "0 \<le> m" "m \<le> b" "d_val D x = of_int m / 10 ^ s"
    using assms(2) by (auto simp: amount_def)
  have million: "d_val D (d_of_nat D TOKENS_PER_MILLION) = 10 ^ 6"
    using d_of_nat_val [OF assms(1), of TOKENS_PER_MILLION] by (simp add: TOKENS_PER_MILLION_def)
  have "dec_representable (d_val D x / 10 ^ 6)"
    by (rule dec_representableI [of _ m "s + 6"]) (use m assms in \<open>auto simp: power_add\<close>)
  then obtain q where q: "d_checked_div D x (d_of_nat D TOKENS_PER_MILLION) = Some q"
      "d_val D q = d_val D x / 10 ^ 6"
    using d_div_result [OF assms(1), of "d_of_nat D TOKENS_PER_MILLION" x]
    by (metis million dec_result_representable power_eq_0_iff zero_neq_numeral)
  have "0 \<le> d_val D q" using m by (simp add: q)
  then have "\<not> d_lt D q (d_zero D)"
    by (simp add: d_lt_val [OF assms(1)] d_zero_val [OF assms(1)])
  moreover obtain k where "round_away 10 (d_val D q) = of_int k / 10 ^ 10"
    using round_away_scaled by blast
  then have "d_val D (d_rescale D COST_SCALE (d_round_dp_away D COST_SCALE q))
      = round_away 10 (d_val D q)"
    by (simp add: COST_SCALE_def d_rescale_val [OF assms(1)] d_round_val [OF assms(1)])
  ultimately have "\<exists>c. rounded_cost D x = Some c \<and> d_val D c = round_away 10 (d_val D x / 10 ^ 6)"
    by (simp add: rounded_cost_def normalize_cost_usd_def q)
  then show thesis using that by blast
qed

text \<open>The two-term and the three-term sum of the code, each under the bounds of 64-bit counts.\<close>

lemma cost_usd_exact:
  assumes laws: "decimal_laws D" and "price_digits D s (input_price_per_mtok prices)"
    "price_digits D s (output_price_per_mtok prices)" and s: "s \<le> 22"
  shows "\<exists>c. cost_usd D prices usage = Some c \<and> d_val D c = round_away 10
    ((of_nat (unat (prompt_tokens usage)) * d_val D (input_price_per_mtok prices) +
      of_nat (unat (completion_tokens usage)) * d_val D (output_price_per_mtok prices)) / 10 ^ 6)"
proof -
  let ?B = "2 ^ 31 - 1 :: int"
  have s': "s \<le> 28" using s by simp
  obtain pc where pc: "d_checked_mul D (d_of_nat D (unat (prompt_tokens usage)))
        (input_price_per_mtok prices) = Some pc"
      "d_val D pc = of_nat (unat (prompt_tokens usage)) * d_val D (input_price_per_mtok prices)"
      "amount D s (int (unat (prompt_tokens usage)) * ?B) pc"
    by (rule tokens_mul [OF laws assms(2) unat64 s'])
  obtain cc where cc: "d_checked_mul D (d_of_nat D (unat (completion_tokens usage)))
        (output_price_per_mtok prices) = Some cc"
      "d_val D cc = of_nat (unat (completion_tokens usage)) * d_val D (output_price_per_mtok prices)"
      "amount D s (int (unat (completion_tokens usage)) * ?B) cc"
    by (rule tokens_mul [OF laws assms(3) unat64 s'])
  have b: "int (unat (prompt_tokens usage)) * ?B + int (unat (completion_tokens usage)) * ?B < 2 ^ 96"
    using uint64 [of "prompt_tokens usage"] uint64 [of "completion_tokens usage"] by simp
  obtain t where t: "d_checked_add D pc cc = Some t" "d_val D t = d_val D pc + d_val D cc"
      "amount D s (int (unat (prompt_tokens usage)) * ?B + int (unat (completion_tokens usage)) * ?B) t"
    by (rule amount_add [OF laws pc(3) cc(3) b s'])
  obtain c where "rounded_cost D t = Some c" "d_val D c = round_away 10 (d_val D t / 10 ^ 6)"
    by (rule rounded_cost_amount [OF laws t(3) b s])
  then show ?thesis by (simp add: cost_usd_def pc cc t)
qed

lemma cached_sum_exact:
  fixes u n w :: u64
  assumes laws: "decimal_laws D" and digits: "price_digits D s x" "price_digits D s y" "price_digits D s z"
    and s: "s \<le> 22" and bound: "uint u + uint n < 2 ^ 64"
  shows "\<exists>a b p k t c. d_checked_mul D (d_of_nat D (unat u)) x = Some a \<and>
    d_checked_mul D (d_of_nat D (unat n)) y = Some b \<and> d_checked_add D a b = Some p \<and>
    d_checked_mul D (d_of_nat D (unat w)) z = Some k \<and> d_checked_add D p k = Some t \<and>
    rounded_cost D t = Some c \<and> d_val D c = round_away 10
      ((of_nat (unat u) * d_val D x + of_nat (unat n) * d_val D y + of_nat (unat w) * d_val D z) / 10 ^ 6)"
proof -
  let ?B = "2 ^ 31 - 1 :: int"
  have s': "s \<le> 28" using s by simp
  obtain a where a: "d_checked_mul D (d_of_nat D (unat u)) x = Some a"
      "d_val D a = of_nat (unat u) * d_val D x" "amount D s (int (unat u) * ?B) a"
    by (rule tokens_mul [OF laws digits(1) unat64 s'])
  obtain b where b: "d_checked_mul D (d_of_nat D (unat n)) y = Some b"
      "d_val D b = of_nat (unat n) * d_val D y" "amount D s (int (unat n) * ?B) b"
    by (rule tokens_mul [OF laws digits(2) unat64 s'])
  obtain k where k: "d_checked_mul D (d_of_nat D (unat w)) z = Some k"
      "d_val D k = of_nat (unat w) * d_val D z" "amount D s (int (unat w) * ?B) k"
    by (rule tokens_mul [OF laws digits(3) unat64 s'])
  have "int (unat u) * ?B + int (unat n) * ?B < 2 ^ 96"
    using bound by simp
  then obtain p where p: "d_checked_add D a b = Some p" "d_val D p = d_val D a + d_val D b"
      "amount D s (int (unat u) * ?B + int (unat n) * ?B) p"
    by (rule amount_add [OF laws a(3) b(3) _ s'])
  have bt: "int (unat u) * ?B + int (unat n) * ?B + int (unat w) * ?B < 2 ^ 96"
    using bound uint64 [of w] by simp
  obtain t where t: "d_checked_add D p k = Some t" "d_val D t = d_val D p + d_val D k"
      "amount D s (int (unat u) * ?B + int (unat n) * ?B + int (unat w) * ?B) t"
    by (rule amount_add [OF laws p(3) k(3) bt s'])
  obtain c where "rounded_cost D t = Some c" "d_val D c = round_away 10 (d_val D t / 10 ^ 6)"
    by (rule rounded_cost_amount [OF laws t(3) bt s])
  then show ?thesis using a b k p t by simp
qed

lemma provider_cost_reference:
  assumes "decimal_laws D" "prices_digits D s prices" "s \<le> 22"
  shows "map_option (map_option (d_val D)) (provider_cost_usd D prices usage cached) =
    Some (map_option (round_away 10) (reference_cost D prices usage cached))"
proof (cases "provider_cached_input_price_per_mtok prices")
  case None
  show ?thesis
    using cost_usd_exact [of D s "provider_cost prices" usage] assms
    by (auto simp: provider_cost_usd_def reference_cost_def None Let_def prices_digits_def)
next
  case (Some cached_price)
  show ?thesis
  proof (cases "\<exists>n. cached = Some n \<and> unat n \<le> unat (prompt_tokens usage)")
    case True
    then obtain n where n: "cached = Some n" "unat n \<le> unat (prompt_tokens usage)" by blast
    define u where "u = prompt_tokens usage - n"
    have u: "checked_sub (prompt_tokens usage) n = Some u"
      using n checked_sub_Some [of "prompt_tokens usage" n u] by (simp add: u_def)
    have diff: "unat u = unat (prompt_tokens usage) - unat n" by (rule checked_sub_unat [OF u])
    then have "int (unat u) + int (unat n) = int (unat (prompt_tokens usage))"
      using n(2) by linarith
    then have "uint u + uint n < 2 ^ 64"
      using uint64 [of "prompt_tokens usage"] by simp
    from cached_sum_exact [OF assms(1) _ _ _ assms(3) this, of "input_price_per_mtok (provider_cost prices)"
        cached_price "output_price_per_mtok (provider_cost prices)" "completion_tokens usage"] assms(2)
    show ?thesis
      using n by (auto simp: provider_cost_usd_def reference_cost_def Some Let_def u prices_digits_def
          diff of_nat_diff)
  next
    case False
    then show ?thesis
      by (cases cached)
        (auto simp: provider_cost_usd_def reference_cost_def Some Let_def checked_sub_Some
          not_le split: option.splits)
  qed
qed

text \<open>C20: For prices of at most 22 decimal places whose digits fit 31 bits (up to 214 dollars per
  million tokens at seven places) and any 64-bit token counts, the cost computation never
  panics and its result is the exact cost, rounded once to ten places away from zero; it is
  unresolved exactly when a cached price applies and the cached-token count is missing or
  exceeds the prompt tokens.\<close>

theorem provider_cost_usd_exact:
  assumes "decimal_laws D" "prices_digits D s prices" "s \<le> 22"
  shows "map_option (map_option (d_val D)) (provider_cost_usd D prices usage cached) =
    Some (map_option (round_away 10) (reference_cost D prices usage cached))"
  by (rule provider_cost_reference [OF assms])

theorem provider_cost_usd_exact_witness:
  "map_option (map_option (\<lambda>q. q)) (provider_cost_usd bounded_decimal
      \<lparr>provider_cost = \<lparr>input_price_per_mtok = 3, output_price_per_mtok = 15\<rparr>,
       provider_cached_input_price_per_mtok = Some (3 / 10)\<rparr>
      \<lparr>prompt_tokens = 100, completion_tokens = 10\<rparr> (Some 40))
    = Some (Some (3420000 / 10 ^ 10))"
proof -
  let ?p = "\<lparr>provider_cost = \<lparr>input_price_per_mtok = 3, output_price_per_mtok = 15\<rparr>,
       provider_cached_input_price_per_mtok = Some (3 / 10)\<rparr> :: rat provider_prices"
  have "prices_digits bounded_decimal 1 ?p"
    by (auto simp: prices_digits_def price_digits_def bounded_decimal_def
        intro: exI [of _ 30] exI [of _ 150] exI [of _ 3])
  moreover have "\<lfloor>6840001 / 2 :: rat\<rfloor> = 3420000" by (rule floor_unique) simp_all
  ultimately show ?thesis
    using provider_cost_usd_exact [OF bounded_decimal_laws, of 1 ?p
      "\<lparr>prompt_tokens = 100, completion_tokens = 10\<rparr>" "Some 40"]
    by (simp add: reference_cost_def bounded_decimal_def round_away_def)
qed

end
