(* ===== verification/Select.thy ===== *)
theory Select
  imports Measurements Preference Pricing
begin

text \<open>
  Selecting one route (\<open>src/policy/select.rs\<close>): candidates, the policy limits, the rolling
  traffic share and the five selection orders. The \<open>rand\<close> crate's weighted distribution and
  generator are the record \<open>rand_ops\<close>; \<open>None\<close> of a \<open>panics\<close> type is a panic.
\<close>

section \<open>Candidates and limits\<close>

record 'd candidate =
  c_provider_id :: string
  c_combined_price :: 'd
  c_priority :: u8
  c_measurements :: "model_measurements option"
  c_healthy :: bool

datatype candidate_error =
  NegativeInputPrice | NegativeOutputPrice | PriceOverflow | InvalidMeasurements

definition invalid_measurements :: "model_measurements \<Rightarrow> bool" where
  "invalid_measurements m \<longleftrightarrow>
     \<not> f64_is_finite (throughput_tokens_per_second m) \<or>
     f64_lt (throughput_tokens_per_second m) (f64_lit 0) \<or>
     \<not> f64_is_finite (time_to_first_token_seconds m) \<or>
     f64_lt (time_to_first_token_seconds m) (f64_lit 0)"

definition candidate_new ::
  "'d decimal_ops \<Rightarrow> string \<Rightarrow> 'd \<Rightarrow> 'd \<Rightarrow> u8 \<Rightarrow> model_measurements option \<Rightarrow> bool \<Rightarrow>
   ('d candidate, candidate_error) result" where
  "candidate_new D provider_id input_price output_price priority measurements healthy =
     (if d_lt D input_price (d_zero D) then Err NegativeInputPrice
      else if d_lt D output_price (d_zero D) then Err NegativeOutputPrice
      else case d_checked_add D input_price output_price of
          None \<Rightarrow> Err PriceOverflow
        | Some combined \<Rightarrow>
            if is_some_and invalid_measurements measurements then Err InvalidMeasurements
            else Ok \<lparr>c_provider_id = provider_id, c_combined_price = combined,
                     c_priority = priority, c_measurements = measurements, c_healthy = healthy\<rparr>)"

record 'd policy_config =
  combined_price_ceiling_per_mtok :: 'd
  hysteresis_fraction :: f64
  max_share :: 'd

datatype policy_config_error = NegativePriceCeiling | InvalidHysteresis | InvalidMaxShare

definition policy_config_new ::
  "'d decimal_ops \<Rightarrow> 'd \<Rightarrow> f64 \<Rightarrow> 'd \<Rightarrow> ('d policy_config, policy_config_error) result" where
  "policy_config_new D price_ceiling hysteresis share =
     (if d_lt D price_ceiling (d_zero D) then Err NegativePriceCeiling
      else if \<not> f64_is_finite hysteresis \<or> f64_lt hysteresis (f64_lit 0) then Err InvalidHysteresis
      else if d_le D share (d_zero D) \<or> d_lt D (d_one D) share then Err InvalidMaxShare
      else Ok \<lparr>combined_price_ceiling_per_mtok = price_ceiling, hysteresis_fraction = hysteresis,
               max_share = share\<rparr>)"

section \<open>The rolling traffic share\<close>

record share_tracker =
  capacity :: nat
  history :: "string list"
  counts :: "(string, nat) bmap"

datatype share_tracker_error = ZeroCapacity

definition share_tracker_new :: "nat \<Rightarrow> (share_tracker, share_tracker_error) result" where
  "share_tracker_new cap =
     (if cap = 0 then Err ZeroCapacity else Ok \<lparr>capacity = cap, history = [], counts = []\<rparr>)"

text \<open>A full window first drops its oldest entry: \<open>pop_front\<close> and its count, with the two
  \<open>expect\<close>s; \<open>-=\<close> panics on a count that is already zero.\<close>

definition expire_oldest :: "share_tracker \<Rightarrow> share_tracker panics" where
  "expire_oldest t =
     (if length (history t) = capacity t then
        (case history t of
           [] \<Rightarrow> None
         | expired # rest \<Rightarrow>
             do { n \<leftarrow> bm_get expired (counts t);
                  left \<leftarrow> (if n = 0 then None else Some (n - 1));
                  let updated = bm_insert expired left (counts t)
                  in Some (t\<lparr>history := rest,
                             counts := (if left = 0 then bm_remove expired updated else updated)\<rparr>) })
      else Some t)"

definition record_share :: "share_tracker \<Rightarrow> string \<Rightarrow> share_tracker panics" where
  "record_share t provider_id =
     do { t1 \<leftarrow> expire_oldest t;
          Some (t1\<lparr>counts := bm_insert provider_id (unwrap_or 0 (bm_get provider_id (counts t1)) + 1)
                               (counts t1),
                   history := history t1 @ [provider_id]\<rparr>) }"

definition share_count :: "share_tracker \<Rightarrow> string \<Rightarrow> nat" where
  "share_count t provider_id = unwrap_or 0 (bm_get provider_id (counts t))"

definition share :: "'d decimal_ops \<Rightarrow> share_tracker \<Rightarrow> string \<Rightarrow> 'd panics" where
  "share D t provider_id =
     (if history t = [] then Some (d_zero D)
      else d_checked_div D (d_of_nat D (share_count t provider_id)) (d_of_nat D (length (history t))))"

definition allows_next :: "'d decimal_ops \<Rightarrow> share_tracker \<Rightarrow> string \<Rightarrow> 'd \<Rightarrow> bool panics" where
  "allows_next D t provider_id share_limit =
     (let next_len = min (length (history t) + 1) (capacity t);
          expired_matches =
            (if length (history t) = capacity t \<and>
                is_some_and (\<lambda>expired. expired = provider_id)
                  (case history t of [] \<Rightarrow> None | oldest # _ \<Rightarrow> Some oldest)
             then 1 else 0);
          next_count = share_count t provider_id + 1 - expired_matches
      in do { product \<leftarrow> d_checked_mul D share_limit (d_of_nat D next_len);
              quota \<leftarrow> d_to_usize D (d_ceil D product);
              Some (next_count \<le> quota) })"

definition incumbent_provider_id :: "share_tracker \<Rightarrow> string option" where
  "incumbent_provider_id t =
     (case bm_values (counts t) of
        [] \<Rightarrow> None
      | values \<Rightarrow> find (\<lambda>provider_id. share_count t provider_id = Max (set values)) (rev (history t)))"

section \<open>Selection\<close>

text \<open>\<open>WeightedIndex::new\<close> with its \<open>sample\<close>, and \<open>StdRng::seed_from_u64\<close>.\<close>

record 'r rand_ops =
  weighted_index :: "f64 list \<Rightarrow> ('r \<Rightarrow> nat \<times> 'r) option"
  seed_from_u64 :: "nat \<Rightarrow> 'r"

text \<open>The documented behaviour: a distribution over weights that can be sampled gives an index of
  a weight that is not zero, and weights in [0, 1] that are not all zero can be sampled.\<close>

definition rand_laws :: "'r rand_ops \<Rightarrow> bool" where
  "rand_laws R \<longleftrightarrow>
     (\<forall>ws sample r. weighted_index R ws = Some sample \<longrightarrow>
        fst (sample r) < length ws \<and> f64_lt (f64_lit 0) (ws ! fst (sample r))) \<and>
     (\<forall>ws. (\<forall>w \<in> set ws. f64_nonneg_upto 0 w) \<and> (\<exists>w \<in> set ws. f64_lt (f64_lit 0) w) \<longrightarrow>
        weighted_index R ws \<noteq> None)"

definition healthy :: "'d candidate list \<Rightarrow> 'd candidate list" where
  "healthy candidates = filter c_healthy candidates"

definition throughput :: "'d candidate \<Rightarrow> f64 option" where
  "throughput c =
     option_filter (\<lambda>t. f64_lt (f64_lit 0) t)
       (map_option throughput_tokens_per_second (c_measurements c))"

definition weighted_pick ::
  "'r rand_ops \<Rightarrow> 'd candidate list \<Rightarrow> f64 list \<Rightarrow> 'r \<Rightarrow> 'd candidate option \<times> 'r" where
  "weighted_pick R candidates weights rng =
     (let max_weight = fold (\<lambda>weight acc. f64_max acc weight) weights (f64_lit 0) in
      if f64_le max_weight (f64_lit 0) then (None, rng)
      else case weighted_index R (map (\<lambda>weight. f64_div weight max_weight) weights) of
          None \<Rightarrow> (None, rng)
        | Some sample \<Rightarrow>
            let (index, rng') = sample rng
            in (if index < length candidates then Some (candidates ! index) else None, rng'))"

definition compare_priority :: "'d candidate \<Rightarrow> 'd candidate \<Rightarrow> ordering" where
  "compare_priority l r =
     then_with (cmp_of (c_priority l) (c_priority r)) (cmp_of (c_provider_id l) (c_provider_id r))"

definition strict_priority :: "'d candidate list \<Rightarrow> 'd candidate option" where
  "strict_priority candidates = min_by compare_priority candidates"

definition compare_price :: "'d decimal_ops \<Rightarrow> 'd candidate \<Rightarrow> 'd candidate \<Rightarrow> ordering" where
  "compare_price D l r =
     then_with (d_cmp D (c_combined_price l) (c_combined_price r)) (compare_priority l r)"

fun compare_optional_f64 :: "f64 option \<Rightarrow> f64 option \<Rightarrow> ordering" where
  "compare_optional_f64 (Some l) (Some r) = f64_total_cmp l r"
| "compare_optional_f64 (Some _) None = Greater"
| "compare_optional_f64 None (Some _) = Less"
| "compare_optional_f64 None None = Equal"

definition compare_throughput :: "'d candidate \<Rightarrow> 'd candidate \<Rightarrow> ordering" where
  "compare_throughput l r =
     then_with
       (compare_optional_f64 (map_option throughput_tokens_per_second (c_measurements l))
          (map_option throughput_tokens_per_second (c_measurements r)))
       (compare_priority r l)"

fun compare_seconds :: "f64 option \<Rightarrow> f64 option \<Rightarrow> ordering" where
  "compare_seconds (Some l) (Some r) = f64_total_cmp l r"
| "compare_seconds (Some _) None = Less"
| "compare_seconds None (Some _) = Greater"
| "compare_seconds None None = Equal"

definition compare_latency :: "'d candidate \<Rightarrow> 'd candidate \<Rightarrow> ordering" where
  "compare_latency l r =
     then_with
       (compare_seconds (map_option time_to_first_token_seconds (c_measurements l))
          (map_option time_to_first_token_seconds (c_measurements r)))
       (compare_priority l r)"

definition candidate_weight ::
  "'d policy_config \<Rightarrow> 'd candidate option \<Rightarrow> 'd candidate \<Rightarrow> f64" where
  "candidate_weight config incumbent c =
     (case throughput c of
        None \<Rightarrow> f64_lit 0
      | Some candidate_throughput \<Rightarrow>
          (case Option.bind incumbent throughput of
             None \<Rightarrow> candidate_throughput
           | Some incumbent_throughput \<Rightarrow>
               if is_some_and (\<lambda>i. c_provider_id i \<noteq> c_provider_id c) incumbent \<and>
                  f64_lt incumbent_throughput candidate_throughput \<and>
                  f64_le candidate_throughput
                    (f64_add incumbent_throughput
                       (f64_mul incumbent_throughput (hysteresis_fraction config)))
               then incumbent_throughput else candidate_throughput))"

definition default_eligible ::
  "'d decimal_ops \<Rightarrow> 'd candidate list \<Rightarrow> 'd policy_config \<Rightarrow> share_tracker \<Rightarrow>
   'd candidate list panics" where
  "default_eligible D candidates config recent_share =
     filter_panics
       (\<lambda>c. if d_le D (c_combined_price c) (combined_price_ceiling_per_mtok config)
            then allows_next D recent_share (c_provider_id c) (max_share config) else Some False)
       (healthy candidates)"

definition select_default ::
  "'d decimal_ops \<Rightarrow> 'r rand_ops \<Rightarrow> 'd candidate list \<Rightarrow> 'd policy_config \<Rightarrow> share_tracker \<Rightarrow> 'r \<Rightarrow>
   ('d candidate option \<times> 'r) panics" where
  "select_default D R candidates config recent_share rng =
     do { eligible \<leftarrow> default_eligible D candidates config recent_share;
          let incumbent = Option.bind (incumbent_provider_id recent_share)
                (\<lambda>provider_id. find (\<lambda>c. c_provider_id c = provider_id) eligible);
              weights = map (candidate_weight config incumbent) eligible;
              (picked, rng') = weighted_pick R eligible weights rng
          in Some (or_else picked (strict_priority eligible), rng') }"

definition select_balanced ::
  "'d decimal_ops \<Rightarrow> 'r rand_ops \<Rightarrow> 'd candidate list \<Rightarrow> 'r \<Rightarrow> ('d candidate option \<times> 'r) panics" where
  "select_balanced D R candidates rng =
     (let up = healthy candidates;
          free = filter (\<lambda>c. d_is_zero D (c_combined_price c)) up in
      if free \<noteq> [] then Some (weighted_pick R free (replicate (length free) (f64_lit 1)) rng)
      else case min_by (d_cmp D) (map c_combined_price up) of
          None \<Rightarrow> Some (None, rng)
        | Some cheapest \<Rightarrow>
            do { ratios \<leftarrow> map_panics
                   (\<lambda>c. do { quotient \<leftarrow> d_checked_div D cheapest (c_combined_price c);
                             d_to_f64 D quotient }) up;
                 Some (weighted_pick R up (map (\<lambda>ratio. f64_mul ratio ratio) ratios) rng) })"

definition select_route ::
  "'d decimal_ops \<Rightarrow> 'r rand_ops \<Rightarrow> 'd candidate list \<Rightarrow> preference \<Rightarrow> 'd policy_config \<Rightarrow>
   share_tracker \<Rightarrow> 'r \<Rightarrow> ('d candidate option \<times> 'r) panics" where
  "select_route D R candidates preference config recent_share rng =
     (case preference of
        Default \<Rightarrow> select_default D R candidates config recent_share rng
      | Balanced \<Rightarrow> select_balanced D R candidates rng
      | Price \<Rightarrow> Some (min_by (compare_price D) (healthy candidates), rng)
      | Throughput \<Rightarrow> Some (max_by compare_throughput (healthy candidates), rng)
      | Latency \<Rightarrow> Some (min_by compare_latency (healthy candidates), rng))"

section \<open>The window behind the share tracker\<close>

text \<open>The contract of a rolling window: a recording keeps the last \<open>cap\<close> entries and counts are
  the multiplicities in it.\<close>

locale traffic_window =
  fixes record_entry :: "'t \<Rightarrow> 'k \<Rightarrow> 't panics"
    and count :: "'t \<Rightarrow> 'k \<Rightarrow> nat"
    and window :: "'t \<Rightarrow> 'k list"
    and cap :: "'t \<Rightarrow> nat"
    and ok :: "'t \<Rightarrow> bool"
  assumes count_window: "ok t \<Longrightarrow> count t k = count_list (window t) k"
    and window_le: "ok t \<Longrightarrow> length (window t) \<le> cap t"
    and cap_pos: "ok t \<Longrightarrow> 0 < cap t"
    and record_entry_window: "ok t \<Longrightarrow> \<exists>t'. record_entry t k = Some t' \<and> ok t' \<and> cap t' = cap t \<and>
      window t' = drop (length (window t) + 1 - cap t) (window t @ [k])"
begin

fun record_all :: "'t \<Rightarrow> 'k list \<Rightarrow> 't panics" where
  "record_all t [] = Some t"
| "record_all t (k # ks) = Option.bind (record_entry t k) (\<lambda>t'. record_all t' ks)"

lemma record_all_window:
  "ok t \<Longrightarrow> \<exists>t'. record_all t ks = Some t' \<and> ok t' \<and> cap t' = cap t \<and>
     window t' = drop (length (window t) + length ks - cap t) (window t @ ks)"
proof (induction ks arbitrary: t)
  case (Cons k ks)
  obtain t1 where t1: "record_entry t k = Some t1" "ok t1" "cap t1 = cap t"
      "window t1 = drop (length (window t) + 1 - cap t) (window t @ [k])"
    using record_entry_window [OF Cons.prems] by blast
  obtain t2 where t2: "record_all t1 ks = Some t2" "ok t2" "cap t2 = cap t1"
      "window t2 = drop (length (window t1) + length ks - cap t1) (window t1 @ ks)"
    using Cons.IH [OF t1(2)] by blast
  have "window t2 = drop (length (window t) + length (k # ks) - cap t) (window t @ k # ks)"
  proof (cases "length (window t) + 1 \<le> cap t")
    case True
    then show ?thesis using t1 t2 by simp
  next
    case False
    then have full: "length (window t) = cap t" using window_le [OF Cons.prems] by simp
    then obtain x rest where w: "window t = x # rest" using cap_pos [OF Cons.prems] by (cases "window t") auto
    have "window t1 = rest @ [k]" using t1(4) full w by simp
    moreover have "cap t = Suc (length rest)" using full w by simp
    ultimately show ?thesis using t1 t2 w by simp
  qed
  with t1 t2 show ?case by auto
qed (use window_le in force)

lemma record_entry_length:
  assumes "ok t" "record_entry t k = Some t'"
  shows "length (window t') = min (length (window t) + 1) (cap t)"
  using record_entry_window [OF assms(1), of k] window_le [OF assms(1)] assms(2) by auto

text \<open>What the next entry's count would be, without recording it.\<close>

lemma count_after_record:
  assumes "ok t" "record_entry t k = Some t'"
  shows "count t' k = count t k + 1 -
    (if length (window t) = cap t \<and> window t \<noteq> [] \<and> hd (window t) = k then 1 else 0)"
proof -
  have t': "ok t'" "window t' = drop (length (window t) + 1 - cap t) (window t @ [k])"
    using record_entry_window [OF assms(1), of k] assms(2) by auto
  show ?thesis
  proof (cases "length (window t) = cap t")
    case True
    then obtain x rest where "window t = x # rest" using cap_pos [OF assms(1)] by (cases "window t") auto
    with t' True show ?thesis by (simp add: count_window assms(1))
  next
    case False
    then have "length (window t) + 1 - cap t = 0" using window_le [OF assms(1)] by simp
    with t' False show ?thesis by (simp add: count_window assms(1))
  qed
qed

end

definition tracker_ok :: "share_tracker \<Rightarrow> bool" where
  "tracker_ok t \<longleftrightarrow>
     0 < capacity t \<and> length (history t) \<le> capacity t \<and> bm_wf (counts t) \<and>
     (\<forall>p. bm_get p (counts t) =
       (if count_list (history t) p = 0 then None else Some (count_list (history t) p)))"

lemma share_tracker_new_ok: "share_tracker_new cap = Ok t \<Longrightarrow> tracker_ok t"
  by (auto simp: share_tracker_new_def tracker_ok_def split: if_splits)

lemma share_count_history: "tracker_ok t \<Longrightarrow> share_count t p = count_list (history t) p"
  by (auto simp: share_count_def tracker_ok_def)

lemma expire_oldest_ok:
  assumes "tracker_ok t"
  shows "\<exists>t1. expire_oldest t = Some t1 \<and> tracker_ok t1 \<and> capacity t1 = capacity t \<and>
    history t1 = drop (length (history t) + 1 - capacity t) (history t) \<and>
    length (history t1) < capacity t1"
proof (cases "length (history t) = capacity t")
  case True
  then obtain e rest where h: "history t = e # rest" using assms by (cases "history t") (auto simp: tracker_ok_def)
  then have e: "bm_get e (counts t) = Some (count_list rest e + 1)"
    using assms by (simp add: tracker_ok_def)
  show ?thesis
    using assms True h e
    by (auto simp: expire_oldest_def tracker_ok_def Let_def bm_get_insert bm_get_remove
        intro: bm_wf_insert bm_wf_remove)
next
  case False
  then show ?thesis using assms by (auto simp: expire_oldest_def tracker_ok_def)
qed

interpretation tracker: traffic_window record_share share_count history capacity tracker_ok
proof
  fix t k
  assume ok: "tracker_ok t"
  show "share_count t k = count_list (history t) k" by (rule share_count_history [OF ok])
  show "length (history t) \<le> capacity t" "0 < capacity t" using ok by (simp_all add: tracker_ok_def)
  obtain t1 where t1: "expire_oldest t = Some t1" "tracker_ok t1" "capacity t1 = capacity t"
      "history t1 = drop (length (history t) + 1 - capacity t) (history t)"
      "length (history t1) < capacity t1"
    using expire_oldest_ok [OF ok] by blast
  define t' where "t' = t1\<lparr>counts := bm_insert k (unwrap_or 0 (bm_get k (counts t1)) + 1) (counts t1),
    history := history t1 @ [k]\<rparr>"
  have "record_share t k = Some t'" using t1(1) by (simp add: record_share_def t'_def)
  moreover have "tracker_ok t'"
    using t1(2,5) by (auto simp: t'_def tracker_ok_def bm_get_insert intro: bm_wf_insert)
  moreover have "history t' = drop (length (history t) + 1 - capacity t) (history t @ [k])"
    using t1(4) \<open>length (history t) \<le> capacity t\<close> \<open>0 < capacity t\<close> by (simp add: t'_def)
  ultimately show "\<exists>t'. record_share t k = Some t' \<and> tracker_ok t' \<and> capacity t' = capacity t \<and>
      history t' = drop (length (history t) + 1 - capacity t) (history t @ [k])"
    using t1(3) by (auto simp: t'_def)
qed

section \<open>The orders\<close>

lemma priority_order: "cmp_order compare_priority"
  unfolding compare_priority_def by (intro cmp_order_then cmp_order_key)

interpretation priority: cmp_order compare_priority
  by (rule priority_order)

lemma compare_price_order: "decimal_laws D \<Longrightarrow> cmp_order (compare_price D)"
proof -
  assume "decimal_laws D"
  then have "(\<lambda>l r. d_cmp D (c_combined_price l) (c_combined_price r)) =
      (\<lambda>l r :: ('a, 'b) candidate_scheme.
         cmp_of (d_val D (c_combined_price l)) (d_val D (c_combined_price r)))"
    by (simp add: fun_eq_iff d_cmp_val)
  then show ?thesis
    unfolding compare_price_def
    using cmp_order_then [OF cmp_order_key [of "\<lambda>l. d_val D (c_combined_price l)"] priority_order]
    by (metis (no_types, lifting) ext)
qed

text \<open>A missing measurement is below (throughput) or above (latency) every measured one.\<close>

definition throughput_key :: "f64 option \<Rightarrow> int \<times> int \<times> rat \<times> int" where
  "throughput_key x = (case x of None \<Rightarrow> (0, 0, 0, 0) | Some t \<Rightarrow> (1, f64_total_key t))"

definition latency_key :: "f64 option \<Rightarrow> int \<times> int \<times> rat \<times> int" where
  "latency_key x = (case x of None \<Rightarrow> (1, 0, 0, 0) | Some t \<Rightarrow> (0, f64_total_key t))"

lemma compare_optional_f64_key: "compare_optional_f64 l r = cmp_of (throughput_key l) (throughput_key r)"
  by (cases l; cases r) (auto simp: throughput_key_def f64_total_cmp_def cmp_of_def)

lemma compare_seconds_key: "compare_seconds l r = cmp_of (latency_key l) (latency_key r)"
  by (cases l; cases r) (auto simp: latency_key_def f64_total_cmp_def cmp_of_def)

interpretation fastest: cmp_order compare_throughput
  unfolding compare_throughput_def compare_optional_f64_key
  by (intro cmp_order_then cmp_order_key cmp_order_reverse [OF priority_order])

interpretation latency: cmp_order compare_latency
  unfolding compare_latency_def compare_seconds_key
  by (intro cmp_order_then cmp_order_key priority_order)

section \<open>What selection picks\<close>

lemma weighted_pick_mem:
  assumes "weighted_pick R candidates weights rng = (Some c, rng')"
  shows "c \<in> set candidates"
  using assms by (auto simp: weighted_pick_def Let_def split: if_splits option.splits prod.splits)

lemma strict_priority_mem: "strict_priority cs = Some c \<Longrightarrow> c \<in> set cs"
  by (simp add: strict_priority_def min_by_mem)

lemma default_eligible_mem:
  assumes "default_eligible D candidates config t = Some eligible"
  shows "set eligible = {c \<in> set candidates. c_healthy c \<and>
    d_le D (c_combined_price c) (combined_price_ceiling_per_mtok config) \<and>
    allows_next D t (c_provider_id c) (max_share config) = Some True}"
  using filter_panics_SomeD [OF assms [unfolded default_eligible_def]]
  by (auto simp: healthy_def split: if_splits)

lemma select_default_mem:
  assumes "select_default D R candidates config t rng = Some (Some c, rng')"
    and "default_eligible D candidates config t = Some eligible"
  shows "c \<in> set eligible"
  using assms by (auto simp: select_default_def Let_def or_else_def
      split: prod.splits option.splits dest: weighted_pick_mem strict_priority_mem)

lemma select_balanced_mem:
  assumes "select_balanced D R candidates rng = Some (Some c, rng')"
  shows "c \<in> set (healthy candidates)"
proof -
  have "c \<in> set (filter (\<lambda>c. d_is_zero D (c_combined_price c)) (healthy candidates)) \<or>
      c \<in> set (healthy candidates)"
    using assms
    by (auto simp: select_balanced_def Let_def bind_eq_Some_conv simp del: set_filter
        split: if_splits option.splits dest!: weighted_pick_mem)
  then show ?thesis by auto
qed

text \<open>What a preference asks of the selected candidate.\<close>

definition acceptable ::
  "'d decimal_ops \<Rightarrow> preference \<Rightarrow> 'd policy_config \<Rightarrow> share_tracker \<Rightarrow> 'd candidate list \<Rightarrow>
   'd candidate \<Rightarrow> bool" where
  "acceptable D preference config t candidates c \<longleftrightarrow>
     c \<in> set candidates \<and> c_healthy c \<and>
     (case preference of
        Default \<Rightarrow>
          d_le D (c_combined_price c) (combined_price_ceiling_per_mtok config) \<and>
          allows_next D t (c_provider_id c) (max_share config) = Some True
      | Balanced \<Rightarrow> True
      | Price \<Rightarrow> \<forall>other \<in> set (healthy candidates). compare_price D c other \<noteq> Greater
      | Throughput \<Rightarrow> \<forall>other \<in> set (healthy candidates). compare_throughput other c \<noteq> Greater
      | Latency \<Rightarrow> \<forall>other \<in> set (healthy candidates). compare_latency c other \<noteq> Greater)"

lemma select_route_acceptable_lemma:
  assumes "decimal_laws D"
    and "select_route D R candidates preference config t rng = Some (Some c, rng')"
  shows "acceptable D preference config t candidates c"
proof (cases preference)
  case Default
  then obtain eligible where e: "default_eligible D candidates config t = Some eligible"
    using assms(2) by (auto simp: select_route_def select_default_def bind_eq_Some_conv)
  have "select_default D R candidates config t rng = Some (Some c, rng')"
    using assms(2) Default by (simp add: select_route_def)
  from select_default_mem [OF this e] default_eligible_mem [OF e] Default
  show ?thesis by (simp add: acceptable_def)
next
  case Balanced
  with assms(2) select_balanced_mem show ?thesis
    by (fastforce simp: select_route_def acceptable_def healthy_def)
next
  case Price
  then have m: "min_by (compare_price D) (healthy candidates) = Some c"
    using assms(2) by (simp add: select_route_def)
  from min_by_mem [OF m] cmp_order.min_by_least [OF compare_price_order [OF assms(1)] m] Price
  show ?thesis by (auto simp: acceptable_def healthy_def)
next
  case Throughput
  then have m: "max_by compare_throughput (healthy candidates) = Some c"
    using assms(2) by (simp add: select_route_def)
  from max_by_mem [OF m] fastest.max_by_greatest [OF m] Throughput
  show ?thesis by (auto simp: acceptable_def healthy_def)
next
  case Latency
  then have m: "min_by compare_latency (healthy candidates) = Some c"
    using assms(2) by (simp add: select_route_def)
  from min_by_mem [OF m] latency.min_by_least [OF m] Latency
  show ?thesis by (auto simp: acceptable_def healthy_def)
qed

definition example_rand :: "nat rand_ops" where
  "example_rand =
     \<lparr>weighted_index = (\<lambda>ws. case find (\<lambda>i. f64_lt (f64_lit 0) (ws ! i)) [0..<length ws] of
        None \<Rightarrow> None | Some i \<Rightarrow> Some (\<lambda>r. (i, r + 1))),
      seed_from_u64 = (\<lambda>n. n)\<rparr>"

lemma example_rand_laws: "rand_laws example_rand"
proof -
  have "fst (sample r) < length ws \<and> f64_lt (f64_lit 0) (ws ! fst (sample r))"
    if "weighted_index example_rand ws = Some sample" for ws sample r
    using that by (auto simp: example_rand_def find_Some_iff split: option.splits)
  moreover have "weighted_index example_rand ws \<noteq> None"
    if "w \<in> set ws" "f64_lt (f64_lit 0) w" for ws w
  proof -
    from that obtain i where "i < length ws" "f64_lt (f64_lit 0) (ws ! i)"
      by (auto simp: in_set_conv_nth)
    then have "find (\<lambda>i. f64_lt (f64_lit 0) (ws ! i)) [0..<length ws] \<noteq> None"
      by (auto simp: find_None_iff)
    then show ?thesis by (auto simp: example_rand_def split: option.splits)
  qed
  ultimately show ?thesis by (auto simp: rand_laws_def)
qed

definition example_candidate :: "string \<Rightarrow> rat \<Rightarrow> u8 \<Rightarrow> rat candidate" where
  "example_candidate provider_id price priority =
     \<lparr>c_provider_id = provider_id, c_combined_price = price, c_priority = priority,
      c_measurements = None, c_healthy = True\<rparr>"

definition example_config :: "rat policy_config" where
  "example_config =
     \<lparr>combined_price_ceiling_per_mtok = 10, hysteresis_fraction = f64_lit 0, max_share = 1\<rparr>"

definition example_tracker :: share_tracker where
  "example_tracker = \<lparr>capacity = 2, history = [], counts = []\<rparr>"

section \<open>When selection finds a route\<close>

text \<open>Selection by price, throughput or latency finds a route exactly when some candidate is
  healthy, and default selection exactly when some healthy candidate is within the price
  ceiling and has traffic share left: a failed weighted draw falls back to strict priority.\<close>

lemma select_route_complete:
  assumes "select_route D R candidates preference config t rng = Some (picked, rng')"
    and "preference \<noteq> Balanced"
  shows "picked = None \<longleftrightarrow>
    (if preference = Default then default_eligible D candidates config t = Some []
     else healthy candidates = [])"
proof (cases preference)
  case Default
  then obtain eligible where e: "default_eligible D candidates config t = Some eligible"
    using assms(1) by (auto simp: select_route_def select_default_def bind_eq_Some_conv)
  show ?thesis
  proof (cases "eligible = []")
    case True
    have none: "fst (weighted_pick R ([] :: 'a candidate list) [] rng) = None"
      by (simp add: weighted_pick_def f64_le_def)
        (simp add: f64_lit_def f64_round_def f64_max_mag_def)
    with Default e True assms(1) show ?thesis
      by (auto simp: select_route_def select_default_def Let_def strict_priority_def min_by_def
          split: prod.splits)
  next
    case False
    then have "strict_priority eligible \<noteq> None" by (simp add: strict_priority_def)
    with Default e False assms(1) show ?thesis
      by (auto simp: select_route_def select_default_def Let_def or_else_def
          split: prod.splits option.splits)
  qed
qed (use assms in \<open>auto simp: select_route_def\<close>)

section \<open>The traffic share is capped\<close>

lemma allows_next_quota:
  assumes laws: "decimal_laws D" and t: "tracker_ok t" "capacity t < 2 ^ 64"
    and "allows_next D t p m = Some True" "record_share t p = Some t'"
    and m: "0 \<le> d_val D m" "d_val D m \<le> 1"
  shows "int (share_count t' p) \<le> \<lceil>d_val D m * of_nat (length (history t'))\<rceil>"
proof -
  define n where "n = length (history t')"
  have n: "n = min (length (history t) + 1) (capacity t)"
    unfolding n_def by (rule tracker.record_entry_length [OF t(1) assms(5)])
  then have "n < 2 ^ 64" using t(2) by simp
  note nv = d_of_nat_val [OF laws this]
  have next_count: "share_count t' p = share_count t p + 1 -
      (if length (history t) = capacity t \<and> is_some_and (\<lambda>expired. expired = p)
         (case history t of [] \<Rightarrow> None | oldest # _ \<Rightarrow> Some oldest) then 1 else 0)"
    using tracker.count_after_record [OF t(1) assms(5)] by (cases "history t") auto
  obtain product quota where product: "d_checked_mul D m (d_of_nat D n) = Some product"
    and quota: "d_to_usize D (d_ceil D product) = Some quota" "share_count t' p \<le> quota"
    using assms(4) unfolding next_count
    by (auto simp: allows_next_def Let_def n bind_eq_Some_conv)
  have mul: "dec_result D (d_val D m * of_nat n) (Some product)"
    using d_mul_result [OF laws, of m "d_of_nat D n"] product nv by simp
  have rep: "dec_representable (of_int k)" if "0 \<le> k" "k \<le> 2 ^ 64" for k
    using that by (intro dec_representable_int) auto
  let ?k = "\<lceil>d_val D m * of_nat n\<rceil>"
  have exact_le: "d_val D m * of_nat n \<le> of_nat n"
    using m by (simp add: mult_left_le_one_le)
  have "0 \<le> d_val D m * of_nat n" using m by simp
  then have k: "0 \<le> ?k" "?k \<le> int n"
    using exact_le by (auto simp: ceiling_le_iff zero_le_ceiling simp del: zero_le_mult_iff)
  have n64: "int n < 2 ^ 64" using \<open>n < 2 ^ 64\<close> by simp
  then have "?k \<le> 2 ^ 64" using k by linarith
  then have "d_val D product \<le> of_int ?k"
    by (intro dec_result_le [OF mul rep [OF k(1)]]) (simp_all only: le_of_int_ceiling)
  moreover have "0 \<le> d_val D product" using dec_result_nonneg [OF mul] m by simp
  ultimately have c: "0 \<le> \<lceil>d_val D product\<rceil>" "\<lceil>d_val D product\<rceil> \<le> ?k"
    by (auto simp: ceiling_le_iff zero_le_ceiling)
  have "d_val D (d_ceil D product) = of_int \<lceil>d_val D product\<rceil>" by (rule d_ceil_val [OF laws])
  moreover have "(of_int \<lceil>d_val D product\<rceil> :: rat) < 2 ^ 64"
  proof -
    have "\<lceil>d_val D product\<rceil> < 2 ^ 64" using c k n64 by linarith
    then have "(of_int \<lceil>d_val D product\<rceil> :: rat) < of_int (2 ^ 64)" by (simp only: of_int_less_iff)
    then show ?thesis by simp
  qed
  ultimately have "quota = nat \<lceil>d_val D product\<rceil>"
    using d_to_usize_val [OF laws, of "d_ceil D product"] quota(1) c(1) by simp
  then have "int (share_count t' p) \<le> ?k" using quota(2) c by linarith
  then show ?thesis unfolding n_def .
qed

text \<open>C29: The share cap: when the default selection picks a provider and the pick is recorded,
  that provider's entries in the rolling window number at most the configured maximum share of
  the window, rounded up.\<close>

theorem default_selection_respects_share_cap:
  assumes "decimal_laws D" "tracker_ok t" "capacity t < 2 ^ 64"
    and "0 \<le> d_val D (max_share config)" "d_val D (max_share config) \<le> 1"
    and "select_route D R candidates Default config t rng = Some (Some c, rng')"
    and "record_share t (c_provider_id c) = Some t'"
  shows "int (share_count t' (c_provider_id c)) \<le>
    \<lceil>d_val D (max_share config) * of_nat (length (history t'))\<rceil>"
proof -
  have "allows_next D t (c_provider_id c) (max_share config) = Some True"
    using select_route_acceptable_lemma [OF assms(1,6)] by (simp add: acceptable_def)
  from allows_next_quota [OF assms(1-3) this assms(7,4,5)] show ?thesis .
qed

theorem default_selection_respects_share_cap_witness:
  "\<exists>t'. record_share example_tracker ''a'' = Some t' \<and>
     int (share_count t' ''a'') \<le> \<lceil>1 * rat_of_nat (length (history t'))\<rceil>"
proof -
  have t: "tracker_ok example_tracker" "capacity example_tracker < 2 ^ 64"
    by (simp_all add: tracker_ok_def example_tracker_def)
  obtain t' where t': "record_share example_tracker ''a'' = Some t'"
    using tracker.record_entry_window [OF t(1), of "''a''"] by blast
  have pick: "select_route bounded_decimal example_rand [example_candidate ''a'' 1 1] Default
      example_config example_tracker 0 = Some (Some (example_candidate ''a'' 1 1), 0)"
    by (simp add: select_route_def select_default_def default_eligible_def healthy_def
        example_candidate_def example_config_def example_tracker_def d_le_def allows_next_def
        incumbent_provider_id_def bm_values_def share_count_def candidate_weight_def throughput_def
        option_filter_def weighted_pick_def strict_priority_def min_by_def)
      (simp add: bounded_decimal_def bounded_def dec_max_def cmp_of_def f64_lit_def f64_round_def
        f64_max_mag_def f64_max_def f64_le_def candidate_weight_def throughput_def option_filter_def)
  from default_selection_respects_share_cap [OF bounded_decimal_laws t _ _ pick, of t'] t'
  show ?thesis by (simp add: bounded_decimal_def example_config_def example_candidate_def)
qed

section \<open>What each preference promises\<close>

text \<open>A measured candidate goes before an unmeasured one, of two measured ones the better goes
  first, and \<open>tie\<close> decides the rest.\<close>

definition goes_before :: "(f64 \<Rightarrow> f64 \<Rightarrow> bool) \<Rightarrow> f64 option \<Rightarrow> f64 option \<Rightarrow> bool \<Rightarrow> bool" where
  "goes_before better x y tie \<longleftrightarrow>
     (case (x, y) of
        (Some a, Some b) \<Rightarrow> better a b \<or> f64_total_cmp a b = Equal \<and> tie
      | (Some _, None) \<Rightarrow> True
      | (None, Some _) \<Rightarrow> False
      | (None, None) \<Rightarrow> tie)"

text \<open>The candidate the random draw hits, with the weights scaled to at most one.\<close>

definition drawn :: "'r rand_ops \<Rightarrow> 'd candidate list \<Rightarrow> f64 list \<Rightarrow> 'r \<Rightarrow> 'd candidate \<Rightarrow> bool" where
  "drawn R candidates weights rng c \<longleftrightarrow>
     (\<exists>sample. weighted_index R
        (map (\<lambda>weight. f64_div weight (fold (\<lambda>w acc. f64_max acc w) weights (f64_lit 0))) weights) = Some sample \<and>
        fst (sample rng) < length candidates \<and> candidates ! fst (sample rng) = c)"

text \<open>Balanced selection: evenly among the free routes when there are any, else with weights
  inversely proportional to the square of the price.\<close>

definition balanced_draw ::
  "'d decimal_ops \<Rightarrow> 'r rand_ops \<Rightarrow> 'd candidate list \<Rightarrow> 'r \<Rightarrow> 'd candidate \<Rightarrow> bool" where
  "balanced_draw D R up rng c \<longleftrightarrow>
     (let free = filter (\<lambda>c. d_val D (c_combined_price c) = 0) up in
      if free \<noteq> [] then drawn R free (replicate (length free) (f64_lit 1)) rng c
      else \<exists>cheapest ratios. cheapest \<in> c_combined_price ` set up \<and>
        (\<forall>other \<in> set up. d_val D cheapest \<le> d_val D (c_combined_price other)) \<and>
        list_all2 (\<lambda>other ratio. \<exists>q. d_checked_div D cheapest (c_combined_price other) = Some q \<and>
          d_to_f64 D q = Some ratio) up ratios \<and>
        drawn R up (map (\<lambda>ratio. f64_mul ratio ratio) ratios) rng c)"

lemma weighted_pick_drawn:
  "weighted_pick R candidates weights rng = (Some c, rng') \<Longrightarrow> drawn R candidates weights rng c"
  by (auto simp: weighted_pick_def drawn_def Let_def split: if_splits option.splits prod.splits)

lemma no_weight: "\<not> f64_lt (f64_lit 0) (f64_div (f64_lit 0) x)"
  by (cases x) (auto simp: f64_lit_def f64_round_def f64_max_mag_def Let_def)

lemma drawn_weight:
  assumes "rand_laws R" "drawn R cs (map weight cs) rng c"
  shows "weight c \<noteq> f64_lit 0"
proof
  assume none: "weight c = f64_lit 0"
  obtain sample where sample: "weighted_index R
      (map (\<lambda>w. f64_div w (fold (\<lambda>w acc. f64_max acc w) (map weight cs) (f64_lit 0))) (map weight cs)) = Some sample"
    and c: "fst (sample rng) < length cs" "cs ! fst (sample rng) = c"
    using assms(2) unfolding drawn_def by blast
  from assms(1) sample have "f64_lt (f64_lit 0)
      (map (\<lambda>w. f64_div w (fold (\<lambda>w acc. f64_max acc w) (map weight cs) (f64_lit 0))) (map weight cs)
        ! fst (sample rng))"
    unfolding rand_laws_def by blast
  with c none no_weight show False by simp
qed

lemma select_default_rank:
  assumes "select_default D R candidates config t rng = Some (Some c, rng')"
    and "default_eligible D candidates config t = Some eligible" and "rand_laws R"
  shows "(\<exists>m. c_measurements c = Some m \<and> f64_lt (f64_lit 0) (throughput_tokens_per_second m)) \<or>
    (\<forall>other \<in> set eligible. (c_priority c, c_provider_id c) \<le> (c_priority other, c_provider_id other))"
proof -
  let ?incumbent = "Option.bind (incumbent_provider_id t)
      (\<lambda>provider_id. find (\<lambda>c. c_provider_id c = provider_id) eligible)"
  let ?weight = "candidate_weight config ?incumbent"
  obtain picked where pick: "weighted_pick R eligible (map ?weight eligible) rng = (picked, rng')"
    and c: "or_else picked (strict_priority eligible) = Some c"
    using assms(1,2) by (auto simp: select_default_def Let_def split: prod.splits)
  show ?thesis
  proof (cases picked)
    case None
    then have "min_by compare_priority eligible = Some c"
      using c by (simp add: or_else_def strict_priority_def)
    from priority.min_by_least [OF this] show ?thesis
      by (fastforce simp: compare_priority_def not_less order_le_less)
  next
    case (Some c')
    then have "drawn R eligible (map ?weight eligible) rng c"
      using weighted_pick_drawn pick c by (fastforce simp: or_else_def)
    from drawn_weight [OF assms(3) this] show ?thesis
      by (auto simp: candidate_weight_def throughput_def option_filter_def split: option.splits if_splits)
  qed
qed

lemma select_balanced_draw:
  assumes laws: "decimal_laws D" and "select_balanced D R candidates rng = Some (Some c, rng')"
  shows "balanced_draw D R (healthy candidates) rng c"
proof -
  let ?up = "healthy candidates"
  have free: "filter (\<lambda>c. d_is_zero D (c_combined_price c)) ?up = filter (\<lambda>c. d_val D (c_combined_price c) = 0) ?up"
    by (simp add: d_is_zero_val [OF laws])
  show ?thesis
  proof (cases "filter (\<lambda>c. d_is_zero D (c_combined_price c)) ?up = []")
    case False
    then show ?thesis
      using assms(2) weighted_pick_drawn by (fastforce simp: select_balanced_def balanced_draw_def Let_def free)
  next
    case True
    then obtain cheapest where cheapest: "min_by (d_cmp D) (map c_combined_price ?up) = Some cheapest"
      using assms(2) by (cases "min_by (d_cmp D) (map c_combined_price ?up)") (auto simp: select_balanced_def)
    with True assms(2) obtain ratios where
      ratios: "map_panics (\<lambda>c. Option.bind (d_checked_div D cheapest (c_combined_price c)) (d_to_f64 D)) ?up
        = Some ratios"
      and pick: "weighted_pick R ?up (map (\<lambda>ratio. f64_mul ratio ratio) ratios) rng = (Some c, rng')"
      by (auto simp: select_balanced_def Let_def bind_eq_Some_conv)
    have "list_all2 (\<lambda>other ratio. \<exists>q. d_checked_div D cheapest (c_combined_price other) = Some q \<and>
        d_to_f64 D q = Some ratio) ?up ratios"
      using map_panics_nth [OF ratios] map_panics_length [OF ratios]
      by (auto simp: list_all2_conv_all_nth bind_eq_Some_conv)
    moreover have "\<forall>other \<in> set ?up. d_val D cheapest \<le> d_val D (c_combined_price other)"
      using cmp_order.min_by_least [OF d_cmp_order [OF laws] cheapest]
      by (auto simp: d_cmp_val [OF laws] not_less)
    moreover have "cheapest \<in> c_combined_price ` set ?up" using min_by_mem [OF cheapest] by simp
    ultimately show ?thesis
      using True weighted_pick_drawn [OF pick] by (auto simp: balanced_draw_def Let_def free)
  qed
qed

text \<open>C28: A selected candidate is a healthy one of the given candidates, and the best under the
  preference. By price, no healthy candidate is cheaper; by throughput, every measured healthy
  candidate is at most as fast, and by latency none has a smaller time to first token, where an
  unmeasured candidate never wins against a measured one; ties go to the smaller priority number
  and then the smaller provider id. Balanced draws evenly among the free healthy candidates when
  there are any, else with weights inversely proportional to the square of the price. By default
  the price is within the ceiling, one more request stays within the provider's share of the
  window, rounded up, and the candidate has a measured throughput or else comes first, by priority
  and provider id, of all candidates that could have been taken.\<close>

theorem select_route_acceptable:
  assumes "decimal_laws D" and "rand_laws R"
    and "select_route D R candidates preference config t rng = Some (Some c, rng')"
    and "tracker_ok t" "capacity t < 2 ^ 64" "0 \<le> d_val D (max_share config)" "d_val D (max_share config) \<le> 1"
  shows "c \<in> set candidates \<and> c_healthy c \<and>
    (case preference of
       Default \<Rightarrow>
         d_val D (c_combined_price c) \<le> d_val D (combined_price_ceiling_per_mtok config) \<and>
         (let window = drop (length (history t) + 1 - capacity t) (history t @ [c_provider_id c])
          in int (count_list window (c_provider_id c)) \<le> \<lceil>d_val D (max_share config) * of_nat (length window)\<rceil>) \<and>
         ((\<exists>m. c_measurements c = Some m \<and> f64_lt (f64_lit 0) (throughput_tokens_per_second m)) \<or>
          (\<forall>other \<in> set candidates. c_healthy other \<and>
             d_val D (c_combined_price other) \<le> d_val D (combined_price_ceiling_per_mtok config) \<and>
             allows_next D t (c_provider_id other) (max_share config) = Some True \<longrightarrow>
             (c_priority c, c_provider_id c) \<le> (c_priority other, c_provider_id other)))
     | Balanced \<Rightarrow> balanced_draw D R (filter c_healthy candidates) rng c
     | Price \<Rightarrow> \<forall>other \<in> set candidates. c_healthy other \<longrightarrow>
         (d_val D (c_combined_price c), c_priority c, c_provider_id c) \<le>
         (d_val D (c_combined_price other), c_priority other, c_provider_id other)
     | Throughput \<Rightarrow> \<forall>other \<in> set candidates. c_healthy other \<longrightarrow>
         goes_before (\<lambda>a b. f64_total_cmp a b = Greater)
           (map_option throughput_tokens_per_second (c_measurements c))
           (map_option throughput_tokens_per_second (c_measurements other))
           ((c_priority c, c_provider_id c) \<le> (c_priority other, c_provider_id other))
     | Latency \<Rightarrow> \<forall>other \<in> set candidates. c_healthy other \<longrightarrow>
         goes_before (\<lambda>a b. f64_total_cmp a b = Less)
           (map_option time_to_first_token_seconds (c_measurements c))
           (map_option time_to_first_token_seconds (c_measurements other))
           ((c_priority c, c_provider_id c) \<le> (c_priority other, c_provider_id other)))"
proof -
  note acc = select_route_acceptable_lemma [OF assms(1,3)]
  have member: "c \<in> set candidates \<and> c_healthy c" using acc by (simp add: acceptable_def)
  show ?thesis
  proof (cases preference)
    case Default
    then obtain eligible where e: "default_eligible D candidates config t = Some eligible"
      using assms(3) by (auto simp: select_route_def select_default_def bind_eq_Some_conv)
    have "select_default D R candidates config t rng = Some (Some c, rng')"
      using assms(3) Default by (simp add: select_route_def)
    note rank = select_default_rank [OF this e assms(2)]
    have room: "allows_next D t (c_provider_id c) (max_share config) = Some True"
      and price: "d_val D (c_combined_price c) \<le> d_val D (combined_price_ceiling_per_mtok config)"
      using acc Default by (simp_all add: acceptable_def d_le_val [OF assms(1)])
    obtain t' where t': "record_share t (c_provider_id c) = Some t'" "tracker_ok t'"
      "history t' = drop (length (history t) + 1 - capacity t) (history t @ [c_provider_id c])"
      using tracker.record_entry_window [OF assms(4)] by blast
    have "let window = drop (length (history t) + 1 - capacity t) (history t @ [c_provider_id c])
        in int (count_list window (c_provider_id c)) \<le> \<lceil>d_val D (max_share config) * of_nat (length window)\<rceil>"
      using allows_next_quota [OF assms(1,4,5) room t'(1) assms(6,7)] share_count_history [OF t'(2)]
      by (simp only: Let_def flip: t'(3))
    with Default member price rank show ?thesis
      by (simp add: default_eligible_mem [OF e] d_le_val [OF assms(1)]) blast
  next
    case Balanced
    with assms(3) select_balanced_draw [OF assms(1)] member show ?thesis
      by (simp add: select_route_def healthy_def)
  next
    case Price
    have "(d_val D (c_combined_price c), c_priority c, c_provider_id c) \<le>
        (d_val D (c_combined_price other), c_priority other, c_provider_id other)"
      if "other \<in> set candidates" "c_healthy other" for other
      using acc Price that
      by (auto simp: acceptable_def healthy_def compare_price_def compare_priority_def d_cmp_val [OF assms(1)] not_less)
    with Price member show ?thesis by simp
  next
    case Throughput
    have "goes_before (\<lambda>a b. f64_total_cmp a b = Greater)
        (map_option throughput_tokens_per_second (c_measurements c))
        (map_option throughput_tokens_per_second (c_measurements other))
        ((c_priority c, c_provider_id c) \<le> (c_priority other, c_provider_id other))"
      if "other \<in> set candidates" "c_healthy other" for other
      using acc Throughput that
      by (cases "c_measurements c"; cases "c_measurements other")
        (auto simp: acceptable_def healthy_def compare_throughput_def compare_priority_def goes_before_def
          f64_total_cmp_def not_less)
    with Throughput member show ?thesis by simp
  next
    case Latency
    have "goes_before (\<lambda>a b. f64_total_cmp a b = Less)
        (map_option time_to_first_token_seconds (c_measurements c))
        (map_option time_to_first_token_seconds (c_measurements other))
        ((c_priority c, c_provider_id c) \<le> (c_priority other, c_provider_id other))"
      if "other \<in> set candidates" "c_healthy other" for other
      using acc Latency that
      by (cases "c_measurements c"; cases "c_measurements other")
        (auto simp: acceptable_def healthy_def compare_latency_def compare_priority_def goes_before_def
          f64_total_cmp_def not_less)
    with Latency member show ?thesis by simp
  qed
qed

theorem select_route_acceptable_witness:
  "\<exists>c. select_route bounded_decimal example_rand
      [example_candidate ''b'' 2 0, example_candidate ''a'' 1 1] Price example_config example_tracker 0
    = Some (Some c, 0) \<and> c_combined_price c \<le> 2"
proof -
  have t: "tracker_ok example_tracker" "capacity example_tracker < 2 ^ 64"
    by (simp_all add: tracker_ok_def example_tracker_def)
  have pick: "select_route bounded_decimal example_rand
      [example_candidate ''b'' 2 0, example_candidate ''a'' 1 1] Price example_config example_tracker 0
    = Some (Some (example_candidate ''a'' 1 1), 0)"
    by (simp add: select_route_def healthy_def example_candidate_def min_by_def compare_price_def
        bounded_decimal_def cmp_of_def)
  from select_route_acceptable [OF bounded_decimal_laws example_rand_laws pick t] pick show ?thesis
    by (auto simp: bounded_decimal_def example_config_def example_candidate_def)
qed

section \<open>Selection never panics\<close>

lemma product_quota:
  assumes laws: "decimal_laws D" and "n < 2 ^ 64" and m: "0 \<le> d_val D m" "d_val D m \<le> 1"
  shows "\<exists>product quota. d_checked_mul D m (d_of_nat D n) = Some product \<and>
    d_to_usize D (d_ceil D product) = Some quota"
proof -
  note nv = d_of_nat_val [OF laws assms(2)]
  have n64: "int n < 2 ^ 64" using assms(2) by simp
  have nonneg: "0 \<le> d_val D m * of_nat n" and le: "d_val D m * of_nat n \<le> of_nat n"
    using m by (simp_all add: mult_left_le_one_le)
  have "(of_nat n :: rat) \<le> 2 ^ 64"
    using assms(2) by (metis less_imp_le of_nat_le_iff of_nat_numeral of_nat_power)
  then have "\<bar>d_val D m * of_nat n\<bar> \<le> dec_max" using nonneg le by (simp add: dec_max_def)
  with d_mul_result [OF laws, of m "d_of_nat D n"] obtain product where
    product: "d_checked_mul D m (d_of_nat D n) = Some product"
    and mul: "dec_result D (d_val D m * of_nat n) (Some product)"
    using dec_result_total by (metis nv)
  have "d_val D product \<le> of_int (int n)"
    using le n64 by (intro dec_result_le [OF mul dec_representable_int]) auto
  moreover have "0 \<le> d_val D product" using dec_result_nonneg [OF mul nonneg] .
  ultimately have c: "0 \<le> \<lceil>d_val D product\<rceil>" "\<lceil>d_val D product\<rceil> < 2 ^ 64"
    using n64 by (auto simp: ceiling_le_iff zero_le_ceiling intro: le_less_trans [of _ "int n"])
  have "(of_int \<lceil>d_val D product\<rceil> :: rat) < of_int (2 ^ 64)" using c by (simp only: of_int_less_iff)
  then have "\<exists>quota. d_to_usize D (d_ceil D product) = Some quota"
    using c d_to_usize_val [OF laws, of "d_ceil D product"] by (simp add: d_ceil_val [OF laws])
  with product show ?thesis by blast
qed

definition config_ok :: "'d decimal_ops \<Rightarrow> 'd policy_config \<Rightarrow> bool" where
  "config_ok D config \<longleftrightarrow>
     0 \<le> d_val D (combined_price_ceiling_per_mtok config) \<and>
     f64_is_finite (hysteresis_fraction config) \<and>
     \<not> f64_lt (hysteresis_fraction config) (f64_lit 0) \<and>
     0 < d_val D (max_share config) \<and> d_val D (max_share config) \<le> 1"

lemma policy_config_new_Ok:
  "decimal_laws D \<Longrightarrow> policy_config_new D c h m = Ok config \<longleftrightarrow>
   config = \<lparr>combined_price_ceiling_per_mtok = c, hysteresis_fraction = h, max_share = m\<rparr> \<and>
   config_ok D config"
  by (auto simp: policy_config_new_def config_ok_def d_lt_val d_le_val d_zero_val d_one_val)

lemma allows_next_total:
  assumes "decimal_laws D" "config_ok D config" "tracker_ok t" "capacity t < 2 ^ 64"
  shows "\<exists>b. allows_next D t p (max_share config) = Some b"
proof -
  have "min (length (history t) + 1) (capacity t) < 2 ^ 64" using assms(4) by simp
  from product_quota [OF assms(1) this, of "max_share config"] assms(2)
  obtain product quota where "d_checked_mul D (max_share config)
        (d_of_nat D (min (length (history t) + 1) (capacity t))) = Some product"
      "d_to_usize D (d_ceil D product) = Some quota"
    by (auto simp: config_ok_def)
  then show ?thesis by (simp add: allows_next_def Let_def)
qed

lemma select_balanced_total:
  assumes laws: "decimal_laws D" and nonneg: "\<forall>c \<in> set candidates. 0 \<le> d_val D (c_combined_price c)"
  shows "\<exists>r. select_balanced D R candidates rng = Some r"
proof (cases "filter (\<lambda>c. d_is_zero D (c_combined_price c)) (healthy candidates) = []")
  case True
  then have pos: "0 < d_val D (c_combined_price c)" if "c \<in> set (healthy candidates)" for c
    using that nonneg by (auto simp: filter_empty_conv d_is_zero_val [OF laws] healthy_def
        order_less_le)
  show ?thesis
  proof (cases "min_by (d_cmp D) (map c_combined_price (healthy candidates))")
    case None
    then have "healthy candidates = []" by simp
    then show ?thesis by (simp add: select_balanced_def min_by_def)
  next
    case (Some cheapest)
    have low: "d_val D cheapest \<le> d_val D (c_combined_price c)" if "c \<in> set (healthy candidates)" for c
      using cmp_order.min_by_least [OF d_cmp_order [OF laws] Some, of "c_combined_price c"] that
      by (auto simp: d_cmp_val [OF laws] not_less)
    have zero: "0 \<le> d_val D cheapest"
      using min_by_mem [OF Some] pos by (auto simp: less_imp_le)
    have "\<exists>x. Option.bind (d_checked_div D cheapest (c_combined_price c)) (d_to_f64 D) = Some x"
      if c: "c \<in> set (healthy candidates)" for c
    proof -
      have r: "0 \<le> d_val D cheapest / d_val D (c_combined_price c)"
        "d_val D cheapest / d_val D (c_combined_price c) \<le> 1"
        using zero low [OF c] pos [OF c] by simp_all
      have div: "dec_result D (d_val D cheapest / d_val D (c_combined_price c))
          (d_checked_div D cheapest (c_combined_price c))"
        using pos [OF c] by (intro d_div_result [OF laws]) auto
      then obtain q where q: "d_checked_div D cheapest (c_combined_price c) = Some q"
        using dec_result_total r by (fastforce simp: dec_max_def)
      have "0 \<le> d_val D q" "d_val D q \<le> 1"
        using dec_result_nonneg [OF div [unfolded q] r(1)]
          dec_result_le [OF div [unfolded q], of 1] dec_representable_int [of 1] r(2) by simp_all
      from d_to_f64_val [OF laws this] q show ?thesis by auto
    qed
    then have "\<exists>ratios. map_panics (\<lambda>c. Option.bind (d_checked_div D cheapest (c_combined_price c))
        (d_to_f64 D)) (healthy candidates) = Some ratios"
      by (intro exI) (rule map_panics_total [where g = "\<lambda>c. the (Option.bind
        (d_checked_div D cheapest (c_combined_price c)) (d_to_f64 D))"], fastforce)
    with True Some show ?thesis by (auto simp: select_balanced_def)
  qed
qed (simp add: select_balanced_def Let_def del: split_paired_Ex)

lemma select_route_total:
  assumes "decimal_laws D" "config_ok D config" "tracker_ok t" "capacity t < 2 ^ 64"
    and "\<forall>c \<in> set candidates. 0 \<le> d_val D (c_combined_price c)"
  shows "\<exists>r. select_route D R candidates preference config t rng = Some r"
proof (cases preference)
  case Default
  have allowed: "allows_next D t p (max_share config) =
      Some (allows_next D t p (max_share config) = Some True)" for p
    using allows_next_total [OF assms(1-4), of p] by auto
  have "\<exists>eligible. default_eligible D candidates config t = Some eligible"
    unfolding default_eligible_def
    by (intro exI, rule filter_panics_total [where q = "\<lambda>c. d_le D (c_combined_price c)
        (combined_price_ceiling_per_mtok config) \<and>
        allows_next D t (c_provider_id c) (max_share config) = Some True"])
      (use allowed in simp)
  with Default show ?thesis
    by (auto simp: select_route_def select_default_def Let_def split: prod.splits)
qed (use select_balanced_total [OF assms(1,5)] in \<open>auto simp: select_route_def\<close>)

end
