(* ===== verification/Config.thy ===== *)
theory Config
  imports Select
begin

text \<open>
  The router's environment configuration (\<open>src/config.rs\<close>). The process environment is an
  argument, and so are the \<open>url\<close> crate's parser and accessors and the \<open>subtle\<close> crate's
  comparison. Parsing an \<open>f64\<close> and a \<open>usize\<close> is the standard library's and modelled.
\<close>

section \<open>Parsing of numbers\<close>

definition is_digit :: "char \<Rightarrow> bool" where
  "is_digit c \<longleftrightarrow> 48 \<le> (of_char c :: nat) \<and> (of_char c :: nat) \<le> 57"

definition digits_value :: "string \<Rightarrow> nat" where
  "digits_value ds = foldl (\<lambda>n c. n * 10 + (of_char c - 48)) 0 ds"

text \<open>\<open>str::parse::<usize>\<close>: an optional plus sign and decimal digits, no overflow.\<close>

definition parse_usize :: "string \<Rightarrow> nat option" where
  "parse_usize s =
     (let ds = (case s of CHR ''+'' # rest \<Rightarrow> rest | _ \<Rightarrow> s)
      in if ds = [] \<or> \<not> list_all is_digit ds \<or> 2 ^ 64 \<le> digits_value ds then None
         else Some (digits_value ds))"

definition ascii_lower :: "char \<Rightarrow> char" where
  "ascii_lower c =
     (if 65 \<le> (of_char c :: nat) \<and> (of_char c :: nat) \<le> 90 then char_of ((of_char c :: nat) + 32) else c)"

definition split_sign :: "string \<Rightarrow> bool \<times> string" where
  "split_sign s =
     (case s of CHR ''+'' # rest \<Rightarrow> (False, rest) | CHR ''-'' # rest \<Rightarrow> (True, rest) | _ \<Rightarrow> (False, s))"

definition parse_exponent :: "string \<Rightarrow> int option" where
  "parse_exponent s =
     (case s of
        [] \<Rightarrow> Some 0
      | c # rest \<Rightarrow>
          if ascii_lower c \<noteq> CHR ''e'' then None
          else let (negative, ds) = split_sign rest
               in if ds = [] \<or> \<not> list_all is_digit ds then None
                  else Some (if negative then - int (digits_value ds) else int (digits_value ds)))"

text \<open>\<open>str::parse::<f64>\<close>: the decimal number, rounded once.\<close>

definition parse_f64 :: "string \<Rightarrow> f64 option" where
  "parse_f64 s =
     (let (negative, body) = split_sign s; lower = map ascii_lower body in
      if lower = ''inf'' \<or> lower = ''infinity'' then Some (Infinity negative)
      else if lower = ''nan'' then Some NaN
      else let whole = takeWhile is_digit body;
               rest = dropWhile is_digit body;
               (fraction, rest') =
                 (case rest of CHR ''.'' # r \<Rightarrow> (takeWhile is_digit r, dropWhile is_digit r) | _ \<Rightarrow> ([], rest))
           in if whole = [] \<and> fraction = [] then None
              else map_option
                (\<lambda>e. f64_round negative
                   (of_nat (digits_value (whole @ fraction)) * 10 powi (e - int (length fraction))))
                (parse_exponent rest'))"

section \<open>Configuration values\<close>

datatype env_var = EnvValue string | NotPresent | NotUnicode

record 'u url_ops =
  url_parse :: "string \<Rightarrow> 'u option"
  url_scheme :: "'u \<Rightarrow> string"
  url_host_str :: "'u \<Rightarrow> string option"
  url_username :: "'u \<Rightarrow> string"
  url_password :: "'u \<Rightarrow> string option"
  url_query :: "'u \<Rightarrow> string option"
  url_fragment :: "'u \<Rightarrow> string option"

record 'd routing_config =
  rg_policy :: "'d policy_config"
  rg_share_window :: nat

datatype routing_config_error = PolicyError policy_config_error | ShareWindowError share_tracker_error

definition routing_config_new ::
  "'d decimal_ops \<Rightarrow> 'd \<Rightarrow> f64 \<Rightarrow> 'd \<Rightarrow> nat \<Rightarrow> ('d routing_config, routing_config_error) result" where
  "routing_config_new D price_ceiling hysteresis cap window =
     (case policy_config_new D price_ceiling hysteresis cap of
        Err e \<Rightarrow> Err (PolicyError e)
      | Ok policy \<Rightarrow>
          (case share_tracker_new window of
             Err e \<Rightarrow> Err (ShareWindowError e)
           | Ok _ \<Rightarrow> Ok \<lparr>rg_policy = policy, rg_share_window = window\<rparr>))"

record ('d, 'u) router_config =
  sidecar_url :: string
  sidecar_readiness_url :: 'u
  gateway_key :: string
  beta_gateway_key :: "string option"
  registry_path :: string
  routing :: "'d routing_config"

datatype config_error = Missing string | Empty string | InvalidUnicode string | Invalid string

definition GATEWAY_KEY_ENV :: string where "GATEWAY_KEY_ENV = ''SEREN_ROUTER_GATEWAY_KEY''"
definition BETA_GATEWAY_KEY_ENV :: string where
  "BETA_GATEWAY_KEY_ENV = ''SEREN_ROUTER_BETA_GATEWAY_KEY''"
definition REGISTRY_PATH_ENV :: string where "REGISTRY_PATH_ENV = ''SEREN_ROUTER_REGISTRY_PATH''"
definition SIDECAR_READINESS_URL_ENV :: string where
  "SIDECAR_READINESS_URL_ENV = ''SEREN_ROUTER_SIDECAR_READINESS_URL''"
definition SIDECAR_URL_ENV :: string where "SIDECAR_URL_ENV = ''SEREN_ROUTER_SIDECAR_URL''"
definition PRICE_CEILING_ENV :: string where
  "PRICE_CEILING_ENV = ''SEREN_ROUTER_COMBINED_PRICE_CEILING_PER_MTOK''"
definition HYSTERESIS_ENV :: string where "HYSTERESIS_ENV = ''SEREN_ROUTER_HYSTERESIS_FRACTION''"
definition MAX_SHARE_ENV :: string where "MAX_SHARE_ENV = ''SEREN_ROUTER_MAX_SHARE''"
definition SHARE_WINDOW_ENV :: string where "SHARE_WINDOW_ENV = ''SEREN_ROUTER_SHARE_WINDOW''"

section \<open>Reading the environment\<close>

definition required_env :: "(string \<Rightarrow> env_var) \<Rightarrow> string \<Rightarrow> (string, config_error) result" where
  "required_env env name =
     (case env name of
        EnvValue v \<Rightarrow> Ok v | NotPresent \<Rightarrow> Err (Missing name) | NotUnicode \<Rightarrow> Err (InvalidUnicode name))"

definition optional_env ::
  "(string \<Rightarrow> env_var) \<Rightarrow> string \<Rightarrow> string \<Rightarrow> (string, config_error) result" where
  "optional_env env name fallback =
     (case env name of
        EnvValue v \<Rightarrow> Ok v | NotPresent \<Rightarrow> Ok fallback | NotUnicode \<Rightarrow> Err (InvalidUnicode name))"

definition optional_present_env ::
  "(string \<Rightarrow> env_var) \<Rightarrow> string \<Rightarrow> (string option, config_error) result" where
  "optional_present_env env name =
     (case env name of
        EnvValue v \<Rightarrow> Ok (Some v) | NotPresent \<Rightarrow> Ok None | NotUnicode \<Rightarrow> Err (InvalidUnicode name))"

definition required_parsed_env ::
  "(string \<Rightarrow> 'a option) \<Rightarrow> (string \<Rightarrow> env_var) \<Rightarrow> string \<Rightarrow> ('a, config_error) result" where
  "required_parsed_env parse env name =
     result_bind (required_env env name) (\<lambda>v. ok_or (Invalid name) (parse (trim v)))"

definition parse_http_url ::
  "'u url_ops \<Rightarrow> string \<Rightarrow> string \<Rightarrow> ('u, config_error) result" where
  "parse_http_url U name v =
     (if trim v = [] then Err (Empty name)
      else case url_parse U (trim v) of
          None \<Rightarrow> Err (Invalid name)
        | Some url \<Rightarrow>
            if url_scheme U url \<notin> {''http'', ''https''} \<or> url_host_str U url = None \<or>
               url_username U url \<noteq> [] \<or> is_some (url_password U url) \<or> is_some (url_query U url) \<or>
               is_some (url_fragment U url)
            then Err (Invalid name) else Ok url)"

definition validate_gateway_keys ::
  "(bytes \<Rightarrow> bytes \<Rightarrow> bool) \<Rightarrow> string \<Rightarrow> string option \<Rightarrow> (unit, config_error) result" where
  "validate_gateway_keys ct_eq key beta_key =
     (if trim key = [] then Err (Empty GATEWAY_KEY_ENV)
      else if is_some_and (\<lambda>k. trim k = []) beta_key then Err (Empty BETA_GATEWAY_KEY_ENV)
      else if is_some_and (\<lambda>k. ct_eq k key) beta_key then Err (Invalid BETA_GATEWAY_KEY_ENV)
      else Ok ())"

definition registry_path_from_env :: "(string \<Rightarrow> env_var) \<Rightarrow> (string, config_error) result" where
  "registry_path_from_env env =
     result_bind (optional_env env REGISTRY_PATH_ENV ''registry/providers.yaml'')
       (\<lambda>path. if trim path = [] then Err (Empty REGISTRY_PATH_ENV) else Ok (trim path))"

fun routing_config_error_name :: "routing_config_error \<Rightarrow> string" where
  "routing_config_error_name (PolicyError NegativePriceCeiling) = PRICE_CEILING_ENV"
| "routing_config_error_name (PolicyError InvalidHysteresis) = HYSTERESIS_ENV"
| "routing_config_error_name (PolicyError InvalidMaxShare) = MAX_SHARE_ENV"
| "routing_config_error_name (ShareWindowError ZeroCapacity) = SHARE_WINDOW_ENV"

definition config_from_env ::
  "'d decimal_ops \<Rightarrow> 'u url_ops \<Rightarrow> (bytes \<Rightarrow> bytes \<Rightarrow> bool) \<Rightarrow> (string \<Rightarrow> env_var) \<Rightarrow>
   (('d, 'u) router_config, config_error) result" where
  "config_from_env D U ct_eq env =
     result_bind (required_env env GATEWAY_KEY_ENV) (\<lambda>key.
     result_bind (optional_present_env env BETA_GATEWAY_KEY_ENV) (\<lambda>beta_key.
     result_bind (optional_env env SIDECAR_URL_ENV ''http://127.0.0.1:4000'') (\<lambda>url.
     result_bind (optional_env env SIDECAR_READINESS_URL_ENV ''http://127.0.0.1:19001/healthz/ready'')
       (\<lambda>readiness_text.
     result_bind (parse_http_url U SIDECAR_READINESS_URL_ENV readiness_text) (\<lambda>readiness_url.
     result_bind (registry_path_from_env env) (\<lambda>path.
     result_bind (required_parsed_env (d_from_str D) env PRICE_CEILING_ENV) (\<lambda>price_ceiling.
     result_bind (required_parsed_env parse_f64 env HYSTERESIS_ENV) (\<lambda>hysteresis.
     result_bind (required_parsed_env (d_from_str D) env MAX_SHARE_ENV) (\<lambda>cap.
     result_bind (required_parsed_env parse_usize env SHARE_WINDOW_ENV) (\<lambda>window.
     result_bind
       (map_err (\<lambda>e. Invalid (routing_config_error_name e))
          (routing_config_new D price_ceiling hysteresis cap window)) (\<lambda>r.
     result_bind (validate_gateway_keys ct_eq key beta_key) (\<lambda>_.
     if trim url = [] then Err (Empty SIDECAR_URL_ENV)
     else Ok \<lparr>sidecar_url = trim url, sidecar_readiness_url = readiness_url, gateway_key = key,
              beta_gateway_key = beta_key, registry_path = path, routing = r\<rparr>))))))))))))"

section \<open>What a loaded configuration guarantees\<close>

definition routing_config_ok :: "'d decimal_ops \<Rightarrow> 'd routing_config \<Rightarrow> bool" where
  "routing_config_ok D r \<longleftrightarrow>
     config_ok D (rg_policy r) \<and> 0 < rg_share_window r \<and> rg_share_window r < 2 ^ 64"

lemma routing_config_new_Ok:
  assumes "decimal_laws D" "routing_config_new D c h m w = Ok r" "w < 2 ^ 64"
  shows "routing_config_ok D r"
  using assms by (auto simp: routing_config_new_def routing_config_ok_def policy_config_new_Ok
      share_tracker_new_def split: result.splits if_splits)

lemma parse_usize_bound: "parse_usize s = Some n \<Longrightarrow> n < 2 ^ 64"
  by (auto simp: parse_usize_def Let_def split: if_splits)

lemma config_registry_path:
  "config_from_env D U ct_eq env = Ok config \<Longrightarrow> registry_path_from_env env = Ok (registry_path config)"
  unfolding config_from_env_def result_bind_Ok by (auto split: if_splits)

lemma config_routing_ok:
  assumes "decimal_laws D" and "config_from_env D U ct_eq env = Ok config"
  shows "routing_config_ok D (routing config)"
proof -
  obtain c h m w r where window: "required_parsed_env parse_usize env SHARE_WINDOW_ENV = Ok w"
    and r: "routing_config_new D c h m w = Ok r" "routing config = r"
    using assms(2) unfolding config_from_env_def result_bind_Ok
    by (auto split: if_splits)
  have "w < 2 ^ 64"
    using window parse_usize_bound
    by (auto simp: required_parsed_env_def result_bind_Ok ok_or_def split: option.splits)
  with routing_config_new_Ok [OF assms(1) r(1)] r(2) show ?thesis by simp
qed

text \<open>C39: A configuration that loads is usable: both Gateway keys are non-blank and different,
  the price ceiling, hysteresis, share cap and window are within their limits, and the
  readiness URL is a plain http(s) URL without credentials, query or fragment.\<close>

theorem config_from_env_valid:
  assumes "decimal_laws D" "\<And>a b. ct_eq a b \<longleftrightarrow> a = b" "config_from_env D U ct_eq env = Ok config"
  shows "trim (gateway_key config) \<noteq> [] \<and> beta_gateway_key config \<noteq> Some (gateway_key config) \<and>
    is_none_or (\<lambda>k. trim k \<noteq> []) (beta_gateway_key config) \<and>
    routing_config_ok D (routing config) \<and> sidecar_url config \<noteq> [] \<and> registry_path config \<noteq> [] \<and>
    url_scheme U (sidecar_readiness_url config) \<in> {''http'', ''https''} \<and>
    url_host_str U (sidecar_readiness_url config) \<noteq> None \<and>
    url_username U (sidecar_readiness_url config) = [] \<and>
    url_password U (sidecar_readiness_url config) = None \<and>
    url_query U (sidecar_readiness_url config) = None \<and> url_fragment U (sidecar_readiness_url config) = None"
proof -
  obtain t where keys: "validate_gateway_keys ct_eq (gateway_key config) (beta_gateway_key config) = Ok ()"
    and url: "sidecar_url config \<noteq> []"
    and path: "registry_path_from_env env = Ok (registry_path config)"
    and ready: "parse_http_url U SIDECAR_READINESS_URL_ENV t = Ok (sidecar_readiness_url config)"
    using assms(3) unfolding config_from_env_def result_bind_Ok
    by (auto split: if_splits)
  have "routing_config_ok D (routing config)" by (rule config_routing_ok [OF assms(1,3)])
  moreover have "registry_path config \<noteq> []"
    using path by (auto simp: registry_path_from_env_def result_bind_Ok split: if_splits)
  moreover from ready have "url_scheme U (sidecar_readiness_url config) \<in> {''http'', ''https''} \<and>
    url_host_str U (sidecar_readiness_url config) \<noteq> None \<and>
    url_username U (sidecar_readiness_url config) = [] \<and>
    url_password U (sidecar_readiness_url config) = None \<and>
    url_query U (sidecar_readiness_url config) = None \<and> url_fragment U (sidecar_readiness_url config) = None"
    by (auto simp: parse_http_url_def is_some_iff split: if_splits option.splits)
  moreover have "trim (gateway_key config) \<noteq> []" "beta_gateway_key config \<noteq> Some (gateway_key config)"
    "is_none_or (\<lambda>k. trim k \<noteq> []) (beta_gateway_key config)"
    using keys assms(2) by (cases "beta_gateway_key config",
        auto simp: validate_gateway_keys_def split: if_splits)+
  ultimately show ?thesis using url by blast
qed

text \<open>A URL library that knows two addresses, and an environment, for the witness.\<close>

definition example_url :: "string url_ops" where
  "example_url =
     \<lparr>url_parse = Some, url_scheme = (\<lambda>_. ''http''), url_host_str = (\<lambda>_. Some ''127.0.0.1''),
      url_username = (\<lambda>_. []), url_password = (\<lambda>_. None), url_query = (\<lambda>_. None),
      url_fragment = (\<lambda>_. None)\<rparr>"

definition one_decimal :: "rat decimal_ops" where
  "one_decimal = parsing_decimal (\<lambda>s. if s = ''1'' then Some 1 else None)"

lemma one_decimal_laws: "decimal_laws one_decimal"
  by (simp add: one_decimal_def parsing_decimal_laws)

definition example_env :: "string \<Rightarrow> env_var" where
  "example_env name =
     (if name = GATEWAY_KEY_ENV then EnvValue ''prod''
      else if name = BETA_GATEWAY_KEY_ENV then EnvValue ''beta''
      else if name \<in> {PRICE_CEILING_ENV, MAX_SHARE_ENV, SHARE_WINDOW_ENV} then EnvValue ''1''
      else if name = HYSTERESIS_ENV then EnvValue ''0''
      else if name = ''DATABASE_URL'' then EnvValue ''postgres://ledger''
      else NotPresent)"

definition example_env_routing :: "rat routing_config" where
  "example_env_routing =
     \<lparr>rg_policy = \<lparr>combined_price_ceiling_per_mtok = 1, hysteresis_fraction = Finite False 0, max_share = 1\<rparr>,
      rg_share_window = 1\<rparr>"

lemma example_config:
  "config_from_env one_decimal example_url (=) example_env = Ok
     \<lparr>sidecar_url = ''http://127.0.0.1:4000'', sidecar_readiness_url = ''http://127.0.0.1:19001/healthz/ready'',
      gateway_key = ''prod'', beta_gateway_key = Some ''beta'', registry_path = ''registry/providers.yaml'',
      routing = example_env_routing\<rparr>"
proof -
  have trims: "trim ''1'' = ''1''" "trim ''0'' = ''0''" "trim ''prod'' = ''prod''" "trim ''beta'' = ''beta''"
    "trim ''registry/providers.yaml'' = ''registry/providers.yaml''"
    "trim ''http://127.0.0.1:4000'' = ''http://127.0.0.1:4000''"
    "trim ''http://127.0.0.1:19001/healthz/ready'' = ''http://127.0.0.1:19001/healthz/ready''"
    by code_simp+
  have one: "parse_usize ''1'' = Some 1"
    by (simp add: parse_usize_def is_digit_def digits_value_def)
  have zero: "parse_f64 ''0'' = Some (Finite False 0)"
    by (simp add: parse_f64_def split_sign_def ascii_lower_def is_digit_def digits_value_def
        parse_exponent_def f64_round_def f64_max_mag_def)
  have "routing_config_new one_decimal 1 (Finite False 0) 1 1 = Ok example_env_routing"
    by (simp add: routing_config_new_def policy_config_new_def one_decimal_def parsing_decimal_def bounded_decimal_def
        d_lt_def d_le_def cmp_of_def share_tracker_new_def f64_lit_def f64_round_def f64_max_mag_def
        example_env_routing_def)
  then show ?thesis
    unfolding config_from_env_def
    by (simp add: required_env_def optional_env_def optional_present_env_def required_parsed_env_def
        registry_path_from_env_def parse_http_url_def validate_gateway_keys_def trims one zero
        example_env_def GATEWAY_KEY_ENV_def BETA_GATEWAY_KEY_ENV_def SIDECAR_URL_ENV_def
        SIDECAR_READINESS_URL_ENV_def REGISTRY_PATH_ENV_def PRICE_CEILING_ENV_def HYSTERESIS_ENV_def
        MAX_SHARE_ENV_def SHARE_WINDOW_ENV_def example_url_def result_bind_def map_err_def)
      (simp add: one_decimal_def parsing_decimal_def trims)
qed

theorem config_from_env_valid_witness:
  "routing_config_ok one_decimal example_env_routing"
  using config_from_env_valid [OF one_decimal_laws refl example_config] by simp

end
