(* ===== verification/Routing.thy ===== *)
theory Routing
  imports Config
begin

text \<open>
  The routing policy of a request (\<open>src/policy/routing.rs\<close>): the route table built from the
  registry, the request fields it reads and consumes, the selection under the rolling share of
  its (profile, model) key and the planned fallbacks. The state behind the mutex is passed and
  returned; the request a function mutates is returned with it.
\<close>

section \<open>Data\<close>

record 'd route_descriptor =
  rd_provider_id :: string
  rd_input_price_per_mtok :: 'd
  rd_output_price_per_mtok :: 'd
  rd_priority :: u8
  rd_request_constraints :: "'d request_constraints"

type_synonym route_key = "routing_profile \<times> string"

record 'd routing_policy =
  pol_routes :: "(route_key, 'd route_descriptor list) bmap"
  pol_config :: "'d routing_config"

record 'r routing_state =
  st_shares :: "(route_key, share_tracker) bmap"
  st_rng :: 'r

record route_decision =
  dec_profile :: routing_profile
  dec_canonical_model :: string
  dec_selected_provider :: string
  dec_fallback_models :: "string list"
  dec_has_alternatives :: bool

datatype routing_policy_error = InvalidCandidate candidate_error

datatype route_request_error =
    InvalidPreference preference_error | UnknownModel | NoEligibleRoute
  | UnsupportedProviderOverride | InvalidTopP | InvalidStream

section \<open>Building the route table\<close>

definition descriptor_of :: "'d provider \<Rightarrow> 'd model_mapping \<Rightarrow> 'd route_descriptor" where
  "descriptor_of p m =
     \<lparr>rd_provider_id = p_id p, rd_input_price_per_mtok = m_input_price_per_mtok m,
      rd_output_price_per_mtok = m_output_price_per_mtok m, rd_priority = p_priority p,
      rd_request_constraints = m_request_constraints m\<rparr>"

fun push_models ::
  "'d decimal_ops \<Rightarrow> 'd provider \<Rightarrow> 'd model_mapping list \<Rightarrow>
   (route_key, 'd route_descriptor list) bmap \<Rightarrow>
   ((route_key, 'd route_descriptor list) bmap, routing_policy_error) result" where
  "push_models D p [] routes = Ok routes"
| "push_models D p (m # ms) routes =
     (case candidate_new D (p_id p) (m_input_price_per_mtok m) (m_output_price_per_mtok m)
             (p_priority p) None True of
        Err e \<Rightarrow> Err (InvalidCandidate e)
      | Ok _ \<Rightarrow>
          push_models D p ms
            (fold (\<lambda>profile. bm_push (profile, m_slug m) (descriptor_of p m)) (profile_list p) routes))"

fun push_providers ::
  "'d decimal_ops \<Rightarrow> 'd provider list \<Rightarrow> (route_key, 'd route_descriptor list) bmap \<Rightarrow>
   ((route_key, 'd route_descriptor list) bmap, routing_policy_error) result" where
  "push_providers D [] routes = Ok routes"
| "push_providers D (p # ps) routes =
     result_bind (push_models D p (p_models p) routes) (push_providers D ps)"

definition compare_descriptors :: "'d route_descriptor \<Rightarrow> 'd route_descriptor \<Rightarrow> ordering" where
  "compare_descriptors l r =
     then_with (cmp_of (rd_priority l) (rd_priority r)) (cmp_of (rd_provider_id l) (rd_provider_id r))"

definition routing_from_registry ::
  "'d decimal_ops \<Rightarrow> 'd registry \<Rightarrow> 'd routing_config \<Rightarrow> 'r \<Rightarrow>
   ('d routing_policy \<times> 'r routing_state, routing_policy_error) result" where
  "routing_from_registry D r config rng =
     result_bind (push_providers D (enabled_providers r) [])
       (\<lambda>routes. Ok (\<lparr>pol_routes = bm_map_values (sort_by compare_descriptors) routes,
                      pol_config = config\<rparr>,
                     \<lparr>st_shares = [], st_rng = rng\<rparr>))"

section \<open>Request fields\<close>

definition reject_provider_overrides :: "json \<Rightarrow> (unit, route_request_error) result" where
  "reject_provider_overrides request =
     (case Option.bind (json_get ''provider'' request) as_object of
        None \<Rightarrow> Ok ()
      | Some entries \<Rightarrow>
          if list_ex (\<lambda>field. is_some (bm_get field entries)) [''only'', ''ignore'', ''order'']
          then Err UnsupportedProviderOverride else Ok ())"

definition parse_top_p ::
  "'d decimal_ops \<Rightarrow> json \<Rightarrow> ('d option, route_request_error) result" where
  "parse_top_p D request =
     (case json_get ''top_p'' request of
        None \<Rightarrow> Ok None
      | Some top_p \<Rightarrow>
          if is_null top_p then Ok None
          else result_bind (ok_or InvalidTopP (as_number top_p))
            (\<lambda>number. case d_from_str D number of Some d \<Rightarrow> Ok (Some d) | None \<Rightarrow> Err InvalidTopP))"

definition parse_stream :: "json \<Rightarrow> (bool, route_request_error) result" where
  "parse_stream request =
     (case json_get ''stream'' request of
        None \<Rightarrow> Ok False
      | Some stream \<Rightarrow> if is_null stream then Ok False else ok_or InvalidStream (as_bool stream))"

definition consume_routing_sort :: "json \<Rightarrow> json" where
  "consume_routing_sort request =
     (case as_object request of
        None \<Rightarrow> request
      | Some entries \<Rightarrow>
          (case Option.bind (bm_get ''provider'' entries) as_object of
             None \<Rightarrow> request
           | Some p \<Rightarrow>
               let p' = bm_remove ''sort'' p
               in if p' = [] then JObject (bm_remove ''provider'' entries)
                  else JObject (bm_insert ''provider'' (JObject p') entries)))"

section \<open>Routing one request\<close>

lemma select_route_mem:
  assumes "select_route D R candidates preference config t rng = Some (Some c, rng')"
  shows "c \<in> set candidates \<and> c_healthy c"
proof (cases preference)
  case Default
  then obtain eligible where e: "default_eligible D candidates config t = Some eligible"
    using assms by (auto simp: select_route_def select_default_def bind_eq_Some_conv)
  have "select_default D R candidates config t rng = Some (Some c, rng')"
    using assms Default by (simp add: select_route_def)
  from select_default_mem [OF this e] default_eligible_mem [OF e] show ?thesis by simp
next
  case Balanced
  then show ?thesis using assms select_balanced_mem by (fastforce simp: select_route_def healthy_def)
qed (use assms min_by_mem max_by_mem in \<open>fastforce simp: select_route_def healthy_def\<close>)+

function plan_fallbacks ::
  "'d decimal_ops \<Rightarrow> 'r rand_ops \<Rightarrow> 'd candidate list \<Rightarrow> preference \<Rightarrow> 'd policy_config \<Rightarrow>
   share_tracker \<Rightarrow> 'r \<Rightarrow> string list panics" where
  "plan_fallbacks D R candidates preference config recent_share rng =
     (case select_route D R candidates preference config recent_share rng of
        None \<Rightarrow> None
      | Some (None, rng') \<Rightarrow> Some []
      | Some (Some c, rng') \<Rightarrow>
          do { rest \<leftarrow> plan_fallbacks D R
                 (filter (\<lambda>other. c_provider_id other \<noteq> c_provider_id c) candidates)
                 preference config recent_share rng';
               Some (c_provider_id c # rest) })"
  by pat_completeness auto

termination
  by (relation "measure (\<lambda>(D, R, candidates, preference, config, recent_share, rng). length candidates)")
    (auto dest!: select_route_mem intro!: length_filter_less)

declare plan_fallbacks.simps [simp del]

definition FALLBACK_SEED :: nat where "FALLBACK_SEED = 0x5ee7fa11bac0"

definition route_candidates ::
  "'d decimal_ops \<Rightarrow> measurement_store \<Rightarrow> 'd route_descriptor list \<Rightarrow> routing_profile \<Rightarrow>
   completion_endpoint \<Rightarrow> 'd option \<Rightarrow> bool \<Rightarrow> string \<Rightarrow> 'd candidate list panics" where
  "route_candidates D measurements descriptors profile endpoint top_p stream canonical =
     map_panics
       (\<lambda>route. case candidate_new D (rd_provider_id route) (rd_input_price_per_mtok route)
                  (rd_output_price_per_mtok route) (rd_priority route)
                  (get_for measurements profile (rd_provider_id route) canonical) True of
            Ok c \<Rightarrow> Some c | Err _ \<Rightarrow> None)
       (filter (\<lambda>route. supports_endpoint (rd_request_constraints route) endpoint \<and>
                        permits_streaming (rd_request_constraints route) stream \<and>
                        permits_top_p D (rd_request_constraints route) top_p) descriptors)"

definition sidecar_model :: "string \<Rightarrow> string \<Rightarrow> string" where
  "sidecar_model provider_id canonical = provider_id @ ''/'' @ canonical"

text \<open>The part under the lock: take the key's share window, select, plan the fallbacks, record.\<close>

definition select_and_record ::
  "'d decimal_ops \<Rightarrow> 'r rand_ops \<Rightarrow> 'd routing_config \<Rightarrow> 'r routing_state \<Rightarrow> route_key \<Rightarrow> preference \<Rightarrow>
   'd candidate list \<Rightarrow> ('r routing_state \<times> (string \<times> string list, route_request_error) result) panics" where
  "select_and_record D R config st key preference candidates =
     do { recent_share \<leftarrow> (case bm_get key (st_shares st) of
              Some t \<Rightarrow> Some t
            | None \<Rightarrow> (case share_tracker_new (rg_share_window config) of Ok t \<Rightarrow> Some t | Err _ \<Rightarrow> None));
          let shares = bm_remove key (st_shares st);
          (picked, rng') \<leftarrow> select_route D R candidates preference (rg_policy config) recent_share (st_rng st);
          case picked of
            None \<Rightarrow>
              Some (st\<lparr>st_shares := bm_insert key recent_share shares, st_rng := rng'\<rparr>, Err NoEligibleRoute)
          | Some selected \<Rightarrow>
              do { fallbacks \<leftarrow> plan_fallbacks D R
                     (filter (\<lambda>c. c_provider_id c \<noteq> c_provider_id selected) candidates)
                     preference (rg_policy config) recent_share (seed_from_u64 R FALLBACK_SEED);
                   recorded \<leftarrow> record_share recent_share (c_provider_id selected);
                   Some (st\<lparr>st_shares := bm_insert key recorded shares, st_rng := rng'\<rparr>,
                         Ok (c_provider_id selected, fallbacks)) } }"

definition route_for_endpoint ::
  "'d decimal_ops \<Rightarrow> 'r rand_ops \<Rightarrow> 'd routing_policy \<Rightarrow> measurement_store \<Rightarrow> 'r routing_state \<Rightarrow>
   routing_profile \<Rightarrow> completion_endpoint \<Rightarrow> json \<Rightarrow>
   ('r routing_state \<times> json \<times> (route_decision, route_request_error) result) panics" where
  "route_for_endpoint D R policy measurements st profile endpoint request =
     (case reject_provider_overrides request of
        Err e \<Rightarrow> Some (st, request, Err e)
      | Ok _ \<Rightarrow>
     (case parse_top_p D request of
        Err e \<Rightarrow> Some (st, request, Err e)
      | Ok top_p \<Rightarrow>
     (case parse_stream request of
        Err e \<Rightarrow> Some (st, request, Err e)
      | Ok stream \<Rightarrow>
     do { outcome \<leftarrow> parse_request request;
          case outcome of
            Err e \<Rightarrow> Some (st, request, Err (InvalidPreference e))
          | Ok (request1, parsed) \<Rightarrow>
              let request2 = consume_routing_sort request1;
                  key = (profile, canonical_model parsed)
              in case bm_get key (pol_routes policy) of
                   None \<Rightarrow> Some (st, request2, Err UnknownModel)
                 | Some descriptors \<Rightarrow>
                     do { candidates \<leftarrow> route_candidates D measurements descriptors profile endpoint
                            top_p stream (canonical_model parsed);
                          if candidates = [] then Some (st, request2, Err NoEligibleRoute)
                          else do {
                            (st', selection) \<leftarrow> select_and_record D R (pol_config policy) st key
                              (rp_preference parsed) candidates;
                            case selection of
                              Err e \<Rightarrow> Some (st', request2, Err e)
                            | Ok (selected, fallbacks) \<Rightarrow>
                                do { request3 \<leftarrow> json_set ''model''
                                       (JString (sidecar_model selected (canonical_model parsed))) request2;
                                     Some (st', request3,
                                       Ok \<lparr>dec_profile = profile,
                                           dec_canonical_model = canonical_model parsed,
                                           dec_selected_provider = selected,
                                           dec_fallback_models =
                                             map (\<lambda>i. sidecar_model i (canonical_model parsed)) fallbacks,
                                           dec_has_alternatives = fallbacks \<noteq> []\<rparr>) } } } })))"

definition route ::
  "'d decimal_ops \<Rightarrow> 'r rand_ops \<Rightarrow> 'd routing_policy \<Rightarrow> measurement_store \<Rightarrow> 'r routing_state \<Rightarrow>
   routing_profile \<Rightarrow> json \<Rightarrow>
   ('r routing_state \<times> json \<times> (route_decision, route_request_error) result) panics" where
  "route D R policy measurements st profile request =
     route_for_endpoint D R policy measurements st profile Chat request"

fun route_error_text :: "route_request_error \<Rightarrow> string" where
  "route_error_text (InvalidPreference e) = preference_error_text e"
| "route_error_text UnknownModel = ''model not found''"
| "route_error_text NoEligibleRoute = ''no eligible provider route''"
| "route_error_text UnsupportedProviderOverride =
     ''provider.only, provider.ignore, and provider.order are not supported''"
| "route_error_text InvalidTopP = ''top_p must be a JSON number or null''"
| "route_error_text InvalidStream = ''stream must be a JSON boolean or null''"

fun route_error_status :: "route_request_error \<Rightarrow> nat" where
  "route_error_status (InvalidPreference e) = 400"
| "route_error_status UnknownModel = 404"
| "route_error_status NoEligibleRoute = 503"
| "route_error_status _ = 400"

fun route_error_response :: "route_request_error \<Rightarrow> response" where
  "route_error_response (InvalidPreference e) = preference_error_response e"
| "route_error_response e =
     json_response (route_error_status e) (error_code_message (route_error_status e) (route_error_text e))"

section \<open>A concrete registry, policy and request\<close>

definition example_registry :: "rat registry" where
  "example_registry = \<lparr>r_providers = [example_provider ''a'' 0 [example_mapping ''m'' 2 3],
     example_provider ''b'' 1 [example_mapping ''m'' 1 2]]\<rparr>"

definition example_routing_config :: "rat routing_config" where
  "example_routing_config = \<lparr>rg_policy = example_config, rg_share_window = 2\<rparr>"

definition example_policy_with :: "rat routing_config \<Rightarrow> rat routing_policy" where
  "example_policy_with config =
     \<lparr>pol_routes = [((Production, ''m''), [
        descriptor_of (example_provider ''a'' 0 [example_mapping ''m'' 2 3]) (example_mapping ''m'' 2 3),
        descriptor_of (example_provider ''b'' 1 [example_mapping ''m'' 1 2]) (example_mapping ''m'' 1 2)])],
      pol_config = config\<rparr>"

definition example_policy :: "rat routing_policy" where
  "example_policy = example_policy_with example_routing_config"

definition example_state :: "nat routing_state" where
  "example_state = \<lparr>st_shares = [], st_rng = 0\<rparr>"

lemma example_routing_with:
  "routing_from_registry (parsing_decimal f) example_registry config 0 = Ok (example_policy_with config, example_state)"
  by (simp add: routing_from_registry_def example_registry_def enabled_providers_def
      example_provider_def example_mapping_def candidate_new_def d_lt_def parsing_decimal_def bounded_decimal_def
      bounded_def dec_max_def cmp_of_def profile_list_def profiles_all_def bm_push_def bm_get_def
      example_policy_with_def example_state_def bm_map_values_def compare_descriptors_def descriptor_of_def)

lemma example_routing:
  "routing_from_registry bounded_decimal example_registry example_routing_config 0 =
     Ok (example_policy, example_state)"
  by (subst parsing_decimal_bounded) (simp add: example_policy_def example_routing_with)

definition example_request :: json where
  "example_request = JObject [(''messages'', JArray []), (''model'', JString ''m:floor''),
     (''provider'', JObject [(''sort'', JString ''price'')])]"

definition example_stream_request :: json where
  "example_stream_request = JObject [(''messages'', JArray []), (''model'', JString ''m:floor''),
     (''provider'', JObject [(''sort'', JString ''price'')]), (''stream'', JBool True)]"

lemma example_decision_of:
  assumes "0 < rg_share_window config" and request: "request \<in> {example_request, example_stream_request}"
  shows "\<exists>st' request' dec. route_for_endpoint (parsing_decimal f) example_rand (example_policy_with config) []
     example_state Production Chat request = Some (st', request', Ok dec) \<and> dec_canonical_model dec = ''m''"
proof -
  have p: "parse_request example_request = Some (Ok (JObject [(''messages'', JArray []), (''model'', JString ''m''),
     (''provider'', JObject [(''sort'', JString ''price'')])], \<lparr>canonical_model = ''m'', rp_preference = Price\<rparr>))"
    "parse_request example_stream_request = Some (Ok (JObject [(''messages'', JArray []), (''model'', JString ''m''),
     (''provider'', JObject [(''sort'', JString ''price'')]), (''stream'', JBool True)],
     \<lparr>canonical_model = ''m'', rp_preference = Price\<rparr>))"
    by code_simp+
  let ?c = "\<lambda>i a pr. \<lparr>c_provider_id = i, c_combined_price = a, c_priority = pr, c_measurements = None, c_healthy = True\<rparr>"
  have c: "route_candidates (parsing_decimal f) [] [
        descriptor_of (example_provider ''a'' 0 [example_mapping ''m'' 2 3]) (example_mapping ''m'' 2 3),
        descriptor_of (example_provider ''b'' 1 [example_mapping ''m'' 1 2]) (example_mapping ''m'' 1 2)] Production Chat
     None stream ''m'' = Some [?c ''a'' 5 0, ?c ''b'' 3 1]" for stream
    by (simp add: route_candidates_def descriptor_of_def example_mapping_def example_provider_def
      supports_endpoint_def permits_streaming_def permits_top_p_def default_constraints_def default_completion_endpoints_def
      candidate_new_def d_lt_def parsing_decimal_def bounded_decimal_def bounded_def dec_max_def cmp_of_def get_for_def)
  have s: "\<exists>st' fb. select_and_record (parsing_decimal f) example_rand config example_state (Production, ''m'')
     Price [?c ''a'' 5 0, ?c ''b'' 3 1] = Some (st', Ok (''b'', fb))"
    by (simp add: select_and_record_def example_state_def share_tracker_new_def assms(1) select_route_def
      healthy_def min_by_def compare_price_def parsing_decimal_def bounded_decimal_def cmp_of_def bm_remove_def
      plan_fallbacks.simps record_share_def expire_oldest_def)
  note known = route_for_endpoint_def reject_provider_overrides_def parse_top_p_def parse_stream_def
    example_policy_with_def bm_get_def consume_routing_sort_def bm_remove_def
  from s request p c show ?thesis by (auto simp: known example_request_def example_stream_request_def)
qed

lemma example_decision_with:
  assumes "0 < rg_share_window config"
  shows "\<exists>st' request' dec. route_for_endpoint (parsing_decimal f) example_rand (example_policy_with config) []
     example_state Production Chat example_request = Some (st', request', Ok dec) \<and> dec_canonical_model dec = ''m''"
  using example_decision_of [OF assms] by blast

lemma example_decision:
  "\<exists>st' request' dec. route_for_endpoint bounded_decimal example_rand example_policy []
     example_state Production Chat example_request = Some (st', request', Ok dec) \<and> dec_canonical_model dec = ''m''"
  by (subst parsing_decimal_bounded)
    (simp add: example_policy_def example_decision_with example_routing_config_def)

section \<open>The route table\<close>

definition routable :: "'d decimal_ops \<Rightarrow> 'd model_mapping \<Rightarrow> bool" where
  "routable D m \<longleftrightarrow>
     \<not> d_lt D (m_input_price_per_mtok m) (d_zero D) \<and> \<not> d_lt D (m_output_price_per_mtok m) (d_zero D) \<and>
     d_checked_add D (m_input_price_per_mtok m) (m_output_price_per_mtok m) \<noteq> None"

lemma candidate_new_Ok:
  "candidate_new D i a b pr ms h = Ok c \<longleftrightarrow>
   \<not> d_lt D a (d_zero D) \<and> \<not> d_lt D b (d_zero D) \<and> \<not> is_some_and invalid_measurements ms \<and>
   (\<exists>combined. d_checked_add D a b = Some combined \<and>
      c = \<lparr>c_provider_id = i, c_combined_price = combined, c_priority = pr, c_measurements = ms,
           c_healthy = h\<rparr>)"
  by (auto simp: candidate_new_def split: option.splits)

definition model_pairs ::
  "'d provider \<Rightarrow> 'd model_mapping list \<Rightarrow> (route_key \<times> 'd route_descriptor) list" where
  "model_pairs p ms =
     concat (map (\<lambda>m. map (\<lambda>profile. ((profile, m_slug m), descriptor_of p m)) (profile_list p)) ms)"

definition provider_pairs :: "'d provider list \<Rightarrow> (route_key \<times> 'd route_descriptor) list" where
  "provider_pairs ps = concat (map (\<lambda>p. model_pairs p (p_models p)) ps)"

lemma fold_push_profiles:
  "fold (\<lambda>profile. bm_push (profile, slug) x) profiles routes =
   fold (\<lambda>(k, x). bm_push k x) (map (\<lambda>profile. ((profile, slug), x)) profiles) routes"
  by (induction profiles arbitrary: routes) simp_all

lemma push_models_Ok:
  "push_models D p ms routes = Ok routes' \<longleftrightarrow>
   (\<forall>m \<in> set ms. routable D m) \<and> routes' = fold (\<lambda>(k, x). bm_push k x) (model_pairs p ms) routes"
proof (induction ms arbitrary: routes)
  case (Cons m ms)
  have "(\<exists>c. candidate_new D (p_id p) (m_input_price_per_mtok m) (m_output_price_per_mtok m)
      (p_priority p) None True = Ok c) \<longleftrightarrow> routable D m"
    by (auto simp: candidate_new_Ok routable_def)
  then show ?case
    by (cases "candidate_new D (p_id p) (m_input_price_per_mtok m) (m_output_price_per_mtok m)
        (p_priority p) None True")
      (auto simp: Cons.IH model_pairs_def fold_push_profiles)
qed (auto simp: model_pairs_def)

lemma push_providers_Ok:
  "push_providers D ps routes = Ok routes' \<longleftrightarrow>
   (\<forall>p \<in> set ps. \<forall>m \<in> set (p_models p). routable D m) \<and>
   routes' = fold (\<lambda>(k, x). bm_push k x) (provider_pairs ps) routes"
  by (induction ps arbitrary: routes)
    (auto simp: result_bind_Ok push_models_Ok provider_pairs_def)

lemma compare_descriptors_order: "cmp_order compare_descriptors"
  unfolding compare_descriptors_def by (intro cmp_order_then cmp_order_key)

interpretation descriptors: cmp_order compare_descriptors
  by (rule compare_descriptors_order)

text \<open>The reviewed routes of a key: who may serve it, with which constraints.\<close>

definition reviewed_routes :: "'d registry \<Rightarrow> route_key \<Rightarrow> 'd route_descriptor set" where
  "reviewed_routes r key =
     {descriptor_of p m | p m. p \<in> set (enabled_providers r) \<and> fst key \<in> p_profiles p \<and>
        m \<in> set (p_models p) \<and> m_slug m = snd key}"

lemma provider_pairs_values:
  "snd ` {kx \<in> set (provider_pairs ps). fst kx = key} =
   {descriptor_of p m | p m. p \<in> set ps \<and> fst key \<in> p_profiles p \<and> m \<in> set (p_models p) \<and>
      m_slug m = snd key}"
  by (cases key) (force simp: provider_pairs_def model_pairs_def image_iff)

lemma routes_lookup:
  assumes "routing_from_registry D r config rng = Ok (policy, st)"
  shows "set (unwrap_or [] (bm_get key (pol_routes policy))) = reviewed_routes r key"
    and "bm_get key (pol_routes policy) = Some ds \<Longrightarrow> ds \<noteq> []"
    and "sorted_wrt (\<lambda>a b. compare_descriptors a b \<noteq> Greater) (unwrap_or [] (bm_get key (pol_routes policy)))"
    and "\<forall>p \<in> set (enabled_providers r). \<forall>m \<in> set (p_models p). routable D m"
    and "pol_config policy = config" "st = \<lparr>st_shares = [], st_rng = rng\<rparr>"
proof -
  let ?pairs = "provider_pairs (enabled_providers r)"
  have table: "pol_routes policy = bm_map_values (sort_by compare_descriptors)
      (fold (\<lambda>(k, x). bm_push k x) ?pairs [])"
    and rest: "\<forall>p \<in> set (enabled_providers r). \<forall>m \<in> set (p_models p). routable D m"
      "pol_config policy = config" "st = \<lparr>st_shares = [], st_rng = rng\<rparr>"
    using assms by (auto simp: routing_from_registry_def result_bind_Ok push_providers_Ok)
  have get: "bm_get key (pol_routes policy) = (if key \<in> fst ` set ?pairs
      then Some (sort_by compare_descriptors (map snd (filter (\<lambda>(k', _). k' = key) ?pairs))) else None)"
    unfolding table bm_get_map_values bgroup.lookup_fold_push_empty by simp
  have "set (unwrap_or [] (bm_get key (pol_routes policy))) = snd ` {kx \<in> set ?pairs. fst kx = key}"
    unfolding get by (auto simp: image_iff split_def)
  then show "set (unwrap_or [] (bm_get key (pol_routes policy))) = reviewed_routes r key"
    by (simp add: provider_pairs_values reviewed_routes_def)
  show "ds \<noteq> []" if "bm_get key (pol_routes policy) = Some ds"
  proof -
    from that have k: "key \<in> fst ` set ?pairs"
      and ds: "ds = sort_by compare_descriptors (map snd (filter (\<lambda>(k', _). k' = key) ?pairs))"
      by (auto simp: get split: if_splits)
    from k obtain x where "x \<in> set ?pairs" "fst x = key" by auto
    then have "filter (\<lambda>(k', _). k' = key) ?pairs \<noteq> []" by (auto simp: filter_empty_conv split_def)
    then have "0 < length ds" by (simp add: ds)
    then show ?thesis by simp
  qed
  show "sorted_wrt (\<lambda>a b. compare_descriptors a b \<noteq> Greater) (unwrap_or [] (bm_get key (pol_routes policy)))"
    unfolding get by (simp add: descriptors.sorted_sort_by)
  show "\<forall>p \<in> set (enabled_providers r). \<forall>m \<in> set (p_models p). routable D m"
    "pol_config policy = config" "st = \<lparr>st_shares = [], st_rng = rng\<rparr>"
    by (fact rest)+
qed

text \<open>C38: The route table of a policy built from the registry holds, for every profile and model,
  exactly the mappings of the enabled providers that allow the profile; a key nobody serves has no
  entry. The routes of a key are in priority order: the smaller priority first, and between equal
  priorities the smaller provider id.\<close>

theorem route_table_is_reviewed:
  assumes "routing_from_registry D r config rng = Ok (policy, st)"
  shows "set (unwrap_or [] (bm_get key (pol_routes policy))) = reviewed_routes r key \<and>
    (bm_get key (pol_routes policy) = None \<longleftrightarrow> reviewed_routes r key = {}) \<and>
    (\<forall>i j. i < j \<and> j < length (unwrap_or [] (bm_get key (pol_routes policy))) \<longrightarrow>
       (let earlier = unwrap_or [] (bm_get key (pol_routes policy)) ! i;
            later = unwrap_or [] (bm_get key (pol_routes policy)) ! j
        in rd_priority earlier < rd_priority later \<or>
          rd_priority earlier = rd_priority later \<and> rd_provider_id earlier \<le> rd_provider_id later))"
proof -
  have "rd_priority a < rd_priority b \<or> rd_priority a = rd_priority b \<and> rd_provider_id a \<le> rd_provider_id b"
    if "compare_descriptors a b \<noteq> Greater" for a b :: "'d route_descriptor"
    using that by (fastforce simp: compare_descriptors_def not_less)
  with routes_lookup(3) [OF assms, of key] show ?thesis
    using routes_lookup(1) [OF assms, of key] routes_lookup(2) [OF assms, of key]
    by (cases "bm_get key (pol_routes policy)") (auto simp: sorted_wrt_iff_nth_less Let_def)
qed

theorem route_table_is_reviewed_witness:
  "reviewed_routes example_registry (Production, ''m'') \<noteq> {}"
  using route_table_is_reviewed [OF example_routing, of "(Production, ''m'')"]
  by (simp add: example_policy_def example_policy_with_def bm_get_def)

section \<open>Fallbacks\<close>

lemma plan_fallbacks_sound:
  assumes "plan_fallbacks D R candidates preference config t rng = Some ids"
  shows "distinct ids \<and> set ids \<subseteq> c_provider_id ` set candidates"
  using assms
proof (induction D R candidates preference config t rng arbitrary: ids rule: plan_fallbacks.induct)
  case (1 D R candidates preference config t rng)
  show ?case
  proof (cases "select_route D R candidates preference config t rng")
    case None
    with 1(2) show ?thesis by (simp add: plan_fallbacks.simps [of D R candidates])
  next
    case (Some r)
    obtain picked rng' where r: "r = (picked, rng')" by (cases r)
    show ?thesis
    proof (cases picked)
      case None
      with Some r 1(2) show ?thesis by (simp add: plan_fallbacks.simps [of D R candidates])
    next
      case picked: (Some c)
      with Some r 1(2) obtain rest where rest: "ids = c_provider_id c # rest"
        "plan_fallbacks D R (filter (\<lambda>other. c_provider_id other \<noteq> c_provider_id c) candidates)
           preference config t rng' = Some rest"
        by (auto simp: plan_fallbacks.simps [of D R candidates] bind_eq_Some_conv)
      have "c \<in> set candidates" using select_route_mem Some r picked by metis
      with 1(1) [OF Some r [symmetric] picked rest(2)] rest(1) show ?thesis by auto
    qed
  qed
qed

lemma plan_fallbacks_total:
  assumes "decimal_laws D" "config_ok D config" "tracker_ok t" "capacity t < 2 ^ 64"
    and "\<forall>c \<in> set candidates. 0 \<le> d_val D (c_combined_price c)"
  shows "\<exists>ids. plan_fallbacks D R candidates preference config t rng = Some ids"
  using assms
proof (induction D R candidates preference config t rng rule: plan_fallbacks.induct)
  case (1 D R candidates preference config t rng)
  obtain picked rng' where r: "select_route D R candidates preference config t rng = Some (picked, rng')"
    using select_route_total [OF 1(2-6)] by (metis surj_pair)
  show ?case
  proof (cases picked)
    case None
    with r show ?thesis by (simp add: plan_fallbacks.simps [of D R candidates])
  next
    case (Some c)
    from 1(1) [OF r refl Some 1(2-5)] 1(6)
    obtain rest where "plan_fallbacks D R
        (filter (\<lambda>other. c_provider_id other \<noteq> c_provider_id c) candidates) preference config t rng'
      = Some rest" by auto
    with r Some show ?thesis by (simp add: plan_fallbacks.simps [of D R candidates])
  qed
qed

section \<open>The request\<close>

lemma parse_request_Ok:
  assumes "parse_request request = Some (Ok (request1, parsed))"
  shows "\<exists>entries. request = JObject entries \<and>
    request1 = JObject (bm_insert ''model'' (JString (canonical_model parsed)) entries)"
proof -
  obtain model where model: "json_get ''model'' request = Some (JString model)"
    using assms by (auto simp: parse_request_def bind_eq_Some_conv split: option.splits)
  then obtain entries where entries: "request = JObject entries" by (rule json_get_SomeE)
  show ?thesis
    using assms model
    by (auto simp: parse_request_def entries Let_def bind_eq_Some_conv
        split: prod.splits option.splits result.splits)
qed

lemma parse_request_total: "\<exists>r. parse_request request = Some r"
proof (cases "json_get ''model'' request")
  case (Some v)
  then obtain entries where "request = JObject entries" by (rule json_get_SomeE)
  then show ?thesis
    by (auto simp: parse_request_def Let_def split: prod.splits option.splits result.splits)
qed (simp add: parse_request_def)

lemma consume_routing_sort_object:
  "\<exists>entries'. consume_routing_sort (JObject entries) = JObject entries' \<and>
     (\<forall>k. k \<noteq> ''provider'' \<longrightarrow> bm_get k entries' = bm_get k entries)"
  by (auto simp: consume_routing_sort_def Let_def bm_get_insert bm_get_remove split: option.splits)

lemma consume_routing_sort_removes:
  "sort_pointer (consume_routing_sort request) = None"
proof (cases request)
  case (JObject entries)
  show ?thesis
  proof (cases "bm_get ''provider'' entries")
    case (Some v)
    then show ?thesis
      by (cases v) (auto simp: sort_pointer_def consume_routing_sort_def JObject Let_def
          bm_get_insert bm_get_remove)
  qed (simp add: sort_pointer_def consume_routing_sort_def JObject)
qed (simp_all add: sort_pointer_def consume_routing_sort_def)

text \<open>What becomes of the client's provider options: an object loses its \<open>sort\<close>, and disappears when
  nothing else is left in it; anything else stays.\<close>

lemma consume_routing_sort_provider:
  "json_get ''provider'' (consume_routing_sort request) =
     (case json_get ''provider'' request of
        Some (JObject options) \<Rightarrow>
          if bm_remove ''sort'' options = [] then None else Some (JObject (bm_remove ''sort'' options))
      | other \<Rightarrow> other)"
proof (cases request)
  case (JObject entries)
  show ?thesis
  proof (cases "bm_get ''provider'' entries")
    case (Some v)
    then show ?thesis
      by (cases v) (auto simp: consume_routing_sort_def JObject Let_def bm_get_insert bm_get_remove)
  qed (simp add: consume_routing_sort_def JObject)
qed (simp_all add: consume_routing_sort_def)

section \<open>State invariant\<close>

definition shares_ok :: "'d routing_config \<Rightarrow> 'r routing_state \<Rightarrow> bool" where
  "shares_ok config st \<longleftrightarrow>
     (\<forall>key t. bm_get key (st_shares st) = Some t \<longrightarrow>
        tracker_ok t \<and> capacity t = rg_share_window config)"

text \<open>The recent providers of a key; no tracker is an empty window.\<close>

definition window_of :: "'r routing_state \<Rightarrow> route_key \<Rightarrow> string list" where
  "window_of st key = (case bm_get key (st_shares st) of None \<Rightarrow> [] | Some t \<Rightarrow> history t)"

definition slide :: "nat \<Rightarrow> string list \<Rightarrow> string \<Rightarrow> string list" where
  "slide cap window provider_id = drop (length window + 1 - cap) (window @ [provider_id])"

lemma select_and_record_cases:
  assumes "select_and_record D R config st key preference candidates = Some (st', outcome)"
    and "shares_ok config st" "0 < rg_share_window config"
  obtains
    (none) "outcome = Err NoEligibleRoute" "shares_ok config st'" "window_of st' = window_of st"
  | (picked) t rng' c fallbacks where "outcome = Ok (c_provider_id c, fallbacks)"
      "tracker_ok t" "capacity t = rg_share_window config" "history t = window_of st key"
      "select_route D R candidates preference (rg_policy config) t (st_rng st) = Some (Some c, rng')"
      "plan_fallbacks D R (filter (\<lambda>other. c_provider_id other \<noteq> c_provider_id c) candidates)
         preference (rg_policy config) t (seed_from_u64 R FALLBACK_SEED) = Some fallbacks"
      "shares_ok config st'"
      "window_of st' = (window_of st)(key := slide (rg_share_window config) (window_of st key)
         (c_provider_id c))"
proof -
  define t where "t = (case bm_get key (st_shares st) of Some t \<Rightarrow> t
    | None \<Rightarrow> \<lparr>capacity = rg_share_window config, history = [], counts = []\<rparr>)"
  have new: "share_tracker_new (rg_share_window config) =
      Ok \<lparr>capacity = rg_share_window config, history = [], counts = []\<rparr>"
    using assms(3) by (simp add: share_tracker_new_def)
  have t: "tracker_ok t" "capacity t = rg_share_window config" "history t = window_of st key"
    using assms(2) share_tracker_new_ok [OF new]
    by (cases key, force simp: t_def shares_ok_def window_of_def split: option.splits)+
  have recent: "(case bm_get key (st_shares st) of Some t \<Rightarrow> Some t
      | None \<Rightarrow> (case share_tracker_new (rg_share_window config) of Ok t \<Rightarrow> Some t | Err _ \<Rightarrow> None)) = Some t"
    by (simp add: t_def new split: option.splits)
  obtain picked rng' where pick:
    "select_route D R candidates preference (rg_policy config) t (st_rng st) = Some (picked, rng')"
    using assms(1) by (auto simp: select_and_record_def Let_def recent bind_eq_Some_conv)
  have keep: "shares_ok config (st\<lparr>st_shares := bm_insert key u (bm_remove key (st_shares st)), st_rng := x\<rparr>)"
    if "tracker_ok u" "capacity u = rg_share_window config" for u x
    using that assms(2) by (auto simp: shares_ok_def bm_get_insert bm_get_remove split: if_splits)
  have windows: "window_of (st\<lparr>st_shares := bm_insert key u (bm_remove key (st_shares st)), st_rng := x\<rparr>) =
      (window_of st)(key := history u)" for u x
    by (auto simp: fun_eq_iff window_of_def bm_get_insert bm_get_remove)
  show thesis
  proof (cases picked)
    case None
    with assms(1) pick have "outcome = Err NoEligibleRoute"
      "st' = st\<lparr>st_shares := bm_insert key t (bm_remove key (st_shares st)), st_rng := rng'\<rparr>"
      by (auto simp: select_and_record_def Let_def recent)
    with keep [OF t(1,2)] windows [where u = t] t(3) show thesis by (intro none) auto
  next
    case (Some c)
    obtain fallbacks where fb: "plan_fallbacks D R
        (filter (\<lambda>other. c_provider_id other \<noteq> c_provider_id c) candidates)
        preference (rg_policy config) t (seed_from_u64 R FALLBACK_SEED) = Some fallbacks"
      using assms(1) pick Some by (auto simp: select_and_record_def Let_def recent bind_eq_Some_conv)
    obtain t' where t': "record_share t (c_provider_id c) = Some t'" "tracker_ok t'"
        "capacity t' = capacity t"
        "history t' = drop (length (history t) + 1 - capacity t) (history t @ [c_provider_id c])"
      using tracker.record_entry_window [OF t(1)] by blast
    from assms(1) pick Some fb t'(1) have "outcome = Ok (c_provider_id c, fallbacks)"
      "st' = st\<lparr>st_shares := bm_insert key t' (bm_remove key (st_shares st)), st_rng := rng'\<rparr>"
      by (auto simp: select_and_record_def Let_def recent)
    with keep [of t'] windows [where u = t'] t t' pick Some fb show thesis
      by (intro picked [of c fallbacks t rng']) (auto simp: slide_def)
  qed
qed

section \<open>What a routed request gets\<close>

definition permits ::
  "'d decimal_ops \<Rightarrow> completion_endpoint \<Rightarrow> 'd option \<Rightarrow> bool \<Rightarrow> 'd route_descriptor \<Rightarrow> bool" where
  "permits D endpoint top_p stream d \<longleftrightarrow>
     supports_endpoint (rd_request_constraints d) endpoint \<and>
     permits_streaming (rd_request_constraints d) stream \<and>
     permits_top_p D (rd_request_constraints d) top_p"

text \<open>Provider \<open>i\<close> may serve the request: it is enabled, allows the profile, maps the model, and
  the mapping's constraints admit the endpoint, the streaming and the \<open>top_p\<close> asked for.\<close>

definition may_serve ::
  "'d decimal_ops \<Rightarrow> 'd registry \<Rightarrow> routing_profile \<Rightarrow> completion_endpoint \<Rightarrow> json \<Rightarrow> string \<Rightarrow> string \<Rightarrow>
   bool" where
  "may_serve D r profile endpoint request canonical i \<longleftrightarrow>
     (\<exists>p \<in> set (enabled_providers r). \<exists>m \<in> set (p_models p). \<exists>top_p stream.
        p_id p = i \<and> profile \<in> p_profiles p \<and> m_slug m = canonical \<and>
        parse_top_p D request = Ok top_p \<and> parse_stream request = Ok stream \<and>
        permits D endpoint top_p stream (descriptor_of p m))"

lemma route_candidates_Some:
  assumes "route_candidates D measurements ds profile endpoint top_p stream canonical = Some cs"
  shows "c_provider_id ` set cs = rd_provider_id ` {d \<in> set ds. permits D endpoint top_p stream d}"
    and "\<forall>c \<in> set cs. \<exists>d \<in> set ds. permits D endpoint top_p stream d \<and>
      candidate_new D (rd_provider_id d) (rd_input_price_per_mtok d) (rd_output_price_per_mtok d)
        (rd_priority d) (get_for measurements profile (rd_provider_id d) canonical) True = Ok c"
proof -
  let ?new = "\<lambda>d. case candidate_new D (rd_provider_id d) (rd_input_price_per_mtok d)
      (rd_output_price_per_mtok d) (rd_priority d)
      (get_for measurements profile (rd_provider_id d) canonical) True of Ok c \<Rightarrow> Some c | Err _ \<Rightarrow> None"
  have m: "map_panics ?new (filter (permits D endpoint top_p stream) ds) = Some cs"
    using assms by (simp add: route_candidates_def permits_def [abs_def])
  have len: "length cs = length (filter (permits D endpoint top_p stream) ds)"
    using map_panics_length [OF m] .
  have nth: "?new (filter (permits D endpoint top_p stream) ds ! i) = Some (cs ! i)" if "i < length cs" for i
    using map_panics_nth [OF m] that len by simp
  have id: "c_provider_id (cs ! i) = rd_provider_id (filter (permits D endpoint top_p stream) ds ! i)"
    if "i < length cs" for i
    using nth [OF that] by (auto simp: candidate_new_Ok split: result.splits)
  have "map c_provider_id cs = map rd_provider_id (filter (permits D endpoint top_p stream) ds)"
    using len id by (intro nth_equalityI) auto
  then show "c_provider_id ` set cs = rd_provider_id ` {d \<in> set ds. permits D endpoint top_p stream d}"
    by (metis list.set_map set_filter)
  show "\<forall>c \<in> set cs. \<exists>d \<in> set ds. permits D endpoint top_p stream d \<and>
      candidate_new D (rd_provider_id d) (rd_input_price_per_mtok d) (rd_output_price_per_mtok d)
        (rd_priority d) (get_for measurements profile (rd_provider_id d) canonical) True = Ok c"
  proof
    fix c assume "c \<in> set cs"
    then obtain i where i: "i < length cs" "cs ! i = c" by (auto simp: in_set_conv_nth)
    let ?d = "filter (permits D endpoint top_p stream) ds ! i"
    have "?d \<in> set (filter (permits D endpoint top_p stream) ds)" using i len by (intro nth_mem) simp
    moreover have "candidate_new D (rd_provider_id ?d) (rd_input_price_per_mtok ?d)
        (rd_output_price_per_mtok ?d) (rd_priority ?d)
        (get_for measurements profile (rd_provider_id ?d) canonical) True = Ok c"
      using nth [OF i(1)] i(2) by (auto split: result.splits)
    ultimately show "\<exists>d \<in> set ds. permits D endpoint top_p stream d \<and>
      candidate_new D (rd_provider_id d) (rd_input_price_per_mtok d) (rd_output_price_per_mtok d)
        (rd_priority d) (get_for measurements profile (rd_provider_id d) canonical) True = Ok c"
      by auto
  qed
qed

lemma may_serve_reviewed:
  assumes "parse_top_p D request = Ok top_p" "parse_stream request = Ok stream"
  shows "may_serve D r profile endpoint request canonical i \<longleftrightarrow>
    i \<in> rd_provider_id ` {d \<in> reviewed_routes r (profile, canonical). permits D endpoint top_p stream d}"
proof -
  have id: "rd_provider_id (descriptor_of p m) = p_id p" for p m
    by (simp add: descriptor_of_def)
  show ?thesis
    unfolding may_serve_def reviewed_routes_def using assms by (force simp: id image_iff)
qed

text \<open>A successful routing, taken apart.\<close>

lemma route_OkE:
  assumes "route_for_endpoint D R policy measurements st profile endpoint request =
      Some (st', request', Ok dec)"
  obtains top_p stream entries entries' parsed ds cs fallbacks where
    "parse_top_p D request = Ok top_p" "parse_stream request = Ok stream"
    "request = JObject entries"
    "parse_request request = Some (Ok
       (JObject (bm_insert ''model'' (JString (canonical_model parsed)) entries), parsed))"
    "consume_routing_sort (JObject (bm_insert ''model'' (JString (canonical_model parsed)) entries)) =
       JObject entries'"
    "bm_get (profile, canonical_model parsed) (pol_routes policy) = Some ds"
    "route_candidates D measurements ds profile endpoint top_p stream (canonical_model parsed) = Some cs"
    "select_and_record D R (pol_config policy) st (profile, canonical_model parsed)
       (rp_preference parsed) cs = Some (st', Ok (dec_selected_provider dec, fallbacks))"
    "request' = JObject (bm_insert ''model''
       (JString (sidecar_model (dec_selected_provider dec) (canonical_model parsed))) entries')"
    "dec_profile dec = profile" "dec_canonical_model dec = canonical_model parsed"
    "dec_fallback_models dec = map (\<lambda>i. sidecar_model i (canonical_model parsed)) fallbacks"
    "dec_has_alternatives dec \<longleftrightarrow> fallbacks \<noteq> []"
proof -
  note def = route_for_endpoint_def
  obtain u where u: "reject_provider_overrides request = Ok u"
    using assms by (cases "reject_provider_overrides request") (auto simp: def)
  obtain top_p where top_p: "parse_top_p D request = Ok top_p"
    using assms by (cases "parse_top_p D request") (auto simp: def u)
  obtain stream where stream: "parse_stream request = Ok stream"
    using assms by (cases "parse_stream request") (auto simp: def u top_p)
  obtain request1 parsed where parsed: "parse_request request = Some (Ok (request1, parsed))"
  proof -
    obtain outcome where "parse_request request = Some outcome" using parse_request_total by blast
    then show thesis using assms that by (cases outcome) (auto simp: def u top_p stream)
  qed
  from parse_request_Ok [OF this] obtain entries where entries: "request = JObject entries"
    "request1 = JObject (bm_insert ''model'' (JString (canonical_model parsed)) entries)" by blast
  obtain entries' where entries': "consume_routing_sort request1 = JObject entries'"
    using consume_routing_sort_object entries(2) by blast
  note step = def u top_p stream parsed entries' Let_def
  obtain ds where ds: "bm_get (profile, canonical_model parsed) (pol_routes policy) = Some ds"
    using assms by (cases "bm_get (profile, canonical_model parsed) (pol_routes policy)")
      (auto simp: step)
  obtain cs where cs: "route_candidates D measurements ds profile endpoint top_p stream
      (canonical_model parsed) = Some cs"
    using assms by (cases "route_candidates D measurements ds profile endpoint top_p stream
      (canonical_model parsed)") (auto simp: step ds)
  obtain selected fallbacks where sel: "select_and_record D R (pol_config policy) st
      (profile, canonical_model parsed) (rp_preference parsed) cs = Some (st', Ok (selected, fallbacks))"
  proof -
    obtain st1 outcome where "select_and_record D R (pol_config policy) st
        (profile, canonical_model parsed) (rp_preference parsed) cs = Some (st1, outcome)"
      using assms by (cases "select_and_record D R (pol_config policy) st
        (profile, canonical_model parsed) (rp_preference parsed) cs")
        (auto simp: step ds cs split: if_splits)
    then show thesis
      using assms that by (cases outcome) (auto simp: step ds cs bind_eq_Some_conv split: if_splits)
  qed
  have "cs \<noteq> []" using assms by (auto simp: step ds cs split: if_splits)
  with assms sel have "request' = JObject (bm_insert ''model''
       (JString (sidecar_model selected (canonical_model parsed))) entries')"
    "dec = \<lparr>dec_profile = profile, dec_canonical_model = canonical_model parsed,
       dec_selected_provider = selected,
       dec_fallback_models = map (\<lambda>i. sidecar_model i (canonical_model parsed)) fallbacks,
       dec_has_alternatives = fallbacks \<noteq> []\<rparr>"
    by (auto simp: step ds cs)
  with top_p stream entries parsed entries' ds cs sel show thesis
    by (intro that [of top_p stream entries parsed entries' ds cs fallbacks]) auto
qed

lemma route_ids:
  assumes "routing_from_registry D r config rng = Ok (policy, st0)"
    and "parse_top_p D request = Ok top_p" "parse_stream request = Ok stream"
    and "bm_get (profile, canonical) (pol_routes policy) = Some ds"
    and "route_candidates D measurements ds profile endpoint top_p stream canonical = Some cs"
  shows "i \<in> c_provider_id ` set cs \<longleftrightarrow> may_serve D r profile endpoint request canonical i"
  using routes_lookup(1) [OF assms(1), of "(profile, canonical)"] assms(4)
  by (simp add: route_candidates_Some(1) [OF assms(5)] may_serve_reviewed [OF assms(2,3)])

lemma route_plan_permitted:
  assumes "routing_from_registry D r config rng = Ok (policy, st0)"
    and "shares_ok config st" "0 < rg_share_window config"
    and "route_for_endpoint D R policy measurements st profile endpoint request =
      Some (st', request', Ok dec)"
  shows "dec_profile dec = profile \<and>
    may_serve D r profile endpoint request (dec_canonical_model dec) (dec_selected_provider dec) \<and>
    (\<exists>fallbacks. distinct fallbacks \<and> dec_selected_provider dec \<notin> set fallbacks \<and>
       dec_fallback_models dec = map (\<lambda>i. sidecar_model i (dec_canonical_model dec)) fallbacks \<and>
       (\<forall>i \<in> set fallbacks. may_serve D r profile endpoint request (dec_canonical_model dec) i) \<and>
       (dec_has_alternatives dec \<longleftrightarrow> fallbacks \<noteq> []))"
proof (rule route_OkE [OF assms(4)], goal_cases)
  case (1 top_p stream entries entries' parsed ds cs fallbacks)
  note ids = route_ids [OF assms(1) 1(1,2,6,7)]
  have config: "pol_config policy = config" by (rule routes_lookup(5) [OF assms(1)])
  from 1(8) [unfolded config] assms(2,3) show ?case
  proof (cases rule: select_and_record_cases)
    case none
    then show ?thesis by simp
  next
    case (picked t rng' c fallbacks')
    have c: "c \<in> set cs" using select_route_mem [OF picked(5)] by simp
    note fb = plan_fallbacks_sound [OF picked(6)]
    have "set fallbacks' \<subseteq> c_provider_id ` set cs" "c_provider_id c \<notin> set fallbacks'"
      using fb by auto
    then show ?thesis
      using c fb picked(1) 1(10-13) ids by auto
  qed
qed

text \<open>C15: A routed request goes only where the registry allows: the selected provider and every
  planned fallback is an enabled provider that allows the request's profile, maps its model
  and admits its endpoint, streaming and \<open>top_p\<close>; fallbacks are distinct and never repeat
  the selected provider.\<close>

theorem route_goes_to_permitted_providers:
  assumes "routing_from_registry D r config rng = Ok (policy, st0)"
    and "shares_ok config st" "0 < rg_share_window config"
    and "route_for_endpoint D R policy measurements st profile endpoint request =
      Some (st', request', Ok dec)"
  shows "dec_profile dec = profile \<and>
    may_serve D r profile endpoint request (dec_canonical_model dec) (dec_selected_provider dec) \<and>
    (\<exists>fallbacks. distinct fallbacks \<and> dec_selected_provider dec \<notin> set fallbacks \<and>
       dec_fallback_models dec = map (\<lambda>i. sidecar_model i (dec_canonical_model dec)) fallbacks \<and>
       (\<forall>i \<in> set fallbacks. may_serve D r profile endpoint request (dec_canonical_model dec) i) \<and>
       (dec_has_alternatives dec \<longleftrightarrow> fallbacks \<noteq> []))"
  using route_plan_permitted [OF assms] .

lemma routing_starts_empty:
  "routing_from_registry D r config rng = Ok (policy, st) \<Longrightarrow> shares_ok config st"
  using routes_lookup(6) by (fastforce simp: shares_ok_def)

lemma example_shares: "shares_ok example_routing_config example_state"
  by (simp add: shares_ok_def example_state_def)

theorem route_goes_to_permitted_providers_witness:
  "\<exists>i. may_serve bounded_decimal example_registry Production Chat example_request ''m'' i"
proof -
  obtain st' request' dec where ok: "route_for_endpoint bounded_decimal example_rand example_policy []
      example_state Production Chat example_request = Some (st', request', Ok dec)"
    using example_decision by blast
  have "0 < rg_share_window example_routing_config" by (simp add: example_routing_config_def)
  from route_goes_to_permitted_providers [OF example_routing example_shares this ok]
  show ?thesis by (auto simp: may_serve_def example_registry_def enabled_providers_def
      example_provider_def example_mapping_def)
qed

text \<open>C34: Routing rewrites the request minimally. Its model becomes the selected provider's sidecar
  route; of the client's provider options the routing sort is taken out, all others are kept, and
  an options object left empty is dropped; options that are not an object, and every field other
  than \<open>model\<close> and \<open>provider\<close>, are as the client sent them.\<close>

theorem route_rewrites_only_model_and_sort:
  assumes "route_for_endpoint D R policy measurements st profile endpoint request =
      Some (st', request', Ok dec)"
  shows "json_get ''model'' request' =
      Some (JString (sidecar_model (dec_selected_provider dec) (dec_canonical_model dec))) \<and>
    json_get ''provider'' request' =
      (case json_get ''provider'' request of
         Some (JObject options) \<Rightarrow>
           if bm_remove ''sort'' options = [] then None else Some (JObject (bm_remove ''sort'' options))
       | other \<Rightarrow> other) \<and>
    (\<forall>k. k \<noteq> ''model'' \<and> k \<noteq> ''provider'' \<longrightarrow> json_get k request' = json_get k request)"
proof (rule route_OkE [OF assms], goal_cases)
  case (1 top_p stream entries entries' parsed ds cs fallbacks)
  let ?renamed = "bm_insert ''model'' (JString (canonical_model parsed)) entries"
  have rest: "bm_get k entries' = bm_get k ?renamed" if "k \<noteq> ''provider''" for k
    using consume_routing_sort_object [of ?renamed] 1(5) that by auto
  have "json_get ''provider'' (JObject entries') =
      json_get ''provider'' (consume_routing_sort (JObject ?renamed))"
    using 1(5) by simp
  then have "json_get ''provider'' request' = json_get ''provider'' (consume_routing_sort (JObject ?renamed))"
    by (simp add: 1(9) bm_get_insert)
  moreover have "json_get ''provider'' (JObject ?renamed) = json_get ''provider'' request"
    by (simp add: 1(3) bm_get_insert)
  ultimately show ?case
    using rest by (simp add: consume_routing_sort_provider 1(3,9,11) bm_get_insert)
qed

theorem route_rewrites_only_model_and_sort_witness:
  "\<exists>st' request' dec. route_for_endpoint bounded_decimal example_rand example_policy []
     example_state Production Chat example_request = Some (st', request', Ok dec) \<and>
     json_get ''provider'' example_request \<noteq> None \<and> json_get ''provider'' request' = None"
proof -
  obtain st' request' dec where ok: "route_for_endpoint bounded_decimal example_rand example_policy []
      example_state Production Chat example_request = Some (st', request', Ok dec)"
    using example_decision by blast
  from route_rewrites_only_model_and_sort [OF ok] ok show ?thesis
    by (auto simp: example_request_def bm_get_def bm_remove_def)
qed

text \<open>Traffic shares are isolated: routing a request changes the rolling window of its own
  profile and model only, and only when it succeeds, by appending the selected provider and
  dropping the oldest entry of a full window.\<close>

lemma route_shares:
  assumes "shares_ok (pol_config policy) st" "0 < rg_share_window (pol_config policy)"
    and "route_for_endpoint D R policy measurements st profile endpoint request =
      Some (st', request', outcome)"
  shows "shares_ok (pol_config policy) st' \<and>
    window_of st' = (case outcome of
       Err _ \<Rightarrow> window_of st
     | Ok dec \<Rightarrow> (window_of st)((profile, dec_canonical_model dec) :=
         slide (rg_share_window (pol_config policy))
           (window_of st (profile, dec_canonical_model dec)) (dec_selected_provider dec)))"
proof (cases outcome)
  case (Ok dec)
  from assms(3) [unfolded Ok] show ?thesis
  proof (rule route_OkE, goal_cases)
    case (1 top_p stream entries entries' parsed ds cs fallbacks)
    from 1(8) assms(1,2) show ?case
      by (cases rule: select_and_record_cases) (auto simp: Ok 1(11))
  qed
next
  case (Err e)
  have "st' = st \<or> (\<exists>key preference cs e'. select_and_record D R (pol_config policy) st key preference cs =
      Some (st', Err e'))"
  proof -
    obtain parsing where "parse_request request = Some parsing" using parse_request_total by blast
    then show ?thesis
      using assms(3) Err
      by (auto simp: route_for_endpoint_def Let_def bind_eq_Some_conv
          split: result.split_asm option.split_asm if_split_asm prod.split_asm)
        (metis result.exhaust surj_pair)
  qed
  then show ?thesis
  proof (elim disjE exE)
    fix key preference cs e'
    assume "select_and_record D R (pol_config policy) st key preference cs = Some (st', Err e')"
    then show ?thesis using assms(1,2)
      by (cases rule: select_and_record_cases) (auto simp: Err)
  qed (use assms(1) Err in simp)
qed

section \<open>Routing never panics\<close>

lemma measurements_ok_valid: "measurements_ok m \<Longrightarrow> \<not> invalid_measurements m"
  using f64_nonneg_upto_finite by (auto simp: measurements_ok_def invalid_measurements_def)

lemma route_candidates_total:
  assumes "routing_from_registry D r config rng = Ok (policy, st0)" "store_ok measurements"
    and "bm_get key (pol_routes policy) = Some ds"
  shows "\<exists>cs. route_candidates D measurements ds profile endpoint top_p stream canonical = Some cs"
proof -
  have "\<exists>c. candidate_new D (rd_provider_id d) (rd_input_price_per_mtok d)
      (rd_output_price_per_mtok d) (rd_priority d)
      (get_for measurements profile (rd_provider_id d) canonical) True = Ok c" if d: "d \<in> set ds" for d
  proof -
    have "d \<in> reviewed_routes r key" using routes_lookup(1) [OF assms(1), of key] assms(3) d by simp
    then obtain p m where "d = descriptor_of p m" "p \<in> set (enabled_providers r)" "m \<in> set (p_models p)"
      by (auto simp: reviewed_routes_def)
    with routes_lookup(4) [OF assms(1)] have "routable D m" "d = descriptor_of p m" by auto
    moreover have "\<not> is_some_and invalid_measurements (get_for measurements profile (rd_provider_id d) canonical)"
      using assms(2) measurements_ok_valid
      by (cases "get_for measurements profile (rd_provider_id d) canonical") (auto simp: store_ok_def)
    ultimately show ?thesis by (auto simp: candidate_new_Ok routable_def descriptor_of_def)
  qed
  then show ?thesis
    unfolding route_candidates_def by (intro map_panics_Some) fastforce
qed

lemma candidate_price_nonneg:
  assumes "decimal_laws D" "candidate_new D i a b pr ms h = Ok c"
  shows "0 \<le> d_val D (c_combined_price c)"
proof -
  obtain combined where "d_checked_add D a b = Some combined" and c: "c_combined_price c = combined"
    and nonneg: "0 \<le> d_val D a + d_val D b"
    using assms by (auto simp: candidate_new_Ok d_lt_val d_zero_val not_less)
  with d_add_result [OF assms(1), of a b] dec_result_nonneg show ?thesis by metis
qed

lemma select_and_record_total:
  assumes laws: "decimal_laws D" and config: "routing_config_ok D config" and st: "shares_ok config st"
    and nonneg: "\<forall>c \<in> set cs. 0 \<le> d_val D (c_combined_price c)"
  shows "\<exists>x. select_and_record D R config st key preference cs = Some x"
proof -
  have new: "share_tracker_new (rg_share_window config) =
      Ok \<lparr>capacity = rg_share_window config, history = [], counts = []\<rparr>"
    using config by (simp add: share_tracker_new_def routing_config_ok_def)
  obtain t where recent: "(case bm_get key (st_shares st) of Some t \<Rightarrow> Some t
      | None \<Rightarrow> (case share_tracker_new (rg_share_window config) of Ok t \<Rightarrow> Some t | Err _ \<Rightarrow> None)) = Some t"
    and t: "tracker_ok t" "capacity t = rg_share_window config"
    using st share_tracker_new_ok [OF new]
    by (cases "bm_get key (st_shares st)"; cases key) (auto simp: new shares_ok_def)
  have cap: "capacity t < 2 ^ 64" and ok: "config_ok D (rg_policy config)"
    using t(2) config by (simp_all add: routing_config_ok_def)
  obtain picked rng' where pick:
    "select_route D R cs preference (rg_policy config) t (st_rng st) = Some (picked, rng')"
    using select_route_total [OF laws ok t(1) cap nonneg] by (metis surj_pair)
  show ?thesis
  proof (cases picked)
    case None
    with pick show ?thesis by (auto simp: select_and_record_def Let_def recent)
  next
    case (Some c)
    have "\<forall>x \<in> set (filter (\<lambda>other. c_provider_id other \<noteq> c_provider_id c) cs).
        0 \<le> d_val D (c_combined_price x)" using nonneg by simp
    from plan_fallbacks_total [OF laws ok t(1) cap this, of R preference "seed_from_u64 R FALLBACK_SEED"]
    obtain fallbacks where "plan_fallbacks D R (filter (\<lambda>other. c_provider_id other \<noteq> c_provider_id c) cs)
        preference (rg_policy config) t (seed_from_u64 R FALLBACK_SEED) = Some fallbacks" by blast
    moreover obtain t' where "record_share t (c_provider_id c) = Some t'"
      using tracker.record_entry_window [OF t(1)] by blast
    ultimately show ?thesis using pick Some by (auto simp: select_and_record_def Let_def recent)
  qed
qed

text \<open>The last steps of a routing whose candidates are known.\<close>

lemma route_selected_total:
  assumes "reject_provider_overrides request = Ok ()" "parse_top_p D request = Ok top_p" "parse_stream request = Ok stream"
    and "parse_request request = Some (Ok (request1, parsed))"
    and "bm_get (profile, canonical_model parsed) (pol_routes policy) = Some ds"
    and "route_candidates D measurements ds profile endpoint top_p stream (canonical_model parsed) = Some cs"
    and "select_and_record D R (pol_config policy) st (profile, canonical_model parsed) (rp_preference parsed) cs
      = Some (st', outcome)"
  shows "\<exists>answer. route_for_endpoint D R policy measurements st profile endpoint request = Some answer"
proof (cases outcome)
  case (Err e)
  with assms show ?thesis by (simp add: route_for_endpoint_def Let_def)
next
  case (Ok selection)
  obtain selected fallbacks where "selection = (selected, fallbacks)" by (cases selection)
  moreover from parse_request_Ok [OF assms(4)] obtain entries where "request1 = JObject entries" by blast
  then obtain entries' where "consume_routing_sort request1 = JObject entries'"
    using consume_routing_sort_object by blast
  ultimately show ?thesis using assms Ok by (simp add: route_for_endpoint_def Let_def)
qed

text \<open>Routing always answers: for a policy built from a registry, a valid configuration and any
  measurements the store can hold, every request, however malformed, gets a decision or one of the
  client-visible errors.\<close>

lemma route_never_panics:
  assumes "decimal_laws D" "routing_from_registry D r config rng = Ok (policy, st0)"
    and "routing_config_ok D config" "store_ok measurements" "shares_ok config st"
  shows "\<exists>answer. route_for_endpoint D R policy measurements st profile endpoint request = Some answer"
proof -
  have config: "pol_config policy = config" by (rule routes_lookup(5) [OF assms(2)])
  obtain parsing where parsing: "parse_request request = Some parsing" using parse_request_total by blast
  have routed: "\<exists>x. select_and_record D R config st key preference cs = Some x"
    if "route_candidates D measurements ds profile endpoint top_p stream canonical = Some cs"
    for key preference cs ds top_p stream canonical
    using route_candidates_Some(2) [OF that] candidate_price_nonneg [OF assms(1)]
    by (intro select_and_record_total [OF assms(1,3,5)]) blast
  have candidates: "\<exists>cs. route_candidates D measurements ds profile endpoint top_p stream canonical = Some cs"
    if "bm_get key (pol_routes policy) = Some ds" for key ds top_p stream canonical
    by (rule route_candidates_total [OF assms(2,4) that])
  show ?thesis
  proof (cases "(\<exists>u. reject_provider_overrides request = Ok u) \<and> (\<exists>top_p. parse_top_p D request = Ok top_p) \<and>
      (\<exists>stream. parse_stream request = Ok stream) \<and> (\<exists>rp. parsing = Ok rp)")
    case False
    then show ?thesis
      by (cases "reject_provider_overrides request"; cases "parse_top_p D request"; cases "parse_stream request";
          cases parsing) (simp_all add: route_for_endpoint_def parsing)
  next
    case True
    then obtain top_p stream request1 parsed where
      req: "reject_provider_overrides request = Ok ()" "parse_top_p D request = Ok top_p" "parse_stream request = Ok stream"
      "parse_request request = Some (Ok (request1, parsed))"
      using parsing by auto
    show ?thesis
    proof (cases "bm_get (profile, canonical_model parsed) (pol_routes policy)")
      case None
      with req show ?thesis by (simp add: route_for_endpoint_def)
    next
      case (Some ds)
      obtain cs where cs: "route_candidates D measurements ds profile endpoint top_p stream
          (canonical_model parsed) = Some cs" using candidates [OF Some] by blast
      obtain st' outcome where "select_and_record D R config st (profile, canonical_model parsed)
          (rp_preference parsed) cs = Some (st', outcome)" using routed [OF cs] by (metis surj_pair)
      from route_selected_total [OF req Some cs this [folded config]] show ?thesis .
    qed
  qed
qed

end
