(* ===== verification/Usage_Cost.thy ===== *)
theory Usage_Cost
  imports Pricing
begin

text \<open>
  Response accounting (\<open>src/usage_cost.rs\<close>): the provider cost written into \<open>usage.cost\<close>,
  the scrubbing of provider-specific fields and the public shape of a completion object. A
  function that mutates its \<open>&mut Value\<close> returns the new value; where it returns an error the
  code has not changed the value.
\<close>

section \<open>Data\<close>

record 'd costed_usage =
  cu_response_id :: "string option"
  cu_usage :: usage
  cu_cost_usd :: 'd

record 'd costed_response =
  cr_body :: bytes
  cr_usage :: "'d costed_usage"

datatype provider_reported_cost_policy = UsageCostOnly | DeepInfraEstimatedCost

datatype cost_omission =
    InvalidJson | MissingUsage | InvalidUsage | InvalidProviderCost | UnknownPrice
  | UnresolvedProviderCost

datatype public_response_rejection = RejectInvalidJson | EmbeddedError | UnrecognizedShape

fun rejection_text :: "public_response_rejection \<Rightarrow> string" where
  "rejection_text RejectInvalidJson = ''response is not valid JSON''"
| "rejection_text EmbeddedError = ''successful response contains an error''"
| "rejection_text UnrecognizedShape = ''response is not an OpenAI completion object''"

fun omission_text :: "cost_omission \<Rightarrow> string" where
  "omission_text InvalidJson = ''response is not valid JSON''"
| "omission_text MissingUsage = ''response usage object is missing''"
| "omission_text InvalidUsage = ''response token usage is invalid''"
| "omission_text InvalidProviderCost = ''provider-reported usage cost is invalid''"
| "omission_text UnknownPrice = ''provider/model price is unknown''"
| "omission_text UnresolvedProviderCost = ''provider cost requires exact cached-token usage''"

section \<open>Prices of a request\<close>

definition canonical_slug :: "string \<Rightarrow> string \<Rightarrow> string" where
  "canonical_slug requested_model served =
     unwrap_or requested_model
       (option_filter (\<lambda>slug. slug \<noteq> [])
         (Option.bind (strip_prefix served requested_model) (strip_prefix ''/'')))"

definition prices_for_request ::
  "string \<Rightarrow> served_provider \<Rightarrow> 'd price_table \<Rightarrow> ('d provider_prices, cost_omission) result" where
  "prices_for_request requested_model served table =
     ok_or UnknownPrice
       (price_table_get table (provider_str served) (canonical_slug requested_model (provider_str served)))"

definition cost_policy :: "served_provider \<Rightarrow> provider_reported_cost_policy" where
  "cost_policy served =
     (if provider_str served = ''deepinfra'' \<or> provider_str served = ''deepinfra-glm''
      then DeepInfraEstimatedCost else UsageCostOnly)"

section \<open>Scrubbing\<close>

abbreviation psf :: string where "psf \<equiv> ''provider_specific_fields''"

lemma bm_remove_size [termination_simp]:
  "(k, v) \<in> set (bm_remove key m) \<Longrightarrow> size v < Suc (size_list (\<lambda>x. Suc (size (snd x))) m)"
  by (induction m) (auto simp: bm_remove_def split: if_splits)

text \<open>The scrubbed value, and whether anything was removed from it.\<close>

fun strip_provider_specific_fields :: "json \<Rightarrow> json \<times> bool" where
  "strip_provider_specific_fields (JObject m) =
     (let children = map (\<lambda>(k, v). (k, strip_provider_specific_fields v)) (bm_remove psf m)
      in (JObject (map (\<lambda>(k, v, removed). (k, v)) children),
          is_some (bm_get psf m) \<or> list_ex (\<lambda>(k, v, removed). removed) children))"
| "strip_provider_specific_fields (JArray xs) =
     (let children = map strip_provider_specific_fields xs
      in (JArray (map fst children), list_ex snd children))"
| "strip_provider_specific_fields v = (v, False)"

definition public_fields :: "string set" where
  "public_fields =
     {''id'', ''object'', ''created'', ''model'', ''choices'', ''usage'', ''service_tier'',
      ''system_fingerprint''}"

definition completion_objects :: "string set" where
  "completion_objects = {''chat.completion'', ''chat.completion.chunk'', ''text_completion''}"

definition sanitize_public_completion_value ::
  "json \<Rightarrow> string \<Rightarrow> (json, public_response_rejection) result" where
  "sanitize_public_completion_value response canonical_model =
     (case as_object response of
        None \<Rightarrow> Err UnrecognizedShape
      | Some entries \<Rightarrow>
          (if is_some_and (\<lambda>e. \<not> is_null e) (bm_get ''error'' entries) then Err EmbeddedError
           else let object = Option.bind (bm_get ''object'' entries) as_str in
             if is_none_or (\<lambda>i. i = []) (Option.bind (bm_get ''id'' entries) as_str) \<or>
                \<not> is_some_and (\<lambda>name. name \<in> completion_objects) object \<or>
                \<not> is_some_and is_array (bm_get ''choices'' entries)
             then Err UnrecognizedShape
             else Ok (JObject (bm_insert ''model'' (JString canonical_model)
                    (bm_retain (\<lambda>field. field \<in> public_fields)
                      (bm_map_values (\<lambda>v. fst (strip_provider_specific_fields v)) entries))))))"

section \<open>Usage cost\<close>

definition reported_cost ::
  "'d decimal_ops \<Rightarrow> json option \<Rightarrow> ('d option, cost_omission) result" where
  "reported_cost D value =
     (case value of
        None \<Rightarrow> Ok None
      | Some v \<Rightarrow>
          (if is_null v then Ok None
           else case v of
               JNumber serialized \<Rightarrow>
                 (case or_else (d_from_str D serialized) (d_from_scientific D serialized) of
                    None \<Rightarrow> Err InvalidProviderCost
                  | Some cost \<Rightarrow>
                      (case normalize_cost_usd D cost of
                         Some c \<Rightarrow> Ok (Some c)
                       | None \<Rightarrow> Err InvalidProviderCost))
             | _ \<Rightarrow> Err InvalidProviderCost))"

definition token_usage :: "json_ops \<Rightarrow> (string \<times> json) list \<Rightarrow> (usage, cost_omission) result" where
  "token_usage J u =
     result_bind (ok_or InvalidUsage (Option.bind (bm_get ''prompt_tokens'' u) (as_u64 J)))
       (\<lambda>prompt. result_bind (ok_or InvalidUsage (Option.bind (bm_get ''completion_tokens'' u) (as_u64 J)))
         (\<lambda>completion. Ok \<lparr>prompt_tokens = prompt, completion_tokens = completion\<rparr>))"

definition cached_tokens :: "json_ops \<Rightarrow> (string \<times> json) list \<Rightarrow> u64 option" where
  "cached_tokens J u =
     do { v \<leftarrow> bm_get ''prompt_tokens_details'' u;
          details \<leftarrow> as_object v;
          cached \<leftarrow> bm_get ''cached_tokens'' details;
          as_u64 J cached }"

definition usage_cost ::
  "'d decimal_ops \<Rightarrow> (string \<times> json) list \<Rightarrow> 'd provider_prices \<Rightarrow> provider_reported_cost_policy \<Rightarrow>
   usage \<Rightarrow> u64 option \<Rightarrow> ('d, cost_omission) result panics" where
  "usage_cost D u prices policy tokens cached =
     (case reported_cost D (bm_get ''cost'' u) of
        Err e \<Rightarrow> Some (Err e)
      | Ok (Some cost) \<Rightarrow> Some (Ok cost)
      | Ok None \<Rightarrow>
          (case (if policy = DeepInfraEstimatedCost then reported_cost D (bm_get ''estimated_cost'' u)
                 else Ok None) of
             Err e \<Rightarrow> Some (Err e)
           | Ok (Some cost) \<Rightarrow> Some (Ok cost)
           | Ok None \<Rightarrow>
               do { computed \<leftarrow> provider_cost_usd D prices tokens cached;
                    Some (ok_or UnresolvedProviderCost computed) }))"

definition inject_usage_cost_value_with_policy ::
  "'d decimal_ops \<Rightarrow> json_ops \<Rightarrow> json \<Rightarrow> 'd provider_prices \<Rightarrow> provider_reported_cost_policy \<Rightarrow>
   (json \<times> 'd costed_usage, cost_omission) result panics" where
  "inject_usage_cost_value_with_policy D J response prices policy =
     (let response_id = Option.bind (json_get ''id'' response) as_str in
      case Option.bind (json_get ''usage'' response) as_object of
        None \<Rightarrow> Some (Err MissingUsage)
      | Some u \<Rightarrow>
          (case token_usage J u of
             Err e \<Rightarrow> Some (Err e)
           | Ok tokens \<Rightarrow>
               do { cost \<leftarrow> usage_cost D u prices policy tokens (cached_tokens J u);
                    case cost of
                      Err e \<Rightarrow> Some (Err e)
                    | Ok resolved \<Rightarrow>
                        do { number \<leftarrow> number_from_str J (d_to_string D resolved);
                             let u1 = bm_insert ''cost'' (JNumber number) u;
                                 u2 = (if policy = DeepInfraEstimatedCost
                                       then bm_remove ''estimated_cost'' u1 else u1);
                                 entries = unwrap_or [] (as_object response)
                             in Some (Ok (JObject (bm_insert ''usage'' (JObject u2) entries),
                                 \<lparr>cu_response_id = response_id, cu_usage = tokens,
                                  cu_cost_usd = resolved\<rparr>)) } }))"

definition inject_usage_cost ::
  "'d decimal_ops \<Rightarrow> json_ops \<Rightarrow> bytes \<Rightarrow> string \<Rightarrow> served_provider \<Rightarrow> 'd price_table \<Rightarrow>
   ('d costed_response, cost_omission) result panics" where
  "inject_usage_cost D J body requested_model served table =
     (case from_slice J body of
        None \<Rightarrow> Some (Err InvalidJson)
      | Some parsed \<Rightarrow>
          let response = fst (strip_provider_specific_fields parsed) in
          (case prices_for_request requested_model served table of
             Err e \<Rightarrow> Some (Err e)
           | Ok prices \<Rightarrow>
               do { injected \<leftarrow> inject_usage_cost_value_with_policy D J response prices
                      (cost_policy served);
                    Some (result_bind injected (\<lambda>(v, costed).
                      case to_vec J v of
                        None \<Rightarrow> Err InvalidJson
                      | Some out \<Rightarrow> Ok \<lparr>cr_body = out, cr_usage = costed\<rparr>)) }))"

section \<open>What scrubbing does\<close>

lemma bm_get_is_some: "is_some (bm_get k m) \<longleftrightarrow> k \<in> fst ` set m"
  by (simp add: bm_get_def is_some_iff) (metis domIff dom_map_of_conv_image_fst option.collapse option.distinct(1))

lemma strip_removed: "snd (strip_provider_specific_fields v) \<longleftrightarrow> \<not> json_lacks psf v"
proof (induction v rule: strip_provider_specific_fields.induct)
  case (1 m)
  have "snd (strip_provider_specific_fields (snd x)) \<longleftrightarrow> \<not> json_lacks psf (snd x)"
    if "x \<in> set (bm_remove psf m)" for x
    using 1 [of x] that by (cases x) auto
  then have "(\<exists>x \<in> set (bm_remove psf m). snd (strip_provider_specific_fields (snd x))) \<longleftrightarrow>
      (\<exists>x \<in> set (bm_remove psf m). \<not> json_lacks psf (snd x))"
    by (rule bex_cong [OF refl])
  then have eq: "snd (strip_provider_specific_fields (JObject m)) \<longleftrightarrow>
      psf \<in> fst ` set m \<or> (\<exists>x \<in> set (bm_remove psf m). \<not> json_lacks psf (snd x))"
    by (simp add: Let_def list_ex_iff bm_get_is_some split_def)
  show ?case
  proof (cases "psf \<in> fst ` set m")
    case False
    then have "bm_remove psf m = m" by (force simp: bm_remove_def filter_id_conv)
    with False eq show ?thesis by (auto simp: list_all_iff split_def)
  qed (use eq in simp)
next
  case (2 xs)
  then show ?case by (auto simp: Let_def list_ex_iff list_all_iff)
qed simp_all

lemma strip_lacks: "json_lacks psf (fst (strip_provider_specific_fields v))"
  by (induction v rule: strip_provider_specific_fields.induct)
    (auto simp: Let_def list_all_iff bm_remove_def split_def)

lemma strip_id: "json_lacks psf v \<Longrightarrow> fst (strip_provider_specific_fields v) = v"
proof (induction v rule: strip_provider_specific_fields.induct)
  case (1 m)
  then have "bm_remove psf m = m"
    by (force simp: bm_remove_def filter_id_conv)
  moreover have "map (\<lambda>(k, v). (k, fst (strip_provider_specific_fields v))) m = m"
    using 1 calculation by (intro map_idI) (auto simp: list_all_iff)
  ultimately show ?case by (simp add: Let_def comp_def split_def)
next
  case (2 xs)
  then show ?case by (auto simp: Let_def list_all_iff comp_def intro!: map_idI)
qed simp_all

lemma strip_wf: "json_wf v \<Longrightarrow> json_wf (fst (strip_provider_specific_fields v))"
proof (induction v rule: strip_provider_specific_fields.induct)
  case (1 m)
  have "bm_wf (bm_map_values (\<lambda>v. fst (strip_provider_specific_fields v)) (bm_remove psf m))"
    using 1 by (simp add: bm_wf_remove)
  then have "bm_wf (map (\<lambda>x. (fst x, fst (strip_provider_specific_fields (snd x)))) (bm_remove psf m))"
    by (simp add: bm_map_values_def split_def)
  with 1 show ?case
    by (auto simp: Let_def list_all_iff bm_remove_def split_def comp_def)
qed (auto simp: Let_def list_all_iff)

lemma strip_get:
  "json_get k (fst (strip_provider_specific_fields v)) =
     (if k = psf then None
      else map_option (\<lambda>x. fst (strip_provider_specific_fields x)) (json_get k v))"
proof (cases v)
  case (JObject m)
  have "map (\<lambda>x. (fst x, fst (strip_provider_specific_fields (snd x)))) (bm_remove psf m) =
      bm_map_values (\<lambda>v. fst (strip_provider_specific_fields v)) (bm_remove psf m)"
    by (simp add: bm_map_values_def split_def)
  then show ?thesis
    by (simp add: JObject Let_def comp_def split_def bm_get_map_values bm_get_remove)
qed (simp_all add: Let_def)

text \<open>Scrubbing leaves no \<open>provider_specific_fields\<close> key in any object at any depth, changes
  nothing else, and reports a removal exactly when the value contained such a key.\<close>

lemma strip_provider_specific_fields_scrubs:
  "json_lacks psf (fst (strip_provider_specific_fields v)) \<and>
   (snd (strip_provider_specific_fields v) \<longleftrightarrow> \<not> json_lacks psf v) \<and>
   (fst (strip_provider_specific_fields v) = v \<longleftrightarrow> json_lacks psf v) \<and>
   json_get k (fst (strip_provider_specific_fields v)) =
     (if k = psf then None
      else map_option (\<lambda>x. fst (strip_provider_specific_fields x)) (json_get k v))"
  using strip_lacks [of v] strip_removed [of v] strip_id [of v] strip_get [of k v] by metis

lemma strip_JString: "fst (strip_provider_specific_fields v) = JString s \<longleftrightarrow> v = JString s"
  by (cases v) (simp_all add: Let_def)

definition public_object :: "string \<Rightarrow> json \<Rightarrow> bool" where
  "public_object model v \<longleftrightarrow>
     json_lacks psf v \<and>
     (\<exists>m. v = JObject m \<and> fst ` set m \<subseteq> public_fields \<and>
        bm_get ''model'' m = Some (JString model) \<and>
        (\<exists>i. i \<noteq> [] \<and> bm_get ''id'' m = Some (JString i)) \<and>
        (\<exists>name \<in> completion_objects. bm_get ''object'' m = Some (JString name)))"

lemma sanitize_Ok_cases:
  assumes "sanitize_public_completion_value v model = Ok v'"
  obtains m i name xs where "v = JObject m"
    "v' = JObject (bm_insert ''model'' (JString model) (bm_retain (\<lambda>field. field \<in> public_fields)
        (bm_map_values (\<lambda>v. fst (strip_provider_specific_fields v)) m)))"
    "bm_get ''id'' m = Some (JString i)" "i \<noteq> []"
    "bm_get ''object'' m = Some (JString name)" "name \<in> completion_objects"
    "bm_get ''choices'' m = Some (JArray xs)"
    "bm_get ''error'' m = None \<or> bm_get ''error'' m = Some JNull"
proof -
  obtain m where m: "v = JObject m"
    using assms by (cases v) (auto simp: sanitize_public_completion_value_def)
  have err: "\<not> is_some_and (\<lambda>e. \<not> is_null e) (bm_get ''error'' m)"
    and shape: "\<not> is_none_or (\<lambda>i. i = []) (Option.bind (bm_get ''id'' m) as_str)"
      "is_some_and (\<lambda>name. name \<in> completion_objects) (Option.bind (bm_get ''object'' m) as_str)"
      "is_some_and is_array (bm_get ''choices'' m)"
    and v': "v' = JObject (bm_insert ''model'' (JString model)
        (bm_retain (\<lambda>field. field \<in> public_fields)
          (bm_map_values (\<lambda>v. fst (strip_provider_specific_fields v)) m)))"
    using assms by (auto simp: sanitize_public_completion_value_def m Let_def split: if_splits)
  have null: "is_null e \<longleftrightarrow> e = JNull" for e by (cases e) simp_all
  obtain i where "bm_get ''id'' m = Some (JString i)" "i \<noteq> []"
    using shape(1) by (auto simp: is_none_or_def bind_eq_Some_conv split: option.splits)
  moreover obtain name where "bm_get ''object'' m = Some (JString name)" "name \<in> completion_objects"
    using shape(2) by (auto simp: is_some_and_def bind_eq_Some_conv split: option.splits)
  moreover obtain xs where "bm_get ''choices'' m = Some (JArray xs)"
    using shape(3) by (auto simp: is_some_and_def is_array_iff split: option.splits)
  moreover have "bm_get ''error'' m = None \<or> bm_get ''error'' m = Some JNull"
    using err by (auto simp: is_some_and_def null split: option.splits)
  ultimately show thesis using that [OF m v'] by blast
qed

lemma json_lacks_map_strip:
  "json_lacks psf (JObject (bm_retain (\<lambda>field. field \<in> public_fields)
     (bm_map_values (\<lambda>v. fst (strip_provider_specific_fields v)) m)))"
  by (auto simp: bm_retain_def bm_map_values_def list_all_iff strip_lacks public_fields_def)

lemma sanitize_public_object:
  assumes "sanitize_public_completion_value v model = Ok v'"
  shows "public_object model v'"
proof -
  from sanitize_Ok_cases [OF assms] obtain m i name where v: "v = JObject m"
    and v': "v' = JObject (bm_insert ''model'' (JString model)
        (bm_retain (\<lambda>field. field \<in> public_fields)
          (bm_map_values (\<lambda>v. fst (strip_provider_specific_fields v)) m)))"
    and get: "bm_get ''id'' m = Some (JString i)" "i \<noteq> []"
      "bm_get ''object'' m = Some (JString name)" "name \<in> completion_objects"
    by metis
  have "fst ` set (bm_retain (\<lambda>field. field \<in> public_fields)
        (bm_map_values (\<lambda>v. fst (strip_provider_specific_fields v)) m)) \<subseteq> public_fields"
    by (auto simp: bm_retain_def)
  moreover have "json_lacks psf v'"
    unfolding v' by (rule json_lacks_insert [OF json_lacks_map_strip]) simp_all
  ultimately show ?thesis
    using get by (auto simp: public_object_def v' keys_bm_insert bm_get_insert bm_get_retain
        bm_get_map_values public_fields_def)
qed

lemma sanitize_public_field:
  assumes "sanitize_public_completion_value v model = Ok v'" "k \<noteq> ''model''" "k \<in> public_fields"
  shows "json_get k v' = map_option (\<lambda>x. fst (strip_provider_specific_fields x)) (json_get k v)"
  by (rule sanitize_Ok_cases [OF assms(1)])
    (use assms(2,3) in \<open>simp add: bm_get_insert bm_get_map_values bm_get_retain\<close>)

text \<open>C30: A completion object that passes the public sanitizer has only the allowed public
  fields, contains no provider-specific field at any depth, names the canonical model and
  keeps its non-empty id, and each other public field is the scrubbed original.\<close>

theorem sanitize_public_completion_value_confidential:
  assumes "sanitize_public_completion_value v model = Ok v'"
  shows "public_object model v' \<and>
    (\<forall>k \<in> public_fields - {''model''}.
       json_get k v' = map_option (\<lambda>x. fst (strip_provider_specific_fields x)) (json_get k v))"
  using sanitize_public_object [OF assms] sanitize_public_field [OF assms] by blast

definition example_completion :: json where
  "example_completion =
     JObject [(''choices'', JArray [JObject [(''provider_specific_fields'', JNull)]]),
              (''id'', JString ''gen-1''), (''model'', JString ''upstream-secret''),
              (''object'', JString ''chat.completion''),
              (''provider'', JString ''secret''),
              (''usage'', JObject [(''completion_tokens'', JNumber ''1''),
                (''prompt_tokens'', JNumber ''1'')])]"

theorem sanitize_public_completion_value_confidential_witness:
  "public_object ''canonical'' (JObject [(''choices'', JArray [JObject []]), (''id'', JString ''gen-1''),
     (''model'', JString ''canonical''), (''object'', JString ''chat.completion''),
     (''usage'', JObject [(''completion_tokens'', JNumber ''1''), (''prompt_tokens'', JNumber ''1'')])])"
proof -
  have "sanitize_public_completion_value example_completion ''canonical'' =
      Ok (JObject [(''choices'', JArray [JObject []]), (''id'', JString ''gen-1''),
     (''model'', JString ''canonical''), (''object'', JString ''chat.completion''),
     (''usage'', JObject [(''completion_tokens'', JNumber ''1''), (''prompt_tokens'', JNumber ''1'')])])"
    by code_simp
  from sanitize_public_completion_value_confidential [OF this] show ?thesis by blast
qed

section \<open>What is billed\<close>

lemma normalize_cost_usd_Some:
  assumes "decimal_laws D" "normalize_cost_usd D c = Some n"
  shows "d_val D n = round_away 10 (d_val D c)" and "0 \<le> d_val D n"
proof -
  have pos: "0 \<le> d_val D c" and n: "n = d_rescale D 10 (d_round_dp_away D 10 c)"
    using assms by (auto simp: normalize_cost_usd_def COST_SCALE_def d_lt_val d_zero_val split: if_splits)
  obtain k where "round_away 10 (d_val D c) = of_int k / 10 ^ 10" using round_away_scaled by blast
  then show v: "d_val D n = round_away 10 (d_val D c)"
    by (simp add: n d_rescale_val [OF assms(1)] d_round_val [OF assms(1)])
  show "0 \<le> d_val D n" using pos by (simp add: v round_away_nonneg)
qed

lemma provider_cost_usd_normalized:
  assumes "provider_cost_usd D prices tokens cached = Some (Some c)"
  shows "\<exists>q. normalize_cost_usd D q = Some c"
  using assms
  by (fastforce simp: provider_cost_usd_def cost_usd_def rounded_cost_def bind_eq_Some_conv
      split: option.splits)

lemma reported_cost_normalized:
  assumes "reported_cost D v = Ok (Some c)"
  shows "\<exists>q. normalize_cost_usd D q = Some c"
  using assms by (auto simp: reported_cost_def split: option.splits if_splits json.splits)

lemma usage_cost_normalized:
  assumes "usage_cost D u prices policy tokens cached = Some (Ok c)"
  shows "\<exists>q. normalize_cost_usd D q = Some c"
  using assms
  by (auto simp: usage_cost_def ok_or_def bind_eq_Some_conv
      split: result.splits option.splits if_splits
      intro: reported_cost_normalized provider_cost_usd_normalized)

text \<open>A successful injection, taken apart.\<close>

lemma inject_OkE:
  assumes "inject_usage_cost_value_with_policy D J response prices policy = Some (Ok (v, cu))"
  obtains m u tokens number u2 where
    "response = JObject m" "bm_get ''usage'' m = Some (JObject u)"
    "token_usage J u = Ok tokens"
    "usage_cost D u prices policy tokens (cached_tokens J u) = Some (Ok (cu_cost_usd cu))"
    "number_from_str J (d_to_string D (cu_cost_usd cu)) = Some number"
    "u2 = (if policy = DeepInfraEstimatedCost
           then bm_remove ''estimated_cost'' (bm_insert ''cost'' (JNumber number) u)
           else bm_insert ''cost'' (JNumber number) u)"
    "v = JObject (bm_insert ''usage'' (JObject u2) m)"
    "cu_response_id cu = Option.bind (bm_get ''id'' m) as_str" "cu_usage cu = tokens"
proof -
  obtain u where u: "json_get ''usage'' response = Some (JObject u)"
    using assms by (auto simp: inject_usage_cost_value_with_policy_def Let_def bind_eq_Some_conv
        split: option.splits)
  obtain m where m: "response = JObject m" "bm_get ''usage'' m = Some (JObject u)"
    using u by (rule json_get_SomeE)
  obtain tokens where tokens: "token_usage J u = Ok tokens"
    using assms by (cases "token_usage J u")
      (auto simp: inject_usage_cost_value_with_policy_def m)
  obtain c where c: "usage_cost D u prices policy tokens (cached_tokens J u) = Some (Ok c)"
    using assms by (cases "usage_cost D u prices policy tokens (cached_tokens J u)")
      (auto simp: inject_usage_cost_value_with_policy_def m tokens split: result.splits)
  obtain number where number: "number_from_str J (d_to_string D c) = Some number"
    using assms by (cases "number_from_str J (d_to_string D c)")
      (auto simp: inject_usage_cost_value_with_policy_def m tokens c)
  show thesis
    by (rule that [OF m tokens _ _ refl])
      (use assms number in \<open>auto simp: inject_usage_cost_value_with_policy_def m tokens c Let_def\<close>)
qed

text \<open>The exact amount the response is charged, before rounding.\<close>

definition parse_cost :: "'d decimal_ops \<Rightarrow> string \<Rightarrow> 'd option" where
  "parse_cost D s = or_else (d_from_str D s) (d_from_scientific D s)"

definition absent :: "json option \<Rightarrow> bool" where
  "absent v \<longleftrightarrow> v = None \<or> v = Some JNull"

definition charged ::
  "'d decimal_ops \<Rightarrow> json_ops \<Rightarrow> (string \<times> json) list \<Rightarrow> 'd provider_prices \<Rightarrow>
   provider_reported_cost_policy \<Rightarrow> usage \<Rightarrow> rat option" where
  "charged D J u prices policy tokens =
     (let reported = (\<lambda>key. case bm_get key u of
            Some (JNumber s) \<Rightarrow> map_option (d_val D) (parse_cost D s) | _ \<Rightarrow> None)
      in if \<not> absent (bm_get ''cost'' u) then reported ''cost''
         else if policy = DeepInfraEstimatedCost \<and> \<not> absent (bm_get ''estimated_cost'' u)
           then reported ''estimated_cost''
         else reference_cost D prices tokens (cached_tokens J u))"

lemma reported_cost_None: "reported_cost D v = Ok None \<longleftrightarrow> absent v"
proof -
  have "is_null x \<longleftrightarrow> x = JNull" for x by (cases x) simp_all
  then show ?thesis
    by (auto simp: reported_cost_def absent_def split: option.splits json.splits if_splits)
qed

lemma reported_cost_Some:
  assumes "decimal_laws D" "reported_cost D v = Ok (Some c)"
  shows "\<not> absent v \<and> (\<exists>s q. v = Some (JNumber s) \<and> parse_cost D s = Some q \<and>
    d_val D c = round_away 10 (d_val D q))"
  using assms(2)
  by (auto simp: reported_cost_def absent_def parse_cost_def normalize_cost_usd_Some [OF assms(1)]
      split: option.splits json.splits if_splits)

lemma usage_cost_charged:
  assumes laws: "decimal_laws D" and digits: "prices_digits D s prices" "s \<le> 22"
    and ok: "usage_cost D u prices policy tokens (cached_tokens J u) = Some (Ok c)"
  shows "\<exists>q. charged D J u prices policy tokens = Some q \<and> d_val D c = round_away 10 q"
proof (cases "absent (bm_get ''cost'' u)")
  case False
  then obtain c' where "reported_cost D (bm_get ''cost'' u) = Ok (Some c')"
    using ok reported_cost_None [of D "bm_get ''cost'' u"]
    by (auto simp: usage_cost_def split: result.splits option.splits)
  with ok have "reported_cost D (bm_get ''cost'' u) = Ok (Some c)" by (simp add: usage_cost_def)
  with reported_cost_Some [OF laws this] False show ?thesis by (auto simp: charged_def)
next
  case absent: True
  then have none: "reported_cost D (bm_get ''cost'' u) = Ok None" by (simp add: reported_cost_None)
  show ?thesis
  proof (cases "policy = DeepInfraEstimatedCost \<and> \<not> absent (bm_get ''estimated_cost'' u)")
    case True
    then have "reported_cost D (bm_get ''estimated_cost'' u) = Ok (Some c)"
      using ok none reported_cost_None [of D "bm_get ''estimated_cost'' u"]
      by (auto simp: usage_cost_def split: result.splits option.splits)
    with reported_cost_Some [OF laws this] absent True show ?thesis by (auto simp: charged_def)
  next
    case False
    then have "(if policy = DeepInfraEstimatedCost then reported_cost D (bm_get ''estimated_cost'' u)
        else Ok None) = Ok None"
      by (simp add: reported_cost_None)
    with ok none have "provider_cost_usd D prices tokens (cached_tokens J u) = Some (Some c)"
      by (auto simp: usage_cost_def ok_or_def bind_eq_Some_conv split: option.splits)
    with provider_cost_reference [OF laws digits, of tokens "cached_tokens J u"] absent False
    show ?thesis
      by (cases "reference_cost D prices tokens (cached_tokens J u)") (auto simp: charged_def)
  qed
qed

text \<open>Writing the cost changes nothing but the response's \<open>usage\<close> object, and in it only
  \<open>cost\<close>, which becomes the decimal text of the recorded cost, and for DeepInfra
  \<open>estimated_cost\<close>, which is removed; the recorded id and token counts are the response's.\<close>

lemma inject_usage_cost_frame:
  assumes "inject_usage_cost_value_with_policy D J response prices policy = Some (Ok (v, cu))"
  shows "\<exists>m u u2 number. response = JObject m \<and> bm_get ''usage'' m = Some (JObject u) \<and>
    v = JObject (bm_insert ''usage'' (JObject u2) m) \<and>
    number_from_str J (d_to_string D (cu_cost_usd cu)) = Some number \<and>
    (\<forall>k. bm_get k u2 = (if policy = DeepInfraEstimatedCost \<and> k = ''estimated_cost'' then None
      else if k = ''cost'' then Some (JNumber number) else bm_get k u)) \<and>
    cu_response_id cu = Option.bind (bm_get ''id'' m) as_str \<and> token_usage J u = Ok (cu_usage cu)"
proof (rule inject_OkE [OF assms], goal_cases)
  case (1 m u tokens number u2)
  have "\<forall>k. bm_get k u2 = (if policy = DeepInfraEstimatedCost \<and> k = ''estimated_cost'' then None
      else if k = ''cost'' then Some (JNumber number) else bm_get k u)"
    by (simp add: 1(6) bm_get_insert bm_get_remove)
  with 1(1-5,7-9) show ?case by blast
qed

text \<open>A response shows a charge: its \<open>usage.cost\<close> is the number with the decimal text of the cost, its
  token counts are the charged ones, and its id is the one recorded.\<close>

definition shows_charge :: "'d decimal_ops \<Rightarrow> json_ops \<Rightarrow> 'd costed_usage \<Rightarrow> json \<Rightarrow> bool" where
  "shows_charge D J cu v \<longleftrightarrow>
     (\<exists>u number. json_get ''usage'' v = Some (JObject u) \<and> bm_get ''cost'' u = Some (JNumber number) \<and>
        number_from_str J (d_to_string D (cu_cost_usd cu)) = Some number \<and>
        Option.bind (bm_get ''prompt_tokens'' u) (as_u64 J) = Some (prompt_tokens (cu_usage cu)) \<and>
        Option.bind (bm_get ''completion_tokens'' u) (as_u64 J) = Some (completion_tokens (cu_usage cu))) \<and>
     Option.bind (json_get ''id'' v) as_str = cu_response_id cu"

lemma inject_shows_charge:
  assumes "inject_usage_cost_value_with_policy D J response prices policy = Some (Ok (v, cu))"
  shows "shows_charge D J cu v"
proof -
  from inject_usage_cost_frame [OF assms] obtain m u u2 number where
    v: "v = JObject (bm_insert ''usage'' (JObject u2) m)"
    and number: "number_from_str J (d_to_string D (cu_cost_usd cu)) = Some number"
    and get: "\<forall>k. bm_get k u2 = (if policy = DeepInfraEstimatedCost \<and> k = ''estimated_cost'' then None
      else if k = ''cost'' then Some (JNumber number) else bm_get k u)"
    and rest: "cu_response_id cu = Option.bind (bm_get ''id'' m) as_str" "token_usage J u = Ok (cu_usage cu)" by blast
  from rest(2) have "Option.bind (bm_get ''prompt_tokens'' u) (as_u64 J) = Some (prompt_tokens (cu_usage cu))"
    "Option.bind (bm_get ''completion_tokens'' u) (as_u64 J) = Some (completion_tokens (cu_usage cu))"
    by (cases "cu_usage cu"; auto simp: token_usage_def result_bind_Ok ok_or_def split: option.splits)+
  then show ?thesis
    using number get rest(1) by (simp add: shows_charge_def v bm_get_insert)
qed

text \<open>A JSON library whose numbers are the one-digit texts, for the witnesses.\<close>

definition example_json :: json_ops where
  "example_json =
     \<lparr>from_slice = (\<lambda>b. if b = ''{}'' then Some (JObject []) else None), to_vec = (\<lambda>_. Some ''{}''),
      number_as_u64 = (\<lambda>s. if s = ''1'' then Some 1 else None), number_from_str = Some\<rparr>"

text \<open>C5: When the code writes a cost into a response, the response it returns is the one it was
  given with its \<open>usage\<close> object changed: there \<open>cost\<close> is the number whose text is the decimal text
  of the charge, for DeepInfra \<open>estimated_cost\<close> is gone, and every other field is as it was. The
  charge, which is also what is recorded, is the exact charged amount rounded once to ten decimal
  places: the provider's own \<open>usage.cost\<close> when it reports one, for DeepInfra its
  \<open>estimated_cost\<close> otherwise, and else the reviewed prices applied to the reported token counts.
  It is never negative, and it is recorded under the id of the response.\<close>

theorem inject_usage_cost_charges_exactly:
  assumes "decimal_laws D" "prices_digits D s prices" "s \<le> 22"
    and "inject_usage_cost_value_with_policy D J response prices policy = Some (Ok (v, cu))"
  shows "\<exists>m u u2 number q. response = JObject m \<and> bm_get ''usage'' m = Some (JObject u) \<and>
    v = JObject (bm_insert ''usage'' (JObject u2) m) \<and>
    (\<forall>k. bm_get k u2 = (if policy = DeepInfraEstimatedCost \<and> k = ''estimated_cost'' then None
      else if k = ''cost'' then Some (JNumber number) else bm_get k u)) \<and>
    number_from_str J (d_to_string D (cu_cost_usd cu)) = Some number \<and>
    charged D J u prices policy (cu_usage cu) = Some q \<and>
    d_val D (cu_cost_usd cu) = round_away 10 q \<and> 0 \<le> d_val D (cu_cost_usd cu) \<and>
    cu_response_id cu = Option.bind (bm_get ''id'' m) as_str"
proof -
  from inject_usage_cost_frame [OF assms(4)] obtain m u u2 number where frame: "response = JObject m"
    "bm_get ''usage'' m = Some (JObject u)" "v = JObject (bm_insert ''usage'' (JObject u2) m)"
    "number_from_str J (d_to_string D (cu_cost_usd cu)) = Some number"
    "\<forall>k. bm_get k u2 = (if policy = DeepInfraEstimatedCost \<and> k = ''estimated_cost'' then None
      else if k = ''cost'' then Some (JNumber number) else bm_get k u)"
    "cu_response_id cu = Option.bind (bm_get ''id'' m) as_str" by blast
  then have cost: "usage_cost D u prices policy (cu_usage cu) (cached_tokens J u) = Some (Ok (cu_cost_usd cu))"
    by - (rule inject_OkE [OF assms(4)], simp)
  from usage_cost_normalized [OF cost] have "0 \<le> d_val D (cu_cost_usd cu)"
    using normalize_cost_usd_Some(2) [OF assms(1)] by blast
  with frame usage_cost_charged [OF assms(1-3) cost] show ?thesis by blast
qed

theorem inject_usage_cost_charges_exactly_witness:
  "\<exists>v cu number. inject_usage_cost_value_with_policy bounded_decimal example_json example_completion
       (mapping_prices (example_mapping ''m'' 2 3)) UsageCostOnly = Some (Ok (v, cu)) \<and>
     number_from_str example_json (d_to_string bounded_decimal (cu_cost_usd cu)) = Some number \<and>
     Option.bind (json_get ''usage'' v) (json_get ''cost'') = Some (JNumber number)"
proof -
  let ?D = "bounded_decimal" and ?P = "mapping_prices (example_mapping ''m'' 2 3)"
  have "prices_digits ?D 0 ?P"
    by (auto simp: prices_digits_def price_digits_def bounded_decimal_def mapping_prices_def
        example_mapping_def intro: exI [of _ 2] exI [of _ 3])
  moreover from provider_cost_reference [OF bounded_decimal_laws this, of
      "\<lparr>prompt_tokens = 1, completion_tokens = 1\<rparr>" None]
  obtain c where c: "provider_cost_usd ?D ?P \<lparr>prompt_tokens = 1, completion_tokens = 1\<rparr> None
      = Some (Some c)"
    by (auto simp: reference_cost_def mapping_prices_def example_mapping_def)
  have "\<exists>v cu. inject_usage_cost_value_with_policy ?D example_json example_completion ?P UsageCostOnly
      = Some (Ok (v, cu))"
    by (simp add: inject_usage_cost_value_with_policy_def example_completion_def example_json_def
        token_usage_def cached_tokens_def usage_cost_def reported_cost_def c as_u64_def
        bm_get_def)
  then obtain v cu where ok: "inject_usage_cost_value_with_policy ?D example_json example_completion
      ?P UsageCostOnly = Some (Ok (v, cu))" by blast
  from inject_usage_cost_charges_exactly [OF bounded_decimal_laws calculation(1) _ ok]
  obtain m u2 number where "v = JObject (bm_insert ''usage'' (JObject u2) m)"
    "bm_get ''cost'' u2 = Some (JNumber number)"
    "number_from_str example_json (d_to_string ?D (cu_cost_usd cu)) = Some number" by auto
  with ok show ?thesis by (auto simp: bm_get_insert)
qed

text \<open>A model whose author is named like the provider is looked up without the author: its reviewed
  price, listed under the full slug, is not found.\<close>

lemma prices_of_self_named_slug:
  assumes "s \<noteq> []"
  shows "prices_for_request (i @ ''/'' @ s) (ServedProvider i) table = ok_or UnknownPrice (price_table_get table i s)"
  using assms by (simp add: prices_for_request_def canonical_slug_def option_filter_def)

section \<open>What injection leaves alone\<close>

lemma inject_lacks:
  assumes "inject_usage_cost_value_with_policy D J response prices policy = Some (Ok (v, cu))"
    and "json_lacks key response" "key \<noteq> ''usage''" "key \<noteq> ''cost''"
  shows "json_lacks key v"
proof (rule inject_OkE [OF assms(1)])
  fix m u number u2
  assume m: "response = JObject m" "bm_get ''usage'' m = Some (JObject u)"
    and u2: "u2 = (if policy = DeepInfraEstimatedCost
           then bm_remove ''estimated_cost'' (bm_insert ''cost'' (JNumber number) u)
           else bm_insert ''cost'' (JNumber number) u)"
    and v: "v = JObject (bm_insert ''usage'' (JObject u2) m)"
  have "json_lacks key (JObject u)" using json_lacks_field assms(2) m by blast
  then have "json_lacks key (JObject (bm_insert ''cost'' (JNumber number) u))"
    using assms(4) by (intro json_lacks_insert) auto
  then have "json_lacks key (JObject u2)"
    unfolding u2 bm_remove_def using json_lacks_filter by (cases "policy = DeepInfraEstimatedCost") auto
  then show ?thesis
    unfolding v using assms(2,3) m(1) by (intro json_lacks_insert) auto
qed

end
