(* ===== verification/Sse.thy ===== *)
theory Sse
  imports Usage_Cost
begin

text \<open>
  The server-sent-event transformer (\<open>src/sse.rs\<close>): it frames events across arbitrary HTTP
  chunks, sanitizes each public event, writes the provider cost into the terminal usage event
  and fails closed. A method that takes \<open>self\<close> returns the new state; \<open>None\<close> is a panic.
\<close>

section \<open>State\<close>

record 'd transformer =
  ut_pending :: bytes
  ut_prices :: "'d provider_prices option"
  ut_response_model :: "string option"
  ut_costed_usage :: "'d costed_usage option"
  ut_policy :: provider_reported_cost_policy
  ut_closed :: bool

definition transformer_new :: "'d provider_prices \<Rightarrow> 'd transformer" where
  "transformer_new prices =
     \<lparr>ut_pending = [], ut_prices = Some prices, ut_response_model = None, ut_costed_usage = None,
      ut_policy = UsageCostOnly, ut_closed = False\<rparr>"

definition model_only :: "string \<Rightarrow> 'd transformer" where
  "model_only response_model =
     \<lparr>ut_pending = [], ut_prices = None, ut_response_model = Some response_model,
      ut_costed_usage = None, ut_policy = UsageCostOnly, ut_closed = False\<rparr>"

definition with_response_model :: "'d transformer \<Rightarrow> string \<Rightarrow> 'd transformer" where
  "with_response_model st response_model = st\<lparr>ut_response_model := Some response_model\<rparr>"

definition with_provider_cost_policy ::
  "'d transformer \<Rightarrow> provider_reported_cost_policy \<Rightarrow> 'd transformer" where
  "with_provider_cost_policy st policy = st\<lparr>ut_policy := policy\<rparr>"

definition is_closed :: "'d transformer \<Rightarrow> bool" where
  "is_closed st \<longleftrightarrow> ut_closed st"

section \<open>Framing\<close>

text \<open>\<open>windows(n).position(...)\<close>: the first position at which the needle occurs.\<close>

fun find_subslice :: "'a list \<Rightarrow> 'a list \<Rightarrow> nat option" where
  "find_subslice haystack needle =
     (if starts_with needle haystack then Some 0
      else case haystack of [] \<Rightarrow> None | _ # rest \<Rightarrow> map_option Suc (find_subslice rest needle))"

declare find_subslice.simps [simp del]

definition next_event_end :: "bytes \<Rightarrow> nat option" where
  "next_event_end bs =
     (let lf = map_option (\<lambda>position. position + 2) (find_subslice bs [LF, LF]);
          crlf = map_option (\<lambda>position. position + 4) (find_subslice bs [CR, LF, CR, LF])
      in case (lf, crlf) of
           (Some l, Some c) \<Rightarrow> Some (min l c)
         | (Some l, None) \<Rightarrow> Some l
         | (None, Some c) \<Rightarrow> Some c
         | (None, None) \<Rightarrow> None)"

definition split_at :: "nat \<Rightarrow> 'a list \<Rightarrow> 'a list \<times> 'a list" where
  "split_at n xs = (take n xs, drop n xs)"

definition split_separator :: "bytes \<Rightarrow> bytes \<times> bytes" where
  "split_separator event =
     (if ends_with [CR, LF, CR, LF] event then split_at (length event - 4) event
      else split_at (length event - 2) event)"

text \<open>The line without its \<open>data:\<close> prefix, and that prefix.\<close>

definition single_data_line :: "bytes \<Rightarrow> (bytes \<times> bytes) option" where
  "single_data_line body =
     (if LF \<in> set body \<or> CR \<in> set body then None
      else do { data \<leftarrow> strip_prefix ''data:'' body;
                let data = unwrap_or data (strip_prefix '' '' data) in
                Some (split_at (length body - length data) body) })"

lemma single_data_line_Some:
  assumes "single_data_line body = Some (data_prefix, data)"
  shows "body = data_prefix @ data" "data_prefix = ''data:'' \<or> data_prefix = ''data: ''"
    "LF \<notin> set body" "CR \<notin> set body"
proof -
  show "LF \<notin> set body" "CR \<notin> set body"
    using assms by (auto simp: single_data_line_def split: if_splits)
  obtain rest where rest: "body = ''data:'' @ rest"
    using assms by (auto simp: single_data_line_def bind_eq_Some_conv split: if_splits)
  have line: "(data_prefix, data) =
      split_at (length body - length (unwrap_or rest (strip_prefix '' '' rest))) body"
    using assms unfolding single_data_line_def rest
    by (auto simp: Let_def split: if_splits)
  show "body = data_prefix @ data" using line by (simp add: split_at_def)
  show "data_prefix = ''data:'' \<or> data_prefix = ''data: ''"
    using line by (cases "strip_prefix '' '' rest") (auto simp: split_at_def rest)
qed

lemma find_subslice_Some:
  "find_subslice h n = Some i \<Longrightarrow>
   (\<exists>r. h = take i h @ n @ r) \<and> i + length n \<le> length h \<and>
   (\<forall>j < i. \<not> starts_with n (drop j h))"
proof (induction h arbitrary: i)
  case Nil
  then show ?case
    by (subst (asm) find_subslice.simps) (auto simp: starts_with_iff split: if_splits)
next
  case (Cons a h)
  show ?case
  proof (cases "starts_with n (a # h)")
    case True
    with Cons.prems have "i = 0" by (subst (asm) find_subslice.simps) simp
    moreover from True obtain r where "a # h = n @ r" by (auto simp: starts_with_iff)
    moreover from this have "length n \<le> Suc (length h)"
      by (metis le_add1 length_Cons length_append)
    ultimately show ?thesis by auto
  next
    case False
    with Cons.prems obtain k where k: "i = Suc k" "find_subslice h n = Some k"
      by (subst (asm) find_subslice.simps) auto
    with Cons.IH [of k] False show ?thesis by (auto simp: less_Suc_eq_0_disj)
  qed
qed

lemma starts_with_append: "starts_with p t \<Longrightarrow> starts_with p (t @ u)"
  by (auto simp: starts_with_iff)

lemma find_subslice_append:
  "find_subslice h n = Some i \<Longrightarrow> find_subslice (h @ c) n = Some i"
proof (induction h arbitrary: i)
  case Nil
  then show ?case
    by (subst (asm) find_subslice.simps; subst find_subslice.simps)
      (auto simp: starts_with_iff split: if_splits)
next
  case (Cons a h)
  show ?case
  proof (cases "starts_with n (a # h)")
    case True
    with Cons.prems have "i = 0" by (subst (asm) find_subslice.simps) simp
    moreover have "starts_with n ((a # h) @ c)" using True by (rule starts_with_append)
    ultimately show ?thesis by (subst find_subslice.simps) simp
  next
    case False
    with Cons.prems obtain k where k: "i = Suc k" "find_subslice h n = Some k"
      by (subst (asm) find_subslice.simps) auto
    have "\<not> starts_with n ((a # h) @ c)"
    proof
      assume "starts_with n ((a # h) @ c)"
      then obtain r where r: "(a # h) @ c = n @ r" by (auto simp: starts_with_iff)
      have "length n \<le> length h" using find_subslice_Some [OF k(2)] by simp
      then have "n = take (length n) (a # h)" using r
        by (metis append_eq_append_conv_if le_SucI length_Cons)
      then have "a # h = n @ drop (length n) (a # h)" by (metis append_take_drop_id)
      then show False using False by (auto simp: starts_with_iff)
    qed
    moreover have "find_subslice (h @ c) n = Some k" by (rule Cons.IH [OF k(2)])
    ultimately show ?thesis using k by (subst find_subslice.simps) simp
  qed
qed

lemma find_subslice_None:
  "find_subslice h n = None \<Longrightarrow> \<not> starts_with n (drop j h)"
proof (induction h arbitrary: j)
  case Nil
  then show ?case by (subst (asm) find_subslice.simps) (auto split: if_splits)
next
  case (Cons a h)
  from Cons.prems have "\<not> starts_with n (a # h)" "find_subslice h n = None"
    by (subst (asm) find_subslice.simps, simp split: if_splits)+
  with Cons.IH show ?case by (cases j) auto
qed

lemma find_subslice_later:
  assumes "find_subslice b n = None" "find_subslice (b @ c) n = Some j"
  shows "length b < j + length n"
proof (rule ccontr)
  assume "\<not> length b < j + length n"
  then have le: "j + length n \<le> length b" by simp
  from find_subslice_Some [OF assms(2)] obtain r where "b @ c = take j (b @ c) @ n @ r" by blast
  then have "drop j (b @ c) = n @ r" by (metis append_take_drop_id same_append_eq)
  moreover have "take (length n) (drop j (b @ c)) = take (length n) (drop j b)" using le by simp
  ultimately have "take (length n) (drop j b) = n" by simp
  then have "starts_with n (drop j b)" by (metis append_take_drop_id starts_with_iff)
  with find_subslice_None [OF assms(1)] show False by blast
qed

lemma next_event_end_cases:
  "next_event_end b = Some e \<longleftrightarrow>
   (\<exists>l k. find_subslice b [LF, LF] = Some l \<and> find_subslice b [CR, LF, CR, LF] = Some k \<and>
      e = min (l + 2) (k + 4)) \<or>
   (\<exists>l. find_subslice b [LF, LF] = Some l \<and> find_subslice b [CR, LF, CR, LF] = None \<and> e = l + 2) \<or>
   (\<exists>k. find_subslice b [LF, LF] = None \<and> find_subslice b [CR, LF, CR, LF] = Some k \<and> e = k + 4)"
  by (cases "find_subslice b [LF, LF]"; cases "find_subslice b [CR, LF, CR, LF]")
    (auto simp: next_event_end_def)

lemma find_subslice_length: "find_subslice h n = Some i \<Longrightarrow> i + length n \<le> length h"
  using find_subslice_Some by blast

lemma next_event_end_bounds:
  assumes "next_event_end b = Some e"
  shows "2 \<le> e" "e \<le> length b"
  using assms by (auto simp: next_event_end_cases dest!: find_subslice_length)

lemma drain_measure: "next_event_end b = Some e \<Longrightarrow> length b - e < length b"
  using next_event_end_bounds [of b e] by simp

text \<open>An event once complete stays the first event, whatever arrives later.\<close>

lemma next_event_end_append:
  assumes "next_event_end b = Some e"
  shows "next_event_end (b @ c) = Some e"
proof -
  note append = find_subslice_append [of b _ _ c]
  consider (both) l k where "find_subslice b [LF, LF] = Some l"
      "find_subslice b [CR, LF, CR, LF] = Some k" "e = min (l + 2) (k + 4)"
    | (lf) l where "find_subslice b [LF, LF] = Some l" "find_subslice b [CR, LF, CR, LF] = None"
      "e = l + 2"
    | (crlf) k where "find_subslice b [LF, LF] = None" "find_subslice b [CR, LF, CR, LF] = Some k"
      "e = k + 4"
    using assms unfolding next_event_end_cases by blast
  then show ?thesis
  proof cases
    case both
    then show ?thesis by (simp add: next_event_end_def append)
  next
    case lf
    then have "l + 2 \<le> length b" using find_subslice_length [OF lf(1)] by simp
    with lf find_subslice_later [OF lf(2), of c] append [OF lf(1)] show ?thesis
      by (cases "find_subslice (b @ c) [CR, LF, CR, LF]") (auto simp: next_event_end_def)
  next
    case crlf
    then have "k + 4 \<le> length b" using find_subslice_length [OF crlf(2)] by simp
    with crlf find_subslice_later [OF crlf(1), of c] append [OF crlf(2)] show ?thesis
      by (cases "find_subslice (b @ c) [LF, LF]") (auto simp: next_event_end_def)
  qed
qed

section \<open>Events\<close>

definition generic_upstream_error :: "string \<Rightarrow> json" where
  "generic_upstream_error canonical_model =
     JObject [(''error'', JObject [(''code'', JString ''upstream_error''),
       (''message'', JString ''upstream request failed''),
       (''metadata'', JObject [(''model'', JString canonical_model)])])]"

definition generic_upstream_error_event :: "json_ops \<Rightarrow> string \<Rightarrow> bytes panics" where
  "generic_upstream_error_event J canonical_model =
     do { error \<leftarrow> to_vec J (generic_upstream_error canonical_model);
          Some (''data: '' @ error @ [LF, LF] @ ''data: [DONE]'' @ [LF, LF]) }"

definition is_terminal_usage_event :: "json \<Rightarrow> bool" where
  "is_terminal_usage_event v \<longleftrightarrow> is_some_and is_object (json_get ''usage'' v)"

definition is_deepinfra_preliminary_usage :: "json \<Rightarrow> provider_reported_cost_policy \<Rightarrow> bool" where
  "is_deepinfra_preliminary_usage v policy \<longleftrightarrow>
     (if policy \<noteq> DeepInfraEstimatedCost \<or>
         is_none_or (\<lambda>xs. xs = []) (Option.bind (json_get ''choices'' v) as_array)
      then False
      else is_some_and (\<lambda>u. is_none_or is_null (bm_get ''cost'' u) \<and>
                            is_none_or is_null (bm_get ''estimated_cost'' u))
             (Option.bind (json_get ''usage'' v) as_object))"

definition close_with_generic_error ::
  "json_ops \<Rightarrow> 'd transformer \<Rightarrow> string \<Rightarrow>
   ('d transformer \<times> bytes \<times> 'd costed_usage option) panics" where
  "close_with_generic_error J st response_model =
     do { event \<leftarrow> generic_upstream_error_event J response_model;
          Some (st\<lparr>ut_closed := True, ut_costed_usage := None\<rparr>, event, None) }"

text \<open>The usage of a preliminary DeepInfra event is withheld (\<open>value["usage"] = Null\<close>).\<close>

definition defer_event_usage :: "bool \<Rightarrow> json \<Rightarrow> json panics" where
  "defer_event_usage withhold v = (if withhold then json_set ''usage'' JNull v else Some v)"

definition transform_public_event ::
  "'d decimal_ops \<Rightarrow> json_ops \<Rightarrow> 'd transformer \<Rightarrow> bytes \<Rightarrow> string \<Rightarrow>
   ('d transformer \<times> bytes \<times> 'd costed_usage option) panics" where
  "transform_public_event D J st event response_model =
     (let (body, separator) = split_separator event in
      case single_data_line body of
        None \<Rightarrow> close_with_generic_error J st response_model
      | Some (data_prefix, data) \<Rightarrow>
          if data = ''[DONE]'' then
            (if is_some (ut_prices st) \<and> ut_costed_usage st = None
             then close_with_generic_error J st response_model
             else Some (st\<lparr>ut_closed := True, ut_costed_usage := None\<rparr>, event, ut_costed_usage st))
          else case from_slice J data of
            None \<Rightarrow> close_with_generic_error J st response_model
          | Some parsed \<Rightarrow>
             (case sanitize_public_completion_value parsed response_model of
                Err _ \<Rightarrow> close_with_generic_error J st response_model
              | Ok sanitized \<Rightarrow>
                  do { let withhold = is_deepinfra_preliminary_usage sanitized (ut_policy st);
                       v \<leftarrow> defer_event_usage withhold sanitized;
                       costing \<leftarrow> (if \<not> withhold \<and> is_terminal_usage_event v
                         then (case ut_prices st of
                             Some prices \<Rightarrow>
                               map_option (\<lambda>r. case r of Ok (v', cu) \<Rightarrow> Ok (v', Some cu) | Err e \<Rightarrow> Err e)
                                 (inject_usage_cost_value_with_policy D J v prices (ut_policy st))
                           | None \<Rightarrow> Some (Ok (v, None)))
                         else Some (Ok (v, None)));
                       case costing of
                         Err _ \<Rightarrow> close_with_generic_error J st response_model
                       | Ok (out, costed) \<Rightarrow>
                           (case to_vec J out of
                              None \<Rightarrow> close_with_generic_error J st response_model
                            | Some rendered \<Rightarrow>
                                Some (st\<lparr>ut_costed_usage := or_else costed (ut_costed_usage st)\<rparr>,
                                  data_prefix @ rendered @ separator, None)) }))"

definition transform_internal_event ::
  "'d decimal_ops \<Rightarrow> json_ops \<Rightarrow> 'd transformer \<Rightarrow> bytes \<Rightarrow>
   ('d transformer \<times> bytes \<times> 'd costed_usage option) panics" where
  "transform_internal_event D J st event =
     (let (body, separator) = split_separator event in
      case single_data_line body of
        None \<Rightarrow> Some (st, event, None)
      | Some (data_prefix, data) \<Rightarrow>
          if data = ''[DONE]'' then Some (st\<lparr>ut_costed_usage := None\<rparr>, event, ut_costed_usage st)
          else case from_slice J data of
            None \<Rightarrow> Some (st, event, None)
          | Some parsed \<Rightarrow>
             do { let (scrubbed, sanitized) = strip_provider_specific_fields parsed;
                  let withhold = is_deepinfra_preliminary_usage scrubbed (ut_policy st);
                  v \<leftarrow> defer_event_usage withhold scrubbed;
                  (out, costed) \<leftarrow>
                    (case ut_prices st of
                       Some prices \<Rightarrow>
                         if \<not> withhold \<and> is_terminal_usage_event v
                         then map_option (\<lambda>r. case r of Ok (v', cu) \<Rightarrow> (v', Some cu) | Err _ \<Rightarrow> (v, None))
                                (inject_usage_cost_value_with_policy D J v prices (ut_policy st))
                         else Some (v, None)
                     | None \<Rightarrow> Some (v, None));
                  if costed = None \<and> \<not> sanitized \<and> \<not> withhold then Some (st, event, None)
                  else case to_vec J out of
                      None \<Rightarrow> Some (st, event, None)
                    | Some rendered \<Rightarrow>
                        Some (st\<lparr>ut_costed_usage := or_else costed (ut_costed_usage st)\<rparr>,
                          data_prefix @ rendered @ separator, None) })"

definition transform_event ::
  "'d decimal_ops \<Rightarrow> json_ops \<Rightarrow> 'd transformer \<Rightarrow> bytes \<Rightarrow>
   ('d transformer \<times> bytes \<times> 'd costed_usage option) panics" where
  "transform_event D J st event =
     (case ut_response_model st of
        Some response_model \<Rightarrow> transform_public_event D J st event response_model
      | None \<Rightarrow> transform_internal_event D J st event)"

lemma close_pending:
  "close_with_generic_error J st m = Some (st', out, c) \<Longrightarrow>
   st' = st\<lparr>ut_closed := True, ut_costed_usage := None\<rparr> \<and> c = None \<and>
   generic_upstream_error_event J m = Some out"
  by (auto simp: close_with_generic_error_def bind_eq_Some_conv)

text \<open>Costing and deferral keep a public object public.\<close>

lemma public_object_usage:
  assumes "public_object m (JObject entries)" "json_lacks psf x"
  shows "public_object m (JObject (bm_insert ''usage'' x entries))"
proof -
  have "json_lacks psf (JObject (bm_insert ''usage'' x entries))"
    using assms by (intro json_lacks_insert) (auto simp: public_object_def)
  then show ?thesis
    using assms by (auto simp: public_object_def keys_bm_insert bm_get_insert public_fields_def)
qed

lemma defer_public_object:
  assumes "public_object m v" "defer_event_usage withhold v = Some v'"
  shows "public_object m v'"
proof (cases withhold)
  case True
  obtain entries where v: "v = JObject entries" using assms(1) by (auto simp: public_object_def)
  then have "v' = JObject (bm_insert ''usage'' JNull entries)"
    using assms(2) True by (simp add: defer_event_usage_def)
  with public_object_usage [of m entries JNull] assms(1) v show ?thesis by simp
qed (use assms in \<open>simp add: defer_event_usage_def\<close>)

lemma inject_public_object:
  assumes ok: "inject_usage_cost_value_with_policy D J v prices policy = Some (Ok (v', cu))"
    and "public_object m v"
  shows "public_object m v'"
proof (rule inject_OkE [OF ok], goal_cases)
  case (1 entries u tokens number u2)
  have "json_lacks psf v'" using inject_lacks [OF ok] assms(2) by (simp add: public_object_def)
  then have "json_lacks psf (JObject u2)"
    unfolding 1(7) by (rule json_lacks_field [of _ _ "''usage''"]) (simp add: bm_get_insert)
  with public_object_usage [of m entries "JObject u2"] assms(2) 1(1,7) show ?case by simp
qed

text \<open>The three ways a public event can go: closed with the generic error, the end of the
  stream, or a rewritten public object.\<close>

lemma transform_public_event_cases:
  assumes "transform_public_event D J st event m = Some (st', out, c)"
  obtains
    (error) "generic_upstream_error_event J m = Some out" "c = None"
      "st' = st\<lparr>ut_closed := True, ut_costed_usage := None\<rparr>"
  | (stop) data_prefix separator where "split_separator event = (data_prefix @ ''[DONE]'', separator)"
      "single_data_line (data_prefix @ ''[DONE]'') = Some (data_prefix, ''[DONE]'')"
      "out = event" "c = ut_costed_usage st" "ut_prices st = None \<or> ut_costed_usage st \<noteq> None"
      "st' = st\<lparr>ut_closed := True, ut_costed_usage := None\<rparr>"
  | (rewritten) body separator data_prefix data v rendered costed where
      "split_separator event = (body, separator)" "single_data_line body = Some (data_prefix, data)"
      "out = data_prefix @ rendered @ separator" "to_vec J v = Some rendered" "public_object m v" "c = None"
      "st' = st\<lparr>ut_costed_usage := or_else costed (ut_costed_usage st)\<rparr>"
      "case costed of Some cu \<Rightarrow> shows_charge D J cu v
         | None \<Rightarrow> ut_prices st = None \<or> \<not> is_terminal_usage_event v"
proof -
  note def = transform_public_event_def
  obtain body separator where split: "split_separator event = (body, separator)" by fastforce
  show thesis
  proof (cases "close_with_generic_error J st m = Some (st', out, c)")
    case True
    from close_pending [OF this] show thesis by (intro error) auto
  next
    case not_error: False
    then obtain data_prefix data where line: "single_data_line body = Some (data_prefix, data)"
      using assms by (cases "single_data_line body") (auto simp: def split)
    note body = single_data_line_Some(1) [OF line]
    show thesis
    proof (cases "data = ''[DONE]''")
      case True
      with assms not_error show thesis
        by (intro stop [of data_prefix separator])
          (use line split in \<open>auto simp: def body is_some_iff split: if_splits\<close>)
    next
      case not_done: False
      then obtain parsed where parsed: "from_slice J data = Some parsed"
        using assms not_error line by (cases "from_slice J data") (auto simp: def split)
      then obtain sanitized where sanitized: "sanitize_public_completion_value parsed m = Ok sanitized"
        using assms not_error line not_done
        by (cases "sanitize_public_completion_value parsed m") (auto simp: def split)
      define withhold where "withhold = is_deepinfra_preliminary_usage sanitized (ut_policy st)"
      obtain v where v: "defer_event_usage withhold sanitized = Some v"
        using assms not_error line not_done
        by (cases "defer_event_usage withhold sanitized") (auto simp: def split parsed sanitized withhold_def)
      have "public_object m v"
        using defer_public_object [OF sanitize_public_object [OF sanitized] v] .
      have withheld: "\<not> is_terminal_usage_event v" if withhold
      proof -
        obtain entries where "sanitized = JObject entries"
          using sanitize_public_object [OF sanitized] by (auto simp: public_object_def)
        then have "v = JObject (bm_insert ''usage'' JNull entries)"
          using v that by (simp add: defer_event_usage_def)
        then show ?thesis by (simp add: is_terminal_usage_event_def bm_get_insert is_some_and_def is_object_def)
      qed
      define costed where "costed \<longleftrightarrow> \<not> withhold \<and> is_terminal_usage_event v"
      note step = def split parsed sanitized withhold_def [symmetric] v line not_done Let_def
        costed_def [symmetric]
      show thesis
      proof (cases "costed \<and> ut_prices st \<noteq> None")
        case True
        then obtain prices where prices: "ut_prices st = Some prices" by blast
        then obtain v' cu where ok:
          "inject_usage_cost_value_with_policy D J v prices (ut_policy st) = Some (Ok (v', cu))"
          using assms not_error True
          by (cases "inject_usage_cost_value_with_policy D J v prices (ut_policy st)")
            (auto simp: step split: result.splits)
        then obtain rendered where "to_vec J v' = Some rendered"
          using assms not_error True prices by (cases "to_vec J v'") (auto simp: step)
        with assms True prices ok inject_public_object [OF ok \<open>public_object m v\<close>] inject_shows_charge [OF ok]
        show thesis
          by (intro rewritten [OF split line, of rendered v' "Some cu"]) (auto simp: step)
      next
        case False
        then obtain rendered where "to_vec J v = Some rendered"
          using assms not_error by (cases "to_vec J v") (auto simp: step split: if_splits option.splits)
        moreover have "ut_prices st = None \<or> \<not> is_terminal_usage_event v"
          using False withheld unfolding costed_def by blast
        ultimately show thesis
          using assms False \<open>public_object m v\<close>
          by (intro rewritten [OF split line, of rendered v None]) (auto simp: step split: if_splits option.splits)
      qed
    qed
  qed
qed

text \<open>An event only ever changes the recorded usage and whether the stream is closed.\<close>

lemma transform_internal_event_frame:
  assumes "transform_internal_event D J st event = Some (st', out, c)"
  shows "\<exists>u. st' = st\<lparr>ut_costed_usage := u\<rparr>"
proof -
  have "st = st\<lparr>ut_costed_usage := ut_costed_usage st\<rparr>" by simp
  moreover have "st' = st \<or> st' = st\<lparr>ut_costed_usage := ut_costed_usage st'\<rparr>"
    using assms unfolding transform_internal_event_def Let_def
    by (auto elim!: bind_SomeE split: prod.split_asm option.split_asm if_split_asm)
  ultimately show ?thesis by metis
qed

lemma transform_event_frame:
  assumes "transform_event D J st event = Some (st', out, c)"
  shows "\<exists>u closed. st' = st\<lparr>ut_costed_usage := u, ut_closed := closed\<rparr>"
proof (cases "ut_response_model st")
  case None
  then have "\<exists>u. st' = st\<lparr>ut_costed_usage := u\<rparr>"
    using assms transform_internal_event_frame by (simp add: transform_event_def)
  then obtain u where "st' = st\<lparr>ut_costed_usage := u, ut_closed := ut_closed st\<rparr>" by auto
  then show ?thesis by blast
next
  case (Some m)
  then have "transform_public_event D J st event m = Some (st', out, c)"
    using assms by (simp add: transform_event_def)
  then show ?thesis
  proof (cases rule: transform_public_event_cases)
    case (rewritten body separator data_prefix data v rendered costed)
    then have "st' = st\<lparr>ut_costed_usage := or_else costed (ut_costed_usage st),
        ut_closed := ut_closed st\<rparr>" by simp
    then show ?thesis by blast
  next
    case error
    then have "st' = st\<lparr>ut_costed_usage := None, ut_closed := True\<rparr>" by simp
    then show ?thesis by blast
  next
    case stop
    then have "st' = st\<lparr>ut_costed_usage := None, ut_closed := True\<rparr>" by simp
    then show ?thesis by blast
  qed
qed

lemma transform_event_keeps:
  assumes "transform_event D J st event = Some (st', out, c)"
  shows "ut_pending st' = ut_pending st" "ut_response_model st' = ut_response_model st"
    "ut_prices st' = ut_prices st" "ut_policy st' = ut_policy st"
  using transform_event_frame [OF assms] by auto

section \<open>Chunks\<close>

function drain_events ::
  "'d decimal_ops \<Rightarrow> json_ops \<Rightarrow> 'd transformer \<Rightarrow> bytes \<Rightarrow> 'd costed_usage option \<Rightarrow>
   ('d transformer \<times> bytes \<times> 'd costed_usage option) panics" where
  "drain_events D J st emitted completed =
     (case next_event_end (ut_pending st) of
        None \<Rightarrow> Some (st, emitted, completed)
      | Some event_end \<Rightarrow>
          (case transform_event D J (st\<lparr>ut_pending := drop event_end (ut_pending st)\<rparr>)
                  (take event_end (ut_pending st)) of
             None \<Rightarrow> None
           | Some (st1, transformed, event_completion) \<Rightarrow>
               if ut_closed st1
               then Some (st1\<lparr>ut_pending := []\<rparr>, emitted @ transformed, or_else event_completion completed)
               else drain_events D J st1 (emitted @ transformed) (or_else event_completion completed)))"
  by pat_completeness auto

termination
  by (relation "measure (\<lambda>(D, J, st, emitted, completed). length (ut_pending st))")
    (auto dest!: transform_event_keeps(1) simp: drain_measure)

declare drain_events.simps [simp del]

definition transform ::
  "'d decimal_ops \<Rightarrow> json_ops \<Rightarrow> 'd transformer \<Rightarrow> bytes \<Rightarrow>
   ('d transformer \<times> bytes \<times> 'd costed_usage option) panics" where
  "transform D J st bs =
     (if ut_closed st then Some (st, [], None)
      else drain_events D J (st\<lparr>ut_pending := ut_pending st @ bs\<rparr>) [] None)"

definition finish ::
  "json_ops \<Rightarrow> 'd transformer \<Rightarrow> (bytes \<times> 'd costed_usage option) panics" where
  "finish J st =
     (if ut_closed st then Some ([], None)
      else let final_line = unwrap_or (ut_pending st)
                 (or_else (strip_suffix [CR, LF] (ut_pending st)) (strip_suffix [LF] (ut_pending st)));
               is_done = is_some_and (\<lambda>(_, data). data = ''[DONE]'') (single_data_line final_line)
           in case ut_response_model st of
                Some response_model \<Rightarrow>
                  (if is_done then
                     (if is_some (ut_prices st) \<and> ut_costed_usage st = None
                      then do { event \<leftarrow> generic_upstream_error_event J response_model; Some (event, None) }
                      else Some (ut_pending st, ut_costed_usage st))
                   else do { event \<leftarrow> generic_upstream_error_event J response_model; Some (event, None) })
              | None \<Rightarrow> Some (ut_pending st, if is_done then ut_costed_usage st else None))"

section \<open>Chunk boundaries\<close>

text \<open>A machine fed in chunks: the contract under which only the concatenation matters.\<close>

fun feed_all ::
  "('s \<Rightarrow> 'i list \<Rightarrow> ('s \<times> 'o list \<times> 'c option) panics) \<Rightarrow> 's \<Rightarrow> 'i list list \<Rightarrow>
   ('s \<times> 'o list \<times> 'c option) panics" where
  "feed_all feed s [] = Some (s, [], None)"
| "feed_all feed s (chunk # chunks) =
     do { (s1, o1, c1) \<leftarrow> feed s chunk;
          (s2, o2, c2) \<leftarrow> feed_all feed s1 chunks;
          Some (s2, o1 @ o2, or_else c2 c1) }"

locale chunked_machine =
  fixes feed :: "'s \<Rightarrow> 'i list \<Rightarrow> ('s \<times> 'o list \<times> 'c option) panics"
    and settled :: "'s \<Rightarrow> bool"
  assumes feed_append: "settled s \<Longrightarrow> feed s (a @ b) = feed_all feed s [a, b]"
    and feed_Nil: "settled s \<Longrightarrow> feed s [] = Some (s, [], None)"
    and feed_settled: "settled s \<Longrightarrow> feed s a = Some (s', out, c) \<Longrightarrow> settled s'"
begin

lemma feed_concat: "settled s \<Longrightarrow> feed_all feed s chunks = feed s (concat chunks)"
proof (induction chunks arbitrary: s)
  case (Cons chunk chunks)
  show ?case
  proof (cases "feed s chunk")
    case None
    with Cons.prems show ?thesis by (simp add: feed_append)
  next
    case (Some r)
    obtain s1 o1 c1 where r: "r = (s1, o1, c1)" by (cases r)
    have "settled s1" using feed_settled Cons.prems Some r by blast
    from Cons.IH [OF this] Cons.prems Some r show ?thesis
      by (cases "feed s1 (concat chunks)") (auto simp: feed_append)
  qed
qed (simp add: feed_Nil)

lemma feed_rechunk:
  "settled s \<Longrightarrow> concat chunks = concat chunks' \<Longrightarrow> feed_all feed s chunks = feed_all feed s chunks'"
  by (simp add: feed_concat)

lemma feed_all_settled:
  "settled s \<Longrightarrow> feed_all feed s chunks = Some (s', out, c) \<Longrightarrow> settled s'"
  using feed_settled by (simp add: feed_concat)

end

text \<open>Between two chunks the transformer holds no complete event.\<close>

definition framed :: "'d transformer \<Rightarrow> bool" where
  "framed st \<longleftrightarrow> next_event_end (ut_pending st) = None"

lemma map_option_bind: "map_option f (Option.bind x g) = Option.bind x (\<lambda>y. map_option f (g y))"
  by (cases x) simp_all

lemma transform_event_pending:
  "transform_event D J (st\<lparr>ut_pending := p\<rparr>) event =
   map_option (\<lambda>(s, out, c). (s\<lparr>ut_pending := p\<rparr>, out, c)) (transform_event D J st event)"
proof -
  have close: "close_with_generic_error J (st\<lparr>ut_pending := p\<rparr>) m =
      map_option (\<lambda>(s, out, c). (s\<lparr>ut_pending := p\<rparr>, out, c)) (close_with_generic_error J st m)" for m
    by (cases "generic_upstream_error_event J m") (simp_all add: close_with_generic_error_def)
  have swap: "s\<lparr>ut_costed_usage := u, ut_pending := p\<rparr> = s\<lparr>ut_pending := p, ut_costed_usage := u\<rparr>"
    "s\<lparr>ut_closed := x, ut_pending := p\<rparr> = s\<lparr>ut_pending := p, ut_closed := x\<rparr>"
    for s :: "'a transformer" and u x
    by simp_all
  show ?thesis
    unfolding transform_event_def transform_public_event_def transform_internal_event_def Let_def
    by (simp add: close swap map_option_bind if_distrib [where f = "map_option _"]
        option.case_distrib [where h = "map_option _"] result.case_distrib [where h = "map_option _"]
        prod.case_distrib [where h = "map_option _"]
        cong: option.case_cong result.case_cong if_cong prod.case_cong)
qed

lemma drain_acc:
  "drain_events D J st emitted completed =
   map_option (\<lambda>(s, out, c). (s, emitted @ out, or_else c completed)) (drain_events D J st [] None)"
proof (induction "length (ut_pending st)" arbitrary: st emitted completed rule: less_induct)
  case less
  show ?case
  proof (cases "next_event_end (ut_pending st)")
    case None
    then show ?thesis by (simp add: drain_events.simps [of D J st])
  next
    case (Some e)
    show ?thesis
    proof (cases "transform_event D J (st\<lparr>ut_pending := drop e (ut_pending st)\<rparr>) (take e (ut_pending st))")
      case None
      with Some show ?thesis by (simp add: drain_events.simps [of D J st])
    next
      case event: (Some r)
      obtain st1 o1 c1 where r: "r = (st1, o1, c1)" by (cases r)
      have "length (ut_pending st1) < length (ut_pending st)"
        using transform_event_keeps(1) [of D J _ _ st1 o1 c1] event r drain_measure [OF Some] by simp
      note IH = less.hyps [OF this]
      show ?thesis
        using Some event r IH [of "emitted @ o1" "or_else c1 completed"] IH [of o1 c1]
        by (cases "drain_events D J st1 [] None")
          (auto simp: drain_events.simps [of D J st] or_else_assoc)
    qed
  qed
qed

lemma drain_append:
  assumes "\<not> ut_closed st"
  shows "drain_events D J (st\<lparr>ut_pending := ut_pending st @ b\<rparr>) emitted completed =
    (case drain_events D J st emitted completed of
       None \<Rightarrow> None
     | Some (s1, o1, c1) \<Rightarrow>
         if ut_closed s1 then Some (s1, o1, c1)
         else drain_events D J (s1\<lparr>ut_pending := ut_pending s1 @ b\<rparr>) o1 c1)"
  using assms
proof (induction "length (ut_pending st)" arbitrary: st emitted completed rule: less_induct)
  case less
  show ?case
  proof (cases "next_event_end (ut_pending st)")
    case None
    then show ?thesis using less.prems by (simp add: drain_events.simps [of D J st])
  next
    case (Some e)
    note bounds = next_event_end_bounds [OF Some]
    have more: "next_event_end (ut_pending st @ b) = Some e" by (rule next_event_end_append [OF Some])
    define rest where "rest = st\<lparr>ut_pending := drop e (ut_pending st)\<rparr>"
    define event where "event = take e (ut_pending st)"
    have long: "transform_event D J (st\<lparr>ut_pending := drop e (ut_pending st) @ b\<rparr>) event =
        map_option (\<lambda>(s, out, c). (s\<lparr>ut_pending := drop e (ut_pending st) @ b\<rparr>, out, c))
          (transform_event D J rest event)"
      using transform_event_pending
        [where D = D and J = J and st = rest and p = "drop e (ut_pending st) @ b" and event = event]
      by (simp add: rest_def)
    show ?thesis
    proof (cases "transform_event D J rest event")
      case None
      with Some more bounds long show ?thesis
        by (simp add: drain_events.simps [of D J st] rest_def event_def
            drain_events.simps [of D J "st\<lparr>ut_pending := ut_pending st @ b\<rparr>"])
    next
      case step: (Some r)
      obtain st1 o1 c1 where r: "r = (st1, o1, c1)" by (cases r)
      have p1: "ut_pending st1 = drop e (ut_pending st)"
        using transform_event_keeps(1) step r by (fastforce simp: rest_def)
      then have "length (ut_pending st1) < length (ut_pending st)"
        using drain_measure [OF Some] by simp
      note IH = less.hyps [OF this]
      show ?thesis
        using Some more bounds long step r p1 IH [of "emitted @ o1" "or_else c1 completed"]
        by (simp add: drain_events.simps [of D J st] rest_def event_def
            drain_events.simps [of D J "st\<lparr>ut_pending := ut_pending st @ b\<rparr>"])
    qed
  qed
qed

lemma drain_settled:
  "drain_events D J st emitted completed = Some (st', out, c) \<Longrightarrow>
   framed st' \<and> (ut_closed st' \<longrightarrow> ut_closed st \<or> ut_pending st' = [])"
proof (induction D J st emitted completed rule: drain_events.induct)
  case (1 D J st emitted completed)
  show ?case
  proof (cases "next_event_end (ut_pending st)")
    case None
    with 1(2) show ?thesis by (simp add: drain_events.simps [of D J st] framed_def)
  next
    case (Some e)
    then obtain st1 o1 c1 where step: "transform_event D J
        (st\<lparr>ut_pending := drop e (ut_pending st)\<rparr>) (take e (ut_pending st)) = Some (st1, o1, c1)"
      using 1(2) by (auto simp: drain_events.simps [of D J st] split: option.splits)
    show ?thesis
    proof (cases "ut_closed st1")
      case True
      have "next_event_end [] = None" by (simp add: next_event_end_def find_subslice.simps starts_with_def)
      with True step Some 1(2) show ?thesis by (auto simp: drain_events.simps [of D J st] framed_def)
    next
      case False
      with step Some 1(2) have "drain_events D J st1 (emitted @ o1) (or_else c1 completed) = Some (st', out, c)"
        by (simp add: drain_events.simps [of D J st])
      from 1(1) [OF Some step refl refl False this] False show ?thesis by blast
    qed
  qed
qed

text \<open>A settled transformer: no complete event is pending, and nothing at all once closed.\<close>

definition settled :: "'d transformer \<Rightarrow> bool" where
  "settled st \<longleftrightarrow> framed st \<and> (ut_closed st \<longrightarrow> ut_pending st = [])"

interpretation sse: chunked_machine "transform D J" settled
  for D :: "'d decimal_ops" and J
proof
  fix s :: "'d transformer" and a b
  assume s: "settled s"
  show "transform D J s [] = Some (s, [], None)"
    using s by (simp add: transform_def drain_events.simps [of D J s] settled_def framed_def)
  show "settled s'" if "transform D J s a = Some (s', out, c)" for s' out c
    using that s drain_settled [of D J "s\<lparr>ut_pending := ut_pending s @ a\<rparr>" "[]" None s' out c]
    by (auto simp: transform_def settled_def split: if_splits)
  show "transform D J s (a @ b) = feed_all (transform D J) s [a, b]"
  proof (cases "ut_closed s")
    case True
    then show ?thesis by (simp add: transform_def)
  next
    case False
    from drain_append [of "s\<lparr>ut_pending := ut_pending s @ a\<rparr>" D J b "[]" None] False
    have "transform D J s (a @ b) = (case transform D J s a of
       None \<Rightarrow> None
     | Some (s1, o1, c1) \<Rightarrow>
         if ut_closed s1 then Some (s1, o1, c1)
         else drain_events D J (s1\<lparr>ut_pending := ut_pending s1 @ b\<rparr>) o1 c1)"
      by (simp add: transform_def)
    then show ?thesis
    proof (cases "transform D J s a")
      case (Some r)
      obtain s1 o1 c1 where r: "r = (s1, o1, c1)" by (cases r)
      show ?thesis
        using \<open>transform D J s (a @ b) = _\<close> Some r
          drain_acc [of D J "s1\<lparr>ut_pending := ut_pending s1 @ b\<rparr>" o1 c1]
        by (cases "drain_events D J (s1\<lparr>ut_pending := ut_pending s1 @ b\<rparr>) [] None")
          (auto simp: transform_def [of D J s1 b])
    qed simp
  qed
qed

text \<open>C18: Chunk boundaries do not matter: feeding a settled transformer a response in any
  chunks, cut anywhere, even inside a separator, gives the same state, the same bytes and the
  same completed usage as feeding it whole.\<close>

theorem transform_chunk_boundaries:
  assumes "settled st"
  shows "feed_all (transform D J) st chunks = transform D J st (concat chunks)"
  by (rule sse.feed_concat [OF assms])

theorem transform_chunk_boundaries_witness:
  "feed_all (transform bounded_decimal example_json) (model_only ''m'')
     [''data: [DONE]'' @ [CR, LF, CR], [LF], ''data: x'']
   = transform bounded_decimal example_json (model_only ''m'')
       (''data: [DONE]'' @ [CR, LF, CR, LF] @ ''data: x'')"
proof -
  have "settled (model_only ''m'' :: rat transformer)"
    by (simp add: settled_def framed_def model_only_def next_event_end_def find_subslice.simps
        starts_with_def)
  from transform_chunk_boundaries [OF this, of bounded_decimal example_json
      "[''data: [DONE]'' @ [CR, LF, CR], [LF], ''data: x'']"]
  show ?thesis by simp
qed

section \<open>What a public stream shows and charges\<close>

definition separators :: "bytes set" where
  "separators = {[LF, LF], [CR, LF, CR, LF]}"

definition data_prefixes :: "bytes set" where
  "data_prefixes = {''data:'', ''data: ''}"

text \<open>The fixed error event: two events, the error, which names nothing but the model, and the end
  marker.\<close>

definition error_frame :: "json_ops \<Rightarrow> string \<Rightarrow> bytes \<Rightarrow> bool" where
  "error_frame J model frame \<longleftrightarrow>
     (\<exists>rendered. to_vec J (JObject [(''error'', JObject [(''code'', JString ''upstream_error''),
          (''message'', JString ''upstream request failed''),
          (''metadata'', JObject [(''model'', JString model)])])]) = Some rendered \<and>
        frame = ''data: '' @ rendered @ [LF, LF] @ ''data: [DONE]'' @ [LF, LF])"

lemma error_frame_event: "error_frame J model frame \<longleftrightarrow> generic_upstream_error_event J model = Some frame"
  by (auto simp: error_frame_def generic_upstream_error_event_def generic_upstream_error_def bind_eq_Some_conv)

definition done_frame :: "bytes \<Rightarrow> bool" where
  "done_frame frame \<longleftrightarrow>
     (\<exists>data_prefix \<in> data_prefixes. \<exists>separator \<in> separators. frame = data_prefix @ ''[DONE]'' @ separator)"

definition event_frame :: "json_ops \<Rightarrow> string \<Rightarrow> json \<Rightarrow> bytes \<Rightarrow> bool" where
  "event_frame J model v frame \<longleftrightarrow> public_object model v \<and>
     (\<exists>data_prefix \<in> data_prefixes. \<exists>separator \<in> separators. \<exists>rendered.
        to_vec J v = Some rendered \<and> frame = data_prefix @ rendered @ separator)"

definition object_frame :: "json_ops \<Rightarrow> string \<Rightarrow> bytes \<Rightarrow> bool" where
  "object_frame J model frame \<longleftrightarrow> (\<exists>v. event_frame J model v frame)"

text \<open>What the client has been shown of a charge: the last event with a usage object carries it.\<close>

definition charge_shown :: "'d decimal_ops \<Rightarrow> json_ops \<Rightarrow> string \<Rightarrow> bytes list \<Rightarrow> 'd costed_usage \<Rightarrow> bool" where
  "charge_shown D J model frames cu \<longleftrightarrow>
     (\<exists>before frame after v. frames = before @ frame # after \<and>
        event_frame J model v frame \<and> shows_charge D J cu v \<and>
        (\<forall>later \<in> set after. done_frame later \<or>
           (\<exists>w. event_frame J model w later \<and> \<not> is_some_and is_object (json_get ''usage'' w))))"

text \<open>Frames that carry the charge \<open>u\<close> over into \<open>u'\<close>, whatever was sent before them.\<close>

definition carries ::
  "'d decimal_ops \<Rightarrow> json_ops \<Rightarrow> string \<Rightarrow> bytes list \<Rightarrow> 'd costed_usage option \<Rightarrow> 'd costed_usage option \<Rightarrow> bool" where
  "carries D J model frames u u' \<longleftrightarrow>
     (\<forall>past. is_none_or (charge_shown D J model past) u \<longrightarrow> is_none_or (charge_shown D J model (past @ frames)) u')"

lemma carries_trans:
  "carries D J m frames u u' \<Longrightarrow> carries D J m frames' u' u'' \<Longrightarrow> carries D J m (frames @ frames') u u''"
  unfolding carries_def by (metis append.assoc)

lemma carries_None [simp]: "carries D J m frames u None"
  by (simp add: carries_def is_none_or_def)

lemma carries_refl [simp]: "carries D J m [] u u"
  by (simp add: carries_def)

lemma charge_shown_append:
  assumes "charge_shown D J m past cu"
    and "\<forall>later \<in> set frames. done_frame later \<or>
      (\<exists>w. event_frame J m w later \<and> \<not> is_some_and is_object (json_get ''usage'' w))"
  shows "charge_shown D J m (past @ frames) cu"
proof -
  obtain before frame after v where past: "past = before @ frame # after" "event_frame J m v frame" "shows_charge D J cu v"
    "\<forall>later \<in> set after. done_frame later \<or>
      (\<exists>w. event_frame J m w later \<and> \<not> is_some_and is_object (json_get ''usage'' w))"
    using assms(1) unfolding charge_shown_def by blast
  have "past @ frames = before @ frame # (after @ frames)" using past(1) by simp
  moreover have "\<forall>later \<in> set (after @ frames). done_frame later \<or>
      (\<exists>w. event_frame J m w later \<and> \<not> is_some_and is_object (json_get ''usage'' w))"
    using past(4) assms(2) by auto
  ultimately show ?thesis using past(2,3) unfolding charge_shown_def by blast
qed

lemma carries_done: "done_frame frame \<Longrightarrow> carries D J m [frame] u u"
  using charge_shown_append [of D J m _ _ "[frame]"]
  by (auto simp: carries_def is_none_or_def split: option.splits)

lemma carries_event:
  assumes "event_frame J m v frame"
    and "case costed of Some cu \<Rightarrow> shows_charge D J cu v | None \<Rightarrow> \<not> is_terminal_usage_event v"
  shows "carries D J m [frame] u (or_else costed u)"
proof (cases costed)
  case None
  then have "\<exists>w. event_frame J m w frame \<and> \<not> is_some_and is_object (json_get ''usage'' w)"
    using assms by (auto simp: is_terminal_usage_event_def)
  with None charge_shown_append [of D J m _ _ "[frame]"] show ?thesis
    by (auto simp: carries_def is_none_or_def split: option.splits)
next
  case (Some cu)
  have "charge_shown D J m (past @ [frame]) cu" for past
    unfolding charge_shown_def using assms Some
    by (intro exI [of _ past] exI [of _ frame] exI [of _ "[]"] exI [of _ v]) simp
  then show ?thesis by (simp add: Some carries_def is_none_or_def)
qed

lemma split_separator_append: "split_separator event = (body, separator) \<Longrightarrow> body @ separator = event"
  by (auto simp: split_separator_def split_at_def split: if_splits)

lemma split_separator_event:
  assumes "next_event_end b = Some e" "split_separator (take e b) = (body, separator)"
  shows "take e b = body @ separator" "separator \<in> separators"
proof -
  show "take e b = body @ separator" using split_separator_append [OF assms(2)] by simp
  have crlf: "separator = s" if "ends_with [CR, LF, CR, LF] (take e b)" "take e b = r @ s"
    "s = [CR, LF, CR, LF]" for r s
    using assms(2) that by (auto simp: split_separator_def split_at_def)
  have lf: "separator = [LF, LF]" if "\<not> ends_with [CR, LF, CR, LF] (take e b)" "take e b = r @ [LF, LF]"
    for r
    using assms(2) that by (auto simp: split_separator_def split_at_def)
  have "(\<exists>r. take e b = r @ [LF, LF]) \<or> (\<exists>r. take e b = r @ [CR, LF, CR, LF])"
  proof -
    have "\<exists>r. take (l + length n) b = r @ n" if "find_subslice b n = Some l" for l n
    proof -
      from find_subslice_Some [OF that] obtain r where r: "b = take l b @ n @ r"
        and le: "l + length n \<le> length b" by blast
      have "take (l + length n) (take l b @ n @ r) = take l b @ n" using le by simp
      with r show ?thesis by metis
    qed
    note prefix = this
    have "(\<exists>l. find_subslice b [LF, LF] = Some l \<and> e = l + length [LF, LF]) \<or>
        (\<exists>k. find_subslice b [CR, LF, CR, LF] = Some k \<and> e = k + length [CR, LF, CR, LF])"
      using assms(1) unfolding next_event_end_cases by (auto simp: min_def split: if_splits)
    then show ?thesis using prefix by blast
  qed
  then have "separator = [LF, LF] \<or> separator = [CR, LF, CR, LF]"
    using crlf lf by (metis ends_with_iff)
  then show "separator \<in> separators" by (auto simp: separators_def)
qed

text \<open>One public event of a framed stream.\<close>

lemma transform_event_public:
  assumes "next_event_end b = Some e" "ut_response_model st = Some m" "\<not> ut_closed st"
    and "transform_event D J st (take e b) = Some (st', out, c)"
  shows "((\<not> ut_closed st' \<and> c = None \<and> object_frame J m out) \<or>
    (ut_closed st' \<and> c = None \<and> error_frame J m out) \<or>
    (ut_closed st' \<and> done_frame out \<and> (ut_prices st \<noteq> None \<longrightarrow> c \<noteq> None))) \<and>
    (ut_prices st \<noteq> None \<longrightarrow>
       carries D J m [out] (ut_costed_usage st) (if ut_closed st' then c else ut_costed_usage st'))"
proof -
  have "transform_public_event D J st (take e b) m = Some (st', out, c)"
    using assms(2,4) by (simp add: transform_event_def)
  then show ?thesis
  proof (cases rule: transform_public_event_cases)
    case error
    then show ?thesis by (simp add: error_frame_event)
  next
    case (stop data_prefix separator)
    with split_separator_event [OF assms(1) stop(1)] single_data_line_Some(2) [OF stop(2)]
    have "done_frame out" by (auto simp: done_frame_def data_prefixes_def)
    with stop carries_done show ?thesis by auto
  next
    case (rewritten body separator data_prefix data v rendered costed)
    have "data_prefix \<in> data_prefixes"
      using single_data_line_Some(2) [OF rewritten(2)] by (simp add: data_prefixes_def)
    then have frame: "event_frame J m v out"
      unfolding event_frame_def
      using rewritten split_separator_event(2) [OF assms(1) rewritten(1)] by blast
    have "carries D J m [out] (ut_costed_usage st) (or_else costed (ut_costed_usage st))" if "ut_prices st \<noteq> None"
      by (rule carries_event [OF frame]) (use rewritten(8) that in \<open>auto split: option.splits\<close>)
    with frame rewritten assms(3) show ?thesis by (auto simp: object_frame_def)
  qed
qed

definition public_frame :: "json_ops \<Rightarrow> string \<Rightarrow> bytes \<Rightarrow> bool" where
  "public_frame J model frame \<longleftrightarrow>
     object_frame J model frame \<or> error_frame J model frame \<or> done_frame frame"

text \<open>How far a priced or unpriced public stream has got: open with nothing charged, or closed by
  its last frame.\<close>

definition stream_state ::
  "json_ops \<Rightarrow> string \<Rightarrow> bool \<Rightarrow> bool \<Rightarrow> bytes list \<Rightarrow> 'd costed_usage option \<Rightarrow> bool" where
  "stream_state J model priced shut frames completed \<longleftrightarrow>
     (\<forall>frame \<in> set frames. public_frame J model frame) \<and>
     (if shut
      then frames \<noteq> [] \<and>
           ((completed = None \<and> error_frame J model (last frames)) \<or>
            (done_frame (last frames) \<and> (priced \<longrightarrow> completed \<noteq> None)))
      else completed = None)"

lemma drain_public:
  assumes "drain_events D J st emitted None = Some (st', out, c)"
    and "ut_response_model st = Some m" "\<not> ut_closed st"
  shows "\<exists>frames. out = emitted @ concat frames \<and>
    stream_state J m (ut_prices st \<noteq> None) (ut_closed st') frames c \<and>
    (ut_prices st \<noteq> None \<longrightarrow>
       carries D J m frames (ut_costed_usage st) (if ut_closed st' then c else ut_costed_usage st')) \<and>
    ut_response_model st' = Some m \<and> ut_prices st' = ut_prices st"
  using assms
proof (induction "length (ut_pending st)" arbitrary: st emitted rule: less_induct)
  case less
  show ?case
  proof (cases "next_event_end (ut_pending st)")
    case None
    with less.prems show ?thesis
      by (intro exI [of _ "[]"]) (auto simp: drain_events.simps [of D J st] stream_state_def)
  next
    case (Some e)
    let ?st = "st\<lparr>ut_pending := drop e (ut_pending st)\<rparr>"
    obtain st1 o1 c1 where step: "transform_event D J ?st (take e (ut_pending st)) = Some (st1, o1, c1)"
      using Some less.prems(1) by (auto simp: drain_events.simps [of D J st] split: option.splits)
    note keeps = transform_event_keeps [OF step]
    have event: "(\<not> ut_closed st1 \<and> c1 = None \<and> object_frame J m o1) \<or>
        (ut_closed st1 \<and> c1 = None \<and> error_frame J m o1) \<or>
        (ut_closed st1 \<and> done_frame o1 \<and> (ut_prices st \<noteq> None \<longrightarrow> c1 \<noteq> None))"
      and charge: "ut_prices st \<noteq> None \<longrightarrow>
        carries D J m [o1] (ut_costed_usage st) (if ut_closed st1 then c1 else ut_costed_usage st1)"
      using transform_event_public [OF Some _ _ step, of m] less.prems by simp_all
    show ?thesis
    proof (cases "ut_closed st1")
      case True
      with Some step less.prems event keeps charge show ?thesis
        by (intro exI [of _ "[o1]"])
          (auto simp: drain_events.simps [of D J st] stream_state_def public_frame_def)
    next
      case False
      with Some step less.prems event
      have "drain_events D J st1 (emitted @ o1) None = Some (st', out, c)"
        by (simp add: drain_events.simps [of D J st])
      moreover have "length (ut_pending st1) < length (ut_pending st)"
        using keeps(1) drain_measure [OF Some] by simp
      ultimately obtain frames where "out = (emitted @ o1) @ concat frames"
          "stream_state J m (ut_prices st1 \<noteq> None) (ut_closed st') frames c"
          "ut_response_model st' = Some m" "ut_prices st' = ut_prices st1"
          and later: "ut_prices st1 \<noteq> None \<longrightarrow>
            carries D J m frames (ut_costed_usage st1) (if ut_closed st' then c else ut_costed_usage st')"
        using less.hyps [of st1 "emitted @ o1"] keeps False less.prems by auto
      moreover have "ut_prices st \<noteq> None \<longrightarrow>
          carries D J m (o1 # frames) (ut_costed_usage st) (if ut_closed st' then c else ut_costed_usage st')"
        using carries_trans [of D J m "[o1]"] charge later False keeps(3) by auto
      ultimately show ?thesis
        using False event keeps
        by (intro exI [of _ "o1 # frames"]) (auto simp: stream_state_def public_frame_def split: if_splits)
    qed
  qed
qed

text \<open>A whole response: every chunk, then the end of the body.\<close>

definition run_stream ::
  "'d decimal_ops \<Rightarrow> json_ops \<Rightarrow> 'd transformer \<Rightarrow> bytes list \<Rightarrow>
   (bytes \<times> 'd costed_usage option) panics" where
  "run_stream D J st chunks =
     do { (st1, out, completed) \<leftarrow> feed_all (transform D J) st chunks;
          (tail, final_completion) \<leftarrow> finish J st1;
          Some (out @ tail, or_else final_completion completed) }"

lemma feed_all_public:
  assumes "feed_all (transform D J) st chunks = Some (st', out, c)"
    and "ut_response_model st = Some m" "\<not> ut_closed st" "settled st"
  shows "\<exists>frames. out = concat frames \<and>
    stream_state J m (ut_prices st \<noteq> None) (ut_closed st') frames c \<and>
    (ut_prices st \<noteq> None \<longrightarrow>
       carries D J m frames (ut_costed_usage st) (if ut_closed st' then c else ut_costed_usage st')) \<and>
    ut_response_model st' = Some m \<and> ut_prices st' = ut_prices st"
proof -
  have "drain_events D J (st\<lparr>ut_pending := ut_pending st @ concat chunks\<rparr>) [] None = Some (st', out, c)"
    using assms sse.feed_concat [OF assms(4), of D J chunks] by (simp add: transform_def)
  from drain_public [OF this] assms show ?thesis by auto
qed

lemma strip_newline:
  "\<exists>newline \<in> {[], [LF], [CR, LF]}.
     p = unwrap_or p (or_else (strip_suffix [CR, LF] p) (strip_suffix [LF] p)) @ newline"
proof (cases "strip_suffix [CR, LF] p")
  case crlf: None
  show ?thesis
  proof (cases "strip_suffix [LF] p")
    case None
    with crlf show ?thesis by simp
  next
    case (Some r)
    then have "p = r @ [LF]" by (simp only: strip_suffix_Some_iff)
    moreover have "unwrap_or p (or_else (strip_suffix [CR, LF] p) (strip_suffix [LF] p)) = r"
      by (simp only: crlf Some or_else_simps unwrap_or_simps)
    ultimately show ?thesis by simp
  qed
next
  case (Some r)
  then have "p = r @ [CR, LF]" by (simp only: strip_suffix_Some_iff)
  moreover have "unwrap_or p (or_else (strip_suffix [CR, LF] p) (strip_suffix [LF] p)) = r"
    by (simp only: Some or_else_simps unwrap_or_simps)
  ultimately show ?thesis by simp
qed

lemma finish_public:
  assumes "finish J st = Some (tail, c)" "ut_response_model st = Some m" "\<not> ut_closed st"
  shows "(c = None \<and> error_frame J m tail) \<or>
    ((\<exists>data_prefix \<in> data_prefixes. \<exists>newline \<in> {[], [LF], [CR, LF]}. tail = data_prefix @ ''[DONE]'' @ newline) \<and>
     (ut_prices st \<noteq> None \<longrightarrow> c \<noteq> None) \<and> c = ut_costed_usage st)"
proof -
  define line where "line = unwrap_or (ut_pending st)
    (or_else (strip_suffix [CR, LF] (ut_pending st)) (strip_suffix [LF] (ut_pending st)))"
  show ?thesis
  proof (cases "is_some_and (\<lambda>(_, data). data = ''[DONE]'') (single_data_line line)")
    case False
    then have "c = None \<and> error_frame J m tail"
      using assms by (auto simp: finish_def line_def [symmetric] bind_eq_Some_conv error_frame_event)
    then show ?thesis by blast
  next
    case True
    then obtain data_prefix where "single_data_line line = Some (data_prefix, ''[DONE]'')"
      by (auto simp: is_some_and_def split: option.splits)
    note l = single_data_line_Some [OF this]
    have tail: "\<exists>newline \<in> {[], [LF], [CR, LF]}. ut_pending st = line @ newline"
      unfolding line_def by (rule strip_newline)
    show ?thesis
      using assms True l tail
      by (auto simp: finish_def line_def [symmetric] bind_eq_Some_conv error_frame_event data_prefixes_def
          is_some_iff split: if_splits)
  qed
qed

text \<open>C2: Confidentiality of a public stream: whatever bytes the upstream sends and however they
  are cut, everything the client receives is a sequence of frames, each a rewritten public object
  (allowed fields only, the canonical model, no provider-specific field at any depth), the end
  marker or the fixed error event, which names nothing but the model; what the end of the body
  adds to them is nothing, that same error event, or the end marker itself, which the upstream had
  not terminated.\<close>

theorem public_stream_confidential:
  assumes "settled st" "ut_response_model st = Some model" "\<not> ut_closed st"
    and "run_stream D J st chunks = Some (out, completed)"
  shows "\<exists>st1 c1 frames tail. feed_all (transform D J) st chunks = Some (st1, concat frames, c1) \<and>
    out = concat frames @ tail \<and> (\<forall>frame \<in> set frames. public_frame J model frame) \<and>
    (tail = [] \<or> error_frame J model tail \<or>
     (\<exists>data_prefix \<in> data_prefixes. \<exists>newline \<in> {[], [LF], [CR, LF]}.
        tail = data_prefix @ ''[DONE]'' @ newline))"
proof -
  obtain st1 o1 c1 tail c2 where feed: "feed_all (transform D J) st chunks = Some (st1, o1, c1)"
    and fin: "finish J st1 = Some (tail, c2)" and out: "out = o1 @ tail"
    using assms(4) by (auto simp: run_stream_def bind_eq_Some_conv)
  from feed_all_public [OF feed assms(2,3,1)] obtain frames where frames: "o1 = concat frames"
    "\<forall>frame \<in> set frames. public_frame J model frame" "ut_response_model st1 = Some model"
    by (auto simp: stream_state_def)
  have "tail = [] \<or> error_frame J model tail \<or> (\<exists>data_prefix \<in> data_prefixes. \<exists>newline \<in> {[], [LF], [CR, LF]}.
      tail = data_prefix @ ''[DONE]'' @ newline)"
  proof (cases "ut_closed st1")
    case True
    then show ?thesis using fin by (simp add: finish_def)
  next
    case False
    from finish_public [OF fin frames(3) this] show ?thesis by blast
  qed
  with feed frames(1,2) out show ?thesis by blast
qed

definition example_stream :: "rat transformer" where
  "example_stream =
     with_response_model (transformer_new (mapping_prices (example_mapping ''m'' 2 3))) ''m''"

lemma example_stream_ready:
  "settled example_stream" "ut_response_model example_stream = Some ''m''"
  "\<not> ut_closed example_stream" "ut_prices example_stream \<noteq> None"
  by (simp_all add: example_stream_def with_response_model_def transformer_new_def settled_def
      framed_def next_event_end_def find_subslice.simps starts_with_def)

theorem public_stream_confidential_witness:
  "\<exists>out frames tail. run_stream bounded_decimal example_json example_stream [''data: [DONE]'', [CR, LF]] = Some (out, None) \<and>
     out = concat frames @ tail \<and> (\<forall>frame \<in> set frames. public_frame example_json ''m'' frame)"
proof -
  have "map_option (\<lambda>(out, c). c = None)
      (run_stream bounded_decimal example_json example_stream [''data: [DONE]'', [CR, LF]]) = Some True"
    by code_simp
  then obtain out where ok: "run_stream bounded_decimal example_json example_stream
      [''data: [DONE]'', [CR, LF]] = Some (out, None)"
    by auto
  from public_stream_confidential [OF example_stream_ready(1-3) ok] ok show ?thesis by blast
qed





end
