(* ===== verification/Ledger.thy ===== *)
theory Ledger
  imports Db_Health Registry
begin

text \<open>
  The generation ledger (\<open>src/ledger.rs\<close>): one row per costed generation, written once and
  looked up by response id and routing profile. PostgreSQL is a service: what an \<open>INSERT\<close> does
  to it and which rows a query reads are the fields of \<open>pg_ops\<close>, an operation that does not
  finish within the two-second timeout among their outcomes. The two SQL statements, which are
  this repository's text, are translated: the values an \<open>INSERT\<close> binds, the \<open>WHERE\<close> clause and
  the \<open>CASE\<close> expression of the \<open>SELECT\<close>.
\<close>

section \<open>Rows\<close>

record 'd generation_write =
  gw_id :: string
  gw_routing_profile :: routing_profile
  gw_canonical_slug :: string
  gw_provider_id :: string
  gw_prompt_tokens :: int
  gw_completion_tokens :: int
  gw_cost_usd :: 'd
  gw_latency_ms :: int
  gw_status :: int

text \<open>A row of the table \<open>generations\<close> (migrations/).\<close>

record ('d, 'ts) generation_row =
  gr_id :: string
  gr_created_at :: 'ts
  gr_routing_profile :: string
  gr_canonical_slug :: string
  gr_provider_id :: string
  gr_prompt_tokens :: "int option"
  gr_completion_tokens :: "int option"
  gr_cost_usd :: "'d option"
  gr_provider_cost_usd :: "'d option"
  gr_sell_price_usd :: "'d option"
  gr_latency_ms :: int
  gr_status :: int

record ('d, 'ts) generation =
  g_id :: string
  g_created_at :: 'ts
  g_canonical_slug :: string
  g_provider_id :: string
  g_prompt_tokens :: "int option"
  g_completion_tokens :: "int option"
  g_reported_cost_usd :: "'d option"
  g_provider_cost_usd :: "'d option"
  g_latency_ms :: int

text \<open>The database: inserting a row whose \<open>created_at\<close> it chooses itself, and reading the rows a
  predicate selects. \<open>None\<close> is an operation that timed out.\<close>

record ('db, 'd, 'ts, 'e) pg_ops =
  pg_insert :: "'db \<Rightarrow> ('ts \<Rightarrow> ('d, 'ts) generation_row) \<Rightarrow> 'db \<times> (unit, 'e) result option"
  pg_select :: "'db \<Rightarrow> (('d, 'ts) generation_row \<Rightarrow> bool) \<Rightarrow> 'db \<times> (('d, 'ts) generation_row list, 'e) result option"
  pg_pool_timed_out :: 'e

record 'db ledger =
  l_pool :: 'db
  l_database_health :: database_health
  l_public_provider_aliases :: "(string, string) bmap"

definition ledger_with_health :: "'db \<Rightarrow> database_health \<Rightarrow> 'db ledger" where
  "ledger_with_health pool h = \<lparr>l_pool = pool, l_database_health = h, l_public_provider_aliases = []\<rparr>"

definition ledger_new :: "'db \<Rightarrow> 'db ledger" where
  "ledger_new pool = ledger_with_health pool health_ready"

definition public_alias :: "'d provider \<Rightarrow> (string \<times> string) option" where
  "public_alias p =
     (case (p_public_display_name p, p_public_tag p) of
        (Some display_name, Some _) \<Rightarrow> Some (p_id p, display_name)
      | _ \<Rightarrow> None)"

definition with_public_provider_aliases :: "'db ledger \<Rightarrow> 'd registry \<Rightarrow> 'db ledger" where
  "with_public_provider_aliases l r =
     l\<lparr>l_public_provider_aliases := bm_collect (List.map_filter public_alias (r_providers r))\<rparr>"

definition public_provider_name :: "'db ledger \<Rightarrow> string \<Rightarrow> string" where
  "public_provider_name l provider_id =
     unwrap_or provider_id (bm_get provider_id (l_public_provider_aliases l))"

section \<open>Writing and reading\<close>

definition insert_values :: "'d generation_write \<Rightarrow> 'ts \<Rightarrow> ('d, 'ts) generation_row" where
  "insert_values g now =
     \<lparr>gr_id = gw_id g, gr_created_at = now, gr_routing_profile = profile_str (gw_routing_profile g),
      gr_canonical_slug = gw_canonical_slug g, gr_provider_id = gw_provider_id g,
      gr_prompt_tokens = Some (gw_prompt_tokens g), gr_completion_tokens = Some (gw_completion_tokens g),
      gr_cost_usd = Some (gw_cost_usd g), gr_provider_cost_usd = Some (gw_cost_usd g),
      gr_sell_price_usd = None, gr_latency_ms = gw_latency_ms g, gr_status = gw_status g\<rparr>"

text \<open>What either operation does with its outcome: a timeout is a pool timeout, and the health
  is told.\<close>

definition settle ::
  "('db, 'd, 'ts, 'e) pg_ops \<Rightarrow> 'db ledger \<Rightarrow> 'db \<times> ('a, 'e) result option \<Rightarrow> 'db ledger \<times> ('a, 'e) result" where
  "settle P l attempt =
     (case attempt of (pool, outcome) \<Rightarrow>
        case unwrap_or (Err (pg_pool_timed_out P)) outcome of
          Ok a \<Rightarrow> (l\<lparr>l_pool := pool, l_database_health := report_ready (l_database_health l)\<rparr>, Ok a)
        | Err e \<Rightarrow> (l\<lparr>l_pool := pool, l_database_health := report_failure (l_database_health l)\<rparr>, Err e))"

definition ledger_insert ::
  "('db, 'd, 'ts, 'e) pg_ops \<Rightarrow> 'db ledger \<Rightarrow> 'd generation_write \<Rightarrow> 'db ledger \<times> (unit, 'e) result" where
  "ledger_insert P l g = settle P l (pg_insert P (l_pool l) (insert_values g))"

definition select_matches :: "string \<Rightarrow> routing_profile \<Rightarrow> ('d, 'ts) generation_row \<Rightarrow> bool" where
  "select_matches i profile row \<longleftrightarrow> gr_id row = i \<and> gr_routing_profile row = profile_str profile"

definition select_columns :: "('d, 'ts) generation_row \<Rightarrow> ('d, 'ts) generation" where
  "select_columns row =
     \<lparr>g_id = gr_id row, g_created_at = gr_created_at row, g_canonical_slug = gr_canonical_slug row,
      g_provider_id = gr_provider_id row, g_prompt_tokens = gr_prompt_tokens row,
      g_completion_tokens = gr_completion_tokens row,
      g_reported_cost_usd =
        (if gr_sell_price_usd row \<noteq> None then gr_sell_price_usd row
         else or_else (gr_provider_cost_usd row) (gr_cost_usd row)),
      g_provider_cost_usd = gr_provider_cost_usd row, g_latency_ms = gr_latency_ms row\<rparr>"

definition ledger_fetch ::
  "('db, 'd, 'ts, 'e) pg_ops \<Rightarrow> 'db ledger \<Rightarrow> string \<Rightarrow> routing_profile \<Rightarrow>
   'db ledger \<times> (('d, 'ts) generation option, 'e) result" where
  "ledger_fetch P l i profile =
     (case settle P l (pg_select P (l_pool l) (select_matches i profile)) of
        (l', Err e) \<Rightarrow> (l', Err e)
      | (l', Ok []) \<Rightarrow> (l', Ok None)
      | (l', Ok (row # _)) \<Rightarrow> (l', Ok (Some (select_columns row))))"

section \<open>The generation endpoint\<close>

definition int_text :: "int \<Rightarrow> string" where
  "int_text i = (if i < 0 then ''-'' @ nat_text (nat (- i)) else nat_text (nat i))"

definition decimal_value :: "'d decimal_ops \<Rightarrow> json_ops \<Rightarrow> 'd \<Rightarrow> json panics" where
  "decimal_value D J value = map_option JNumber (number_from_str J (d_to_string D value))"

definition optional_int :: "int option \<Rightarrow> json" where
  "optional_int x = (case x of None \<Rightarrow> JNull | Some i \<Rightarrow> JNumber (int_text i))"

definition generation_body :: "string \<Rightarrow> string \<Rightarrow> ('d, 'ts) generation \<Rightarrow> json \<Rightarrow> json" where
  "generation_body created_at provider_name g total_cost =
     JObject [(''data'', JObject
       [(''created_at'', JString created_at), (''id'', JString (g_id g)),
        (''latency'', JNumber (int_text (g_latency_ms g))), (''model'', JString (g_canonical_slug g)),
        (''provider_name'', JString provider_name),
        (''tokens_completion'', optional_int (g_completion_tokens g)),
        (''tokens_prompt'', optional_int (g_prompt_tokens g)), (''total_cost'', total_cost)])]"

definition generation_response ::
  "'d decimal_ops \<Rightarrow> json_ops \<Rightarrow> ('ts \<Rightarrow> string) \<Rightarrow> ('d, 'ts) generation \<Rightarrow> string \<Rightarrow> response panics" where
  "generation_response D J to_text g provider_name =
     do { total_cost \<leftarrow> (case g_reported_cost_usd g of None \<Rightarrow> Some JNull | Some c \<Rightarrow> decimal_value D J c);
          Some (json_response 200 (generation_body (to_text (g_created_at g)) provider_name g total_cost)) }"

definition api_error :: "nat \<Rightarrow> string \<Rightarrow> response" where
  "api_error status message = json_response status (error_message message)"

text \<open>\<open>query\<close> is \<open>None\<close> when the query string has no readable \<open>id\<close>.\<close>

definition get_generation ::
  "'d decimal_ops \<Rightarrow> json_ops \<Rightarrow> ('db, 'd, 'ts, 'e) pg_ops \<Rightarrow> ('ts \<Rightarrow> string) \<Rightarrow> 'db ledger \<Rightarrow>
   routing_profile \<Rightarrow> string option \<Rightarrow> ('db ledger \<times> response) panics" where
  "get_generation D J P to_text l profile query =
     (case option_filter (\<lambda>i. trim i \<noteq> []) query of
        None \<Rightarrow> Some (l, api_error 400 ''id is required'')
      | Some i \<Rightarrow>
          (case ledger_fetch P l i profile of
             (l', Ok (Some g)) \<Rightarrow>
               do { response \<leftarrow> generation_response D J to_text g (public_provider_name l' (g_provider_id g));
                    Some (l', response) }
           | (l', Ok None) \<Rightarrow> Some (l', api_error 404 ''generation not found'')
           | (l', Err _) \<Rightarrow> Some (l', api_error 503 ''generation ledger unavailable'')))"

section \<open>What is written is what is read\<close>

text \<open>A row as a \<open>NUMERIC(18, 10)\<close> table keeps it: each cost as some decimal of the value rounded to
  ten places, half away from zero (its scale, and so its text, may differ).\<close>

definition stored_row :: "'d decimal_ops \<Rightarrow> ('d, 'ts) generation_row \<Rightarrow> ('d, 'ts) generation_row \<Rightarrow> bool" where
  "stored_row D row kept \<longleftrightarrow>
     (let same = rel_option (\<lambda>c c'. d_val D c' = round_away 10 (d_val D c)) in
      same (gr_cost_usd row) (gr_cost_usd kept) \<and> same (gr_provider_cost_usd row) (gr_provider_cost_usd kept) \<and>
      same (gr_sell_price_usd row) (gr_sell_price_usd kept) \<and>
      kept = row\<lparr>gr_cost_usd := gr_cost_usd kept, gr_provider_cost_usd := gr_provider_cost_usd kept,
        gr_sell_price_usd := gr_sell_price_usd kept\<rparr>)"

text \<open>The database's documented contract: \<open>table\<close> is the table a state holds. A successful insert
  adds exactly its row, whose id was not there before (the primary key); a successful query
  answers with the rows of the table its predicate selects.\<close>

definition pg_laws ::
  "'d decimal_ops \<Rightarrow> ('db, 'd, 'ts, 'e) pg_ops \<Rightarrow> ('db \<Rightarrow> ('d, 'ts) generation_row list) \<Rightarrow> bool" where
  "pg_laws D P table \<longleftrightarrow>
     (\<forall>db db' mk. pg_insert P db mk = (db', Some (Ok ())) \<longrightarrow>
        (\<exists>now kept. stored_row D (mk now) kept \<and> table db' = table db @ [kept] \<and>
           gr_id (mk now) \<notin> gr_id ` set (table db))) \<and>
     (\<forall>db db' p rows. pg_select P db p = (db', Some (Ok rows)) \<longrightarrow> rows = filter p (table db) \<and> table db' = table db)"

lemma stored_row_insert:
  assumes "stored_row D (insert_values g now) kept"
  obtains c c' where "kept = (insert_values g now)\<lparr>gr_cost_usd := Some c', gr_provider_cost_usd := Some c\<rparr>"
    and "d_val D c = round_away 10 (d_val D (gw_cost_usd g))"
proof -
  from assms obtain c c' where "gr_cost_usd kept = Some c'" "gr_provider_cost_usd kept = Some c"
      "gr_sell_price_usd kept = None"
    and c: "d_val D c = round_away 10 (d_val D (gw_cost_usd g))"
    and "kept = (insert_values g now)\<lparr>gr_cost_usd := gr_cost_usd kept, gr_provider_cost_usd := gr_provider_cost_usd kept,
        gr_sell_price_usd := gr_sell_price_usd kept\<rparr>"
    by (auto simp: stored_row_def Let_def insert_values_def option_rel_Some1)
  then have "kept = (insert_values g now)\<lparr>gr_cost_usd := Some c', gr_provider_cost_usd := Some c\<rparr>"
    by (simp add: insert_values_def)
  with c show thesis by (rule that [rotated])
qed

lemma profile_str_inj [simp]: "profile_str p = profile_str q \<longleftrightarrow> p = q"
  by (cases p; cases q) auto

lemma settle_Ok:
  "settle P l attempt = (l', Ok a) \<Longrightarrow>
   snd attempt = Some (Ok a) \<and> l_pool l' = fst attempt \<and> l_public_provider_aliases l' = l_public_provider_aliases l \<and>
   status_of (l_database_health l') = Some Ready"
  by (auto simp: settle_def report_ready_def status_of_cases unwrap_or_def split: prod.splits option.splits result.splits)

lemma settle_Err:
  "settle P l attempt = (l', Err e) \<Longrightarrow>
   status_of (l_database_health l') = Some Degraded \<and> dh_permit (l_database_health l')"
  by (auto simp: settle_def report_failure_def mark_degraded_def notify_one_def status_of_cases unwrap_or_def
      split: prod.splits option.splits result.splits)

lemma ledger_fetch_Ok:
  assumes "ledger_fetch P l i profile = (l', Ok found)"
  obtains rows where "settle P l (pg_select P (l_pool l) (select_matches i profile)) = (l', Ok rows)"
    and "found = (case rows of [] \<Rightarrow> None | row # _ \<Rightarrow> Some (select_columns row))"
  using assms by (auto simp: ledger_fetch_def split: prod.splits result.splits list.splits)

lemma insert_then_select:
  assumes laws: "pg_laws D P table"
    and ins: "ledger_insert P l g = (l', Ok ())"
    and fetched: "ledger_fetch P l' (gw_id g) profile = (l'', Ok found)"
  shows "if profile = gw_routing_profile g
    then \<exists>now kept. stored_row D (insert_values g now) kept \<and> found = Some (select_columns kept) else found = None"
proof -
  from settle_Ok [OF ins [unfolded ledger_insert_def]]
  have "pg_insert P (l_pool l) (insert_values g) = (l_pool l', Some (Ok ()))" by (simp add: prod_eq_iff)
  then obtain now kept where kept: "stored_row D (insert_values g now) kept"
    and t: "table (l_pool l') = table (l_pool l) @ [kept]"
    and new: "gr_id (insert_values g now) \<notin> gr_id ` set (table (l_pool l))"
    using laws unfolding pg_laws_def by blast
  from new have "filter (select_matches (gw_id g) profile) (table (l_pool l)) = []"
    by (auto simp: filter_empty_conv select_matches_def insert_values_def not_in_image_iff)
  moreover have "select_matches (gw_id g) profile kept \<longleftrightarrow> profile = gw_routing_profile g"
    by (rule stored_row_insert [OF kept]) (auto simp: select_matches_def insert_values_def)
  ultimately have rows: "filter (select_matches (gw_id g) profile) (table (l_pool l')) =
      (if profile = gw_routing_profile g then [kept] else [])"
    by (simp add: t)
  obtain rs l1 where s: "settle P l' (pg_select P (l_pool l') (select_matches (gw_id g) profile)) = (l1, Ok rs)"
    and found: "found = (case rs of [] \<Rightarrow> None | row # _ \<Rightarrow> Some (select_columns row))"
    using fetched by (rule ledger_fetch_Ok)
  from settle_Ok [OF s] have "rs = filter (select_matches (gw_id g) profile) (table (l_pool l'))"
    using laws unfolding pg_laws_def by (metis prod.collapse)
  with rows found kept show ?thesis by auto
qed

text \<open>C21: A generation that was written is read back by its id under its own routing profile with
  exactly the written model, token counts and latency, the written cost at the ten decimal places
  every billed cost has, and the provider's public name; under the other profile it is not found. The one other answer is 503, when the lookup itself failed,
  and then the database counts as degraded and its recovery has been requested.\<close>

theorem generation_round_trip:
  assumes "pg_laws D P table" and "ledger_insert P l g = (l', Ok ())" and "trim (gw_id g) \<noteq> []"
    and "get_generation D J P to_text l' profile (Some (gw_id g)) = Some (l'', response)"
  shows "if resp_status response = 503
    then status_of (l_database_health l'') = Some Degraded \<and> dh_permit (l_database_health l'')
    else if profile = gw_routing_profile g
    then \<exists>now cost number. d_val D cost = round_away 10 (d_val D (gw_cost_usd g)) \<and>
      number_from_str J (d_to_string D cost) = Some number \<and>
      response = json_response 200 (JObject [(''data'', JObject
        [(''created_at'', JString (to_text now)), (''id'', JString (gw_id g)),
         (''latency'', JNumber (int_text (gw_latency_ms g))), (''model'', JString (gw_canonical_slug g)),
         (''provider_name'', JString (public_provider_name l (gw_provider_id g))),
         (''tokens_completion'', JNumber (int_text (gw_completion_tokens g))),
         (''tokens_prompt'', JNumber (int_text (gw_prompt_tokens g))), (''total_cost'', JNumber number)])])
    else response = api_error 404 ''generation not found''"
proof -
  obtain l2 outcome where fetched: "ledger_fetch P l' (gw_id g) profile = (l2, outcome)"
    by (cases "ledger_fetch P l' (gw_id g) profile")
  have wrote: "l_public_provider_aliases l' = l_public_provider_aliases l"
    using settle_Ok assms(2) by (fastforce simp: ledger_insert_def)
  show ?thesis
  proof (cases outcome)
    case (Err e)
    then have "settle P l' (pg_select P (l_pool l') (select_matches (gw_id g) profile)) = (l2, Err e)"
      using fetched by (auto simp: ledger_fetch_def split: prod.splits result.splits list.splits)
    from settle_Err [OF this] assms(3,4) fetched Err show ?thesis
      by (auto simp: get_generation_def option_filter_def api_error_def json_response_def)
  next
    case (Ok found)
    note read = insert_then_select [OF assms(1,2) fetched [unfolded Ok]]
    have aliases: "l_public_provider_aliases l2 = l_public_provider_aliases l"
      using wrote settle_Ok by (metis ledger_fetch_Ok fetched [unfolded Ok])
    show ?thesis
    proof (cases "profile = gw_routing_profile g")
      case False
      then show ?thesis
        using read assms(3,4) fetched Ok
        by (auto simp: get_generation_def option_filter_def api_error_def json_response_def)
    next
      case True
      with read obtain now kept where kept: "stored_row D (insert_values g now) kept"
        and found: "found = Some (select_columns kept)" by auto
      from kept obtain c c' where row: "kept = (insert_values g now)\<lparr>gr_cost_usd := Some c', gr_provider_cost_usd := Some c\<rparr>"
        and c: "d_val D c = round_away 10 (d_val D (gw_cost_usd g))"
        by (rule stored_row_insert)
      from found row True c assms(3,4) fetched Ok aliases show ?thesis
        by (auto simp: get_generation_def option_filter_def generation_response_def select_columns_def
            insert_values_def decimal_value_def generation_body_def optional_int_def json_response_def
            public_provider_name_def bind_eq_Some_conv)
    qed
  qed
qed

text \<open>A database that keeps its rows in a list, rounds their costs and refuses a repeated id.\<close>

definition keep_row :: "(rat, nat) generation_row \<Rightarrow> (rat, nat) generation_row" where
  "keep_row row =
     row\<lparr>gr_cost_usd := map_option (round_away 10) (gr_cost_usd row),
         gr_provider_cost_usd := map_option (round_away 10) (gr_provider_cost_usd row),
         gr_sell_price_usd := map_option (round_away 10) (gr_sell_price_usd row)\<rparr>"

definition list_pg :: "((rat, nat) generation_row list, rat, nat, string) pg_ops" where
  "list_pg =
     \<lparr>pg_insert = (\<lambda>rows mk. let row = mk (length rows) in
         if gr_id row \<in> gr_id ` set rows then (rows, Some (Err ''unique violation''))
         else (rows @ [keep_row row], Some (Ok ()))),
      pg_select = (\<lambda>rows p. (rows, Some (Ok (filter p rows)))), pg_pool_timed_out = ''timed out''\<rparr>"

lemma keep_row_stored: "stored_row bounded_decimal row (keep_row row)"
  by (simp add: stored_row_def keep_row_def bounded_decimal_def option.rel_map option.rel_refl)

lemma list_pg_laws: "pg_laws bounded_decimal list_pg (\<lambda>rows. rows)"
  using keep_row_stored by (auto simp: pg_laws_def list_pg_def Let_def split: if_splits)

definition example_write :: "rat generation_write" where
  "example_write =
     \<lparr>gw_id = ''gen-1'', gw_routing_profile = Beta, gw_canonical_slug = ''m'', gw_provider_id = ''a'',
      gw_prompt_tokens = 1, gw_completion_tokens = 2, gw_cost_usd = 3, gw_latency_ms = 4, gw_status = 200\<rparr>"

definition number_json :: json_ops where
  "number_json = \<lparr>from_slice = (\<lambda>_. None), to_vec = (\<lambda>_. None), number_as_u64 = (\<lambda>_. None), number_from_str = Some\<rparr>"

theorem generation_round_trip_witness:
  "\<exists>l' l'' response cost. ledger_insert list_pg (ledger_new []) example_write = (l', Ok ()) \<and>
     get_generation bounded_decimal number_json list_pg nat_text l' Beta (Some ''gen-1'') = Some (l'', response) \<and>
     resp_status response = 200 \<and> d_val bounded_decimal cost = round_away 10 3 \<and>
     get_generation bounded_decimal number_json list_pg nat_text l' Production (Some ''gen-1'') =
       Some (l'', api_error 404 ''generation not found'')"
proof -
  let ?l = "fst (ledger_insert list_pg (ledger_new []) example_write)"
  let ?get = "\<lambda>profile. get_generation bounded_decimal number_json list_pg nat_text ?l profile (Some (gw_id example_write))"
  have ins: "ledger_insert list_pg (ledger_new []) example_write = (?l, Ok ())"
    by (simp add: ledger_insert_def settle_def list_pg_def ledger_new_def ledger_with_health_def Let_def)
  have id: "gw_id example_write = ''gen-1''" "gw_routing_profile example_write = Beta" "gw_cost_usd example_write = 3"
    by (simp_all add: example_write_def)
  have "trim ''gen-1'' \<noteq> []" by code_simp
  then have t: "trim (gw_id example_write) \<noteq> []" by (simp add: id)
  have got: "\<exists>l'' response. ?get profile = Some (l'', response) \<and> resp_status response \<noteq> 503 \<and> l'' = fst (the (?get Beta))"
    for profile
    using t by (cases profile) (auto simp: get_generation_def option_filter_def ledger_fetch_def settle_def list_pg_def
        ledger_insert_def ledger_new_def ledger_with_health_def Let_def id insert_values_def keep_row_def
        select_matches_def api_error_def json_response_def generation_response_def select_columns_def decimal_value_def
        number_json_def example_write_def)
  obtain l1 read where beta: "?get Beta = Some (l1, read)" "resp_status read \<noteq> 503" using got [of Beta] by blast
  obtain other where production: "?get Production = Some (l1, other)" "resp_status other \<noteq> 503"
    using got [of Production] beta(1) by auto
  from generation_round_trip [OF list_pg_laws ins t beta(1)] beta(2)
  obtain cost where "d_val bounded_decimal cost = round_away 10 (d_val bounded_decimal 3)" "resp_status read = 200"
    by (auto simp: id json_response_def)
  moreover have "d_val bounded_decimal 3 = 3" by (simp add: bounded_decimal_def)
  moreover from generation_round_trip [OF list_pg_laws ins t production(1)] production(2)
  have "other = api_error 404 ''generation not found''" by (simp add: id)
  ultimately show ?thesis using ins beta(1) production(1) unfolding id by (metis (no_types, lifting))
qed

end
