(* ===== verification/Generation.thy ===== *)
theory Generation
  imports Sse Ledger Measurements
begin

text \<open>
  What the proxy remembers of a completion while it is served (\<open>GenerationContext\<close> and
  \<open>GenerationTiming\<close> of \<open>src/proxy.rs\<close>), how it is recorded once its cost is known, and the
  stream that drives the event transformer over an upstream body
  (\<open>stream_with_response_transformer\<close>). An \<open>Instant\<close> is a number of nanoseconds; the readings of
  the clock are inputs. The measurement store, the ledger inserts that were spawned, the
  segment durations and the reasons of omitted records are collected in a \<open>recorder\<close>.
\<close>

section \<open>Timing\<close>

type_synonym instant = nat

definition saturating_duration_since :: "instant \<Rightarrow> instant \<Rightarrow> duration" where
  "saturating_duration_since later earlier = later - earlier"

definition duration_saturating_add :: "duration \<Rightarrow> duration \<Rightarrow> duration" where
  "duration_saturating_add a b = min (a + b) duration_max"

definition as_millis :: "duration \<Rightarrow> nat" where
  "as_millis d = d div 10 ^ 6"

definition i64_max :: int where "i64_max = 2 ^ 63 - 1"

definition i64_try_from :: "nat \<Rightarrow> int option" where
  "i64_try_from n = (if int n \<le> i64_max then Some (int n) else None)"

definition i16_try_from :: "nat \<Rightarrow> int option" where
  "i16_try_from n = (if n < 2 ^ 15 then Some (int n) else None)"

record generation_timing =
  gt_request_started_at :: instant
  gt_attempt_started_at :: instant
  gt_headers_received_at :: instant
  gt_first_output_at :: "instant option"
  gt_processing_duration :: duration
  gt_profile :: routing_profile

definition timing_streaming :: "instant \<Rightarrow> instant \<Rightarrow> instant \<Rightarrow> routing_profile \<Rightarrow> generation_timing" where
  "timing_streaming request_started_at attempt_started_at headers_received_at profile =
     \<lparr>gt_request_started_at = request_started_at, gt_attempt_started_at = attempt_started_at,
      gt_headers_received_at = headers_received_at, gt_first_output_at = None,
      gt_processing_duration = 0, gt_profile = profile\<rparr>"

definition timing_non_streaming ::
  "instant \<Rightarrow> instant \<Rightarrow> instant \<Rightarrow> duration \<Rightarrow> routing_profile \<Rightarrow> generation_timing" where
  "timing_non_streaming request_started_at attempt_started_at headers_received_at processing_duration profile =
     \<lparr>gt_request_started_at = request_started_at, gt_attempt_started_at = attempt_started_at,
      gt_headers_received_at = headers_received_at, gt_first_output_at = Some headers_received_at,
      gt_processing_duration = processing_duration, gt_profile = profile\<rparr>"

section \<open>The generation\<close>

record generation_context =
  gx_canonical_slug :: string
  gx_provider_id :: string
  gx_status :: nat
  gx_request_started_at :: instant
  gx_attempt_started_at :: instant
  gx_headers_received_at :: instant
  gx_first_output_at :: "instant option"
  gx_processing_duration :: duration
  gx_endpoint :: string
  gx_profile :: routing_profile

definition generation_new ::
  "string \<Rightarrow> served_provider \<Rightarrow> nat \<Rightarrow> generation_timing \<Rightarrow> string \<Rightarrow> generation_context" where
  "generation_new slug served status timing endpoint =
     \<lparr>gx_canonical_slug = slug, gx_provider_id = provider_str served, gx_status = status,
      gx_request_started_at = gt_request_started_at timing,
      gx_attempt_started_at = gt_attempt_started_at timing,
      gx_headers_received_at = gt_headers_received_at timing,
      gx_first_output_at = gt_first_output_at timing,
      gx_processing_duration = gt_processing_duration timing, gx_endpoint = endpoint,
      gx_profile = gt_profile timing\<rparr>"

definition observe_first_output :: "instant \<Rightarrow> generation_context \<Rightarrow> generation_context" where
  "observe_first_output observed_at g =
     g\<lparr>gx_first_output_at := or_else (gx_first_output_at g) (Some observed_at)\<rparr>"

definition observe_processing :: "duration \<Rightarrow> generation_context \<Rightarrow> generation_context" where
  "observe_processing d g =
     g\<lparr>gx_processing_duration := duration_saturating_add (gx_processing_duration g) d\<rparr>"

record proxy_segment =
  ps_endpoint :: string
  ps_profile :: routing_profile
  ps_provider :: string
  ps_segment :: string
  ps_duration :: duration

record 'd recorder =
  rc_measurements :: measurement_store
  rc_writes :: "'d generation_write list"
  rc_segments :: "proxy_segment list"
  rc_omitted :: "string list"

definition warn_incomplete :: "string \<Rightarrow> 'd recorder \<Rightarrow> 'd recorder" where
  "warn_incomplete reason rc = rc\<lparr>rc_omitted := rc_omitted rc @ [reason]\<rparr>"

definition record_measurement ::
  "generation_context \<Rightarrow> 'd costed_usage \<Rightarrow> instant \<Rightarrow> 'd recorder \<Rightarrow> 'd recorder" where
  "record_measurement g costed completed_at rc =
     (case gx_first_output_at g of
        None \<Rightarrow> rc
      | Some first_output_at \<Rightarrow>
          let stream_duration = saturating_duration_since completed_at first_output_at in
          if stream_duration = 0 then rc
          else rc\<lparr>rc_measurements := fst (observe_for (rc_measurements rc) (gx_profile g) (gx_provider_id g)
                 (gx_canonical_slug g)
                 \<lparr>ob_completion_tokens = completion_tokens (cu_usage costed),
                  ob_stream_duration = stream_duration,
                  ob_time_to_first_token = saturating_duration_since first_output_at (gx_attempt_started_at g)\<rparr>)\<rparr>)"

definition segments_of :: "generation_context \<Rightarrow> instant \<Rightarrow> (string \<times> duration) list" where
  "segments_of g completed_at =
     (case gx_first_output_at g of
        None \<Rightarrow> []
      | Some first_output_at \<Rightarrow>
          [(''pre_sidecar'', saturating_duration_since (gx_attempt_started_at g) (gx_request_started_at g)),
           (''sidecar_headers'', saturating_duration_since (gx_headers_received_at g) (gx_attempt_started_at g)),
           (''first_output'', saturating_duration_since first_output_at (gx_attempt_started_at g)),
           (''sidecar_stream'', saturating_duration_since completed_at (gx_headers_received_at g)),
           (''post_first_output'', saturating_duration_since completed_at first_output_at),
           (''app_processing'', gx_processing_duration g),
           (''total'', saturating_duration_since completed_at (gx_request_started_at g))])"

definition record_proxy_segments :: "generation_context \<Rightarrow> instant \<Rightarrow> 'd recorder \<Rightarrow> 'd recorder" where
  "record_proxy_segments g completed_at rc =
     rc\<lparr>rc_segments := rc_segments rc @
       map (\<lambda>(segment, d). \<lparr>ps_endpoint = gx_endpoint g, ps_profile = gx_profile g,
              ps_provider = gx_provider_id g, ps_segment = segment, ps_duration = d\<rparr>)
         (segments_of g completed_at)\<rparr>"

definition generation_write_of ::
  "generation_context \<Rightarrow> 'd costed_usage \<Rightarrow> instant \<Rightarrow> ('d generation_write, string) result panics" where
  "generation_write_of g costed completed_at =
     (case cu_response_id costed of
        None \<Rightarrow> Some (Err ''costed response omitted a provider response id'')
      | Some response_id \<Rightarrow>
     (case i64_try_from (unat (prompt_tokens (cu_usage costed))) of
        None \<Rightarrow> Some (Err ''prompt token count exceeds the ledger BIGINT'')
      | Some prompt \<Rightarrow>
     (case i64_try_from (unat (completion_tokens (cu_usage costed))) of
        None \<Rightarrow> Some (Err ''completion token count exceeds the ledger BIGINT'')
      | Some completion \<Rightarrow>
          do { status \<leftarrow> i16_try_from (gx_status g);
               Some (Ok \<lparr>gw_id = response_id, gw_routing_profile = gx_profile g,
                 gw_canonical_slug = gx_canonical_slug g, gw_provider_id = gx_provider_id g,
                 gw_prompt_tokens = prompt, gw_completion_tokens = completion,
                 gw_cost_usd = cu_cost_usd costed,
                 gw_latency_ms = unwrap_or i64_max (i64_try_from
                   (as_millis (saturating_duration_since completed_at (gx_request_started_at g)))),
                 gw_status = status\<rparr>) })))"

definition record_at ::
  "generation_context \<Rightarrow> 'd costed_usage \<Rightarrow> instant \<Rightarrow> 'd recorder \<Rightarrow> 'd recorder panics" where
  "record_at g costed completed_at rc =
     (let rc1 = record_proxy_segments g completed_at (record_measurement g costed completed_at rc) in
      do { outcome \<leftarrow> generation_write_of g costed completed_at;
           Some (case outcome of
               Err reason \<Rightarrow> warn_incomplete reason rc1
             | Ok write \<Rightarrow> rc1\<lparr>rc_writes := rc_writes rc1 @ [write]\<rparr>) })"

section \<open>The transformed stream\<close>

text \<open>The clock readings of one turn of the loop, and what the upstream body yields.\<close>

record tick =
  tk_observed :: instant
  tk_elapsed :: duration
  tk_recorded :: instant

datatype 'e upstream_item = Chunk bytes tick | Broken 'e

text \<open>One chunk: the transformer that goes on (none once it has closed), the generation still
  unrecorded, and the bytes to send.\<close>

definition on_chunk ::
  "'d decimal_ops \<Rightarrow> json_ops \<Rightarrow> 'd transformer \<Rightarrow> generation_context option \<Rightarrow> 'd recorder \<Rightarrow> bytes \<Rightarrow> tick \<Rightarrow>
   ('d transformer option \<times> generation_context option \<times> 'd recorder \<times> bytes) panics" where
  "on_chunk D J current gen rc chunk t =
     do { let gen1 = (if chunk \<noteq> [] then map_option (observe_first_output (tk_observed t)) gen else gen);
          (next, sent, completed) \<leftarrow> transform D J current chunk;
          let gen2 = map_option (observe_processing (tk_elapsed t)) gen1;
          (gen3, rc1) \<leftarrow> (case (completed, gen2) of
              (Some costed, Some g) \<Rightarrow> do { rc' \<leftarrow> record_at g costed (tk_recorded t) rc; Some (None, rc') }
            | _ \<Rightarrow> Some (gen2, rc));
          let incomplete = (is_closed next \<and> completed = None \<and> gen3 \<noteq> None);
          Some (if is_closed next then None else Some next, if incomplete then None else gen3,
                if incomplete
                then warn_incomplete ''stream was closed before a costed terminal usage event'' rc1 else rc1,
                sent) }"

definition on_end ::
  "json_ops \<Rightarrow> 'd transformer \<Rightarrow> generation_context option \<Rightarrow> 'd recorder \<Rightarrow> tick \<Rightarrow> ('d recorder \<times> bytes) panics" where
  "on_end J current gen rc t =
     do { (sent, completed) \<leftarrow> finish J current;
          let gen1 = map_option (observe_processing (tk_elapsed t)) gen;
          (gen2, rc1) \<leftarrow> (case (completed, gen1) of
              (Some costed, Some g) \<Rightarrow> do { rc' \<leftarrow> record_at g costed (tk_recorded t) rc; Some (None, rc') }
            | _ \<Rightarrow> Some (gen1, rc));
          Some (if gen2 \<noteq> None then warn_incomplete ''stream ended before a costed usage event and [DONE]'' rc1
                else rc1, sent) }"

text \<open>The items the client receives. A loop turn without a transformer is the panicking
  \<open>expect\<close>; a fresh poll without one ends the stream.\<close>

fun response_stream ::
  "'d decimal_ops \<Rightarrow> json_ops \<Rightarrow> 'd transformer option \<Rightarrow> generation_context option \<Rightarrow> 'd recorder \<Rightarrow>
   'e upstream_item list \<Rightarrow> tick \<Rightarrow> ((bytes, 'e) result list \<times> 'd recorder) panics" where
  "response_stream D J tr gen rc (Chunk chunk t # rest) last_tick =
     do { current \<leftarrow> tr;
          (tr', gen', rc', sent) \<leftarrow> on_chunk D J current gen rc chunk t;
          if sent = [] then response_stream D J tr' gen' rc' rest last_tick
          else case tr' of
            None \<Rightarrow> Some ([Ok sent], rc')
          | Some _ \<Rightarrow>
              do { (items, rc'') \<leftarrow> response_stream D J tr' gen' rc' rest last_tick;
                   Some (Ok sent # items, rc'') } }"
| "response_stream D J tr gen rc (Broken e # rest) last_tick =
     Some ([Err e],
       if gen \<noteq> None then warn_incomplete ''upstream stream returned an error'' rc else rc)"
| "response_stream D J tr gen rc [] last_tick =
     do { current \<leftarrow> tr;
          (rc', sent) \<leftarrow> on_end J current gen rc last_tick;
          Some (if sent = [] then [] else [Ok sent], rc') }"

definition stream_with_response_transformer ::
  "'d decimal_ops \<Rightarrow> json_ops \<Rightarrow> 'e upstream_item list \<Rightarrow> tick \<Rightarrow> 'd transformer \<Rightarrow>
   generation_context option \<Rightarrow> 'd recorder \<Rightarrow> ((bytes, 'e) result list \<times> 'd recorder) panics" where
  "stream_with_response_transformer D J items last_tick tr gen rc =
     response_stream D J (Some tr) gen rc items last_tick"

section \<open>A streamed generation is billed or visibly failed\<close>

definition delivered :: "(bytes, 'e) result list \<Rightarrow> bytes" where
  "delivered items = concat (map (\<lambda>i. case i of Ok b \<Rightarrow> b | Err _ \<Rightarrow> []) items)"

definition same_generation :: "generation_context \<Rightarrow> generation_context \<Rightarrow> bool" where
  "same_generation g g' \<longleftrightarrow>
     g' = g\<lparr>gx_first_output_at := gx_first_output_at g', gx_processing_duration := gx_processing_duration g'\<rparr>"

definition ends_done :: "bytes \<Rightarrow> bool" where
  "ends_done b \<longleftrightarrow> (\<exists>sent newline. b = sent @ ''[DONE]'' @ newline \<and>
     newline \<in> separators \<union> {[], [LF], [CR, LF]})"

definition ends_error :: "json_ops \<Rightarrow> string \<Rightarrow> bytes \<Rightarrow> bool" where
  "ends_error J model b \<longleftrightarrow> (\<exists>sent frame. b = sent @ frame \<and> error_frame J model frame)"

text \<open>Frames a client may see, then possibly an end marker the upstream did not terminate.\<close>

definition end_marker :: "bytes \<Rightarrow> bool" where
  "end_marker tail \<longleftrightarrow> tail = [] \<or>
     (\<exists>data_prefix \<in> data_prefixes. \<exists>newline \<in> {[], [LF], [CR, LF]}. tail = data_prefix @ ''[DONE]'' @ newline)"

definition public_bytes :: "json_ops \<Rightarrow> string \<Rightarrow> bytes \<Rightarrow> bool" where
  "public_bytes J model b \<longleftrightarrow>
     (\<exists>frames tail. b = concat frames @ tail \<and> (\<forall>frame \<in> set frames. public_frame J model frame) \<and>
        end_marker tail)"

text \<open>What recording a generation does: exactly one ledger write is added, with the id of the answer,
  the tokens and the cost it was charged and the generation's own profile, model, provider, status
  and latency. An answer without an id, or with token counts the ledger's integers cannot hold, adds
  no write but one reason. The throughput is measured when output came before the end.\<close>

definition recorded ::
  "generation_context \<Rightarrow> 'd costed_usage \<Rightarrow> instant \<Rightarrow> 'd recorder \<Rightarrow> 'd recorder \<Rightarrow> bool" where
  "recorded g costed now rc rc' \<longleftrightarrow>
     (if \<exists>i. cu_response_id costed = Some i \<and> unat (prompt_tokens (cu_usage costed)) < 2 ^ 63 \<and>
           unat (completion_tokens (cu_usage costed)) < 2 ^ 63
      then rc_writes rc' = rc_writes rc @
             [\<lparr>gw_id = the (cu_response_id costed), gw_routing_profile = gx_profile g,
               gw_canonical_slug = gx_canonical_slug g, gw_provider_id = gx_provider_id g,
               gw_prompt_tokens = int (unat (prompt_tokens (cu_usage costed))),
               gw_completion_tokens = int (unat (completion_tokens (cu_usage costed))),
               gw_cost_usd = cu_cost_usd costed,
               gw_latency_ms = min (2 ^ 63 - 1) (int ((now - gx_request_started_at g) div 10 ^ 6)),
               gw_status = int (gx_status g)\<rparr>] \<and>
           rc_omitted rc' = rc_omitted rc
      else rc_writes rc' = rc_writes rc \<and> (\<exists>reason. rc_omitted rc' = rc_omitted rc @ [reason])) \<and>
     (\<exists>segments. rc_segments rc' = rc_segments rc @ segments) \<and>
     rc_measurements rc' =
       (case gx_first_output_at g of
          None \<Rightarrow> rc_measurements rc
        | Some first \<Rightarrow>
            if now \<le> first then rc_measurements rc
            else fst (observe_for (rc_measurements rc) (gx_profile g) (gx_provider_id g) (gx_canonical_slug g)
              \<lparr>ob_completion_tokens = completion_tokens (cu_usage costed),
               ob_stream_duration = now - first,
               ob_time_to_first_token = first - gx_attempt_started_at g\<rparr>))"

lemma record_at_recorded:
  assumes "record_at g costed now rc = Some rc'"
  shows "recorded g costed now rc rc'"
proof -
  let ?rc1 = "record_proxy_segments g now (record_measurement g costed now rc)"
  have rc1: "rc_writes ?rc1 = rc_writes rc" "rc_omitted ?rc1 = rc_omitted rc"
    "rc_segments ?rc1 = rc_segments rc @ map (\<lambda>(segment, d). \<lparr>ps_endpoint = gx_endpoint g, ps_profile = gx_profile g,
       ps_provider = gx_provider_id g, ps_segment = segment, ps_duration = d\<rparr>) (segments_of g now)"
    by (simp_all add: record_proxy_segments_def record_measurement_def Let_def split: option.split)
  have measured: "rc_measurements ?rc1 = (case gx_first_output_at g of
      None \<Rightarrow> rc_measurements rc
    | Some first \<Rightarrow>
        if now \<le> first then rc_measurements rc
        else fst (observe_for (rc_measurements rc) (gx_profile g) (gx_provider_id g) (gx_canonical_slug g)
          \<lparr>ob_completion_tokens = completion_tokens (cu_usage costed), ob_stream_duration = now - first,
           ob_time_to_first_token = first - gx_attempt_started_at g\<rparr>))"
    by (simp add: record_proxy_segments_def record_measurement_def saturating_duration_since_def Let_def
        split: option.split)
  have latency: "unwrap_or i64_max (i64_try_from (as_millis (saturating_duration_since now (gx_request_started_at g))))
      = min (2 ^ 63 - 1) (int ((now - gx_request_started_at g) div 10 ^ 6))"
    by (auto simp: i64_try_from_def i64_max_def as_millis_def saturating_duration_since_def)
  have fits: "i64_try_from n = (if n < 2 ^ 63 then Some (int n) else None)" for n
    by (auto simp: i64_try_from_def i64_max_def)
  obtain outcome where outcome: "generation_write_of g costed now = Some outcome"
    and rc': "rc' = (case outcome of Err reason \<Rightarrow> warn_incomplete reason ?rc1
      | Ok write \<Rightarrow> ?rc1\<lparr>rc_writes := rc_writes ?rc1 @ [write]\<rparr>)"
    using assms by (auto simp: record_at_def Let_def bind_eq_Some_conv)
  show ?thesis
  proof (cases outcome)
    case (Err reason)
    then have "\<not> (\<exists>i. cu_response_id costed = Some i \<and> unat (prompt_tokens (cu_usage costed)) < 2 ^ 63 \<and>
        unat (completion_tokens (cu_usage costed)) < 2 ^ 63)"
      using outcome by (auto simp: generation_write_of_def fits bind_eq_Some_conv split: if_splits)
    with Err rc' rc1 measured show ?thesis
      unfolding recorded_def by (simp add: warn_incomplete_def)
  next
    case (Ok entry)
    then obtain i where i: "cu_response_id costed = Some i"
      and small: "unat (prompt_tokens (cu_usage costed)) < 2 ^ 63" "unat (completion_tokens (cu_usage costed)) < 2 ^ 63"
      and status: "i16_try_from (gx_status g) = Some (int (gx_status g))"
      using outcome by (auto simp: generation_write_of_def fits i16_try_from_def bind_eq_Some_conv
          split: option.splits if_splits)
    then have "entry = \<lparr>gw_id = i, gw_routing_profile = gx_profile g, gw_canonical_slug = gx_canonical_slug g,
        gw_provider_id = gx_provider_id g, gw_prompt_tokens = int (unat (prompt_tokens (cu_usage costed))),
        gw_completion_tokens = int (unat (completion_tokens (cu_usage costed))), gw_cost_usd = cu_cost_usd costed,
        gw_latency_ms = min (2 ^ 63 - 1) (int ((now - gx_request_started_at g) div 10 ^ 6)),
        gw_status = int (gx_status g)\<rparr>"
      using outcome Ok unfolding latency [symmetric] by (auto simp: generation_write_of_def fits)
    with Ok rc' rc1 measured i small show ?thesis
      unfolding recorded_def by simp
  qed
qed

text \<open>Recording with the charge the client was shown; \<open>u\<close> is the charge shown before the \<open>frames\<close>.\<close>

definition billed ::
  "'d decimal_ops \<Rightarrow> json_ops \<Rightarrow> string \<Rightarrow> 'd costed_usage option \<Rightarrow> bytes list \<Rightarrow>
   generation_context \<Rightarrow> 'd recorder \<Rightarrow> 'd recorder \<Rightarrow> bool" where
  "billed D J m u frames g rc rc' \<longleftrightarrow>
     (\<exists>g' costed now. same_generation g g' \<and> carries D J m frames u (Some costed) \<and> recorded g' costed now rc rc')"

definition unbilled :: "'d recorder \<Rightarrow> 'd recorder \<Rightarrow> bool" where
  "unbilled rc rc' \<longleftrightarrow> (\<exists>reason. rc' = warn_incomplete reason rc)"

lemma same_generation_trans:
  "same_generation g g' \<Longrightarrow> same_generation g' g'' \<Longrightarrow> same_generation g g''"
  by (cases g; cases g'; cases g'') (auto simp: same_generation_def)

lemma same_generation_observed:
  "same_generation g (observe_processing d (if b then observe_first_output t g else g))"
  by (cases g) (auto simp: same_generation_def observe_processing_def observe_first_output_def)

lemma same_generation_processing: "same_generation g (observe_processing d g)"
  by (cases g) (auto simp: same_generation_def observe_processing_def)

lemma billed_later:
  "same_generation g g' \<Longrightarrow> carries D J m frames u u' \<Longrightarrow> billed D J m u' frames' g' rc rc' \<Longrightarrow>
   billed D J m u (frames @ frames') g rc rc'"
  unfolding billed_def using same_generation_trans carries_trans by blast

text \<open>A charge a client was shown in a public event has the id of that event.\<close>

lemma charge_shown_id:
  assumes "charge_shown D J m frames costed"
  shows "\<exists>i. cu_response_id costed = Some i \<and> i \<noteq> []"
proof -
  obtain v where "public_object m v" "shows_charge D J costed v"
    using assms unfolding charge_shown_def event_frame_def by blast
  then show ?thesis by (force simp: shows_charge_def public_object_def)
qed

lemma ends_append: "ends_done b \<Longrightarrow> ends_done (a @ b)" "ends_error J m b \<Longrightarrow> ends_error J m (a @ b)"
  unfolding ends_done_def ends_error_def by (metis append.assoc)+

lemma done_frame_ends: "done_frame frame \<Longrightarrow> ends_done (a @ frame)"
proof -
  assume "done_frame frame"
  then obtain p newline where "frame = p @ ''[DONE]'' @ newline" "newline \<in> separators"
    by (auto simp: done_frame_def)
  then show ?thesis unfolding ends_done_def by (intro exI [of _ "a @ p"] exI [of _ newline]) simp
qed

lemma error_frame_nonempty: "error_frame J m frame \<Longrightarrow> frame \<noteq> []"
  by (auto simp: error_frame_def generic_upstream_error_event_def bind_eq_Some_conv)

lemma done_frame_nonempty: "done_frame frame \<Longrightarrow> frame \<noteq> []"
  by (auto simp: done_frame_def data_prefixes_def)

text \<open>A transformer that may go on serving a priced public stream.\<close>

definition serving :: "string \<Rightarrow> 'd transformer \<Rightarrow> bool" where
  "serving model st \<longleftrightarrow>
     settled st \<and> ut_response_model st = Some model \<and> \<not> ut_closed st \<and> ut_prices st \<noteq> None"

lemma on_chunk_cases:
  assumes run: "on_chunk D J st (Some g) rc chunk t = Some (tr', gen', rc', sent)" and "serving m st"
  obtains (open_stream) st' g' frames where "tr' = Some st'" "gen' = Some g'" "rc' = rc" "same_generation g g'"
      "serving m st'" "sent = concat frames" "\<forall>frame \<in> set frames. public_frame J m frame"
      "carries D J m frames (ut_costed_usage st) (ut_costed_usage st')"
    | (shut) frames where "tr' = None" "sent \<noteq> []" "sent = concat frames" "\<forall>frame \<in> set frames. public_frame J m frame"
      "billed D J m (ut_costed_usage st) frames g rc rc' \<and> ends_done sent \<or> unbilled rc rc' \<and> ends_error J m sent"
proof -
  note st = assms(2) [unfolded serving_def]
  let ?g = "observe_processing (tk_elapsed t) (if chunk \<noteq> [] then observe_first_output (tk_observed t) g else g)"
  obtain next_st completed where tr: "transform D J st chunk = Some (next_st, sent, completed)"
    using run by (auto simp: on_chunk_def bind_eq_Some_conv Let_def split: prod.splits)
  have "feed_all (transform D J) st [chunk] = Some (next_st, sent, completed)"
    using tr by simp
  from feed_all_public [OF this] st obtain frames where frames: "sent = concat frames"
    "stream_state J m True (ut_closed next_st) frames completed"
    "ut_response_model next_st = Some m" "ut_prices next_st = ut_prices st"
    and charge: "carries D J m frames (ut_costed_usage st) (if ut_closed next_st then completed else ut_costed_usage next_st)"
    by auto
  have settled: "settled next_st"
    using sse.feed_settled [of st D J chunk] st tr by blast
  have public: "\<forall>frame \<in> set frames. public_frame J m frame"
    using frames by (auto simp: stream_state_def)
  have gen: "map_option (observe_processing (tk_elapsed t))
      (if chunk \<noteq> [] then map_option (observe_first_output (tk_observed t)) (Some g) else Some g) = Some ?g"
    by simp
  show thesis
  proof (cases "ut_closed next_st")
    case False
    then have "completed = None" using frames(2) by (simp add: stream_state_def)
    then have "tr' = Some next_st" "gen' = Some ?g" "rc' = rc"
      using run tr False by (auto simp: on_chunk_def is_closed_def Let_def)
    moreover have "serving m next_st"
      using False settled frames(3,4) st by (simp add: serving_def)
    ultimately show thesis
      using charge False
      by (intro open_stream [OF _ _ _ same_generation_observed _ frames(1) public]) simp_all
  next
    case True
    then have last: "frames \<noteq> []" "completed = None \<and> error_frame J m (last frames) \<or>
        done_frame (last frames) \<and> completed \<noteq> None"
      using frames(2) by (auto simp: stream_state_def)
    have sent: "sent = concat (butlast frames) @ last frames"
      using last(1) frames(1) by (metis append_butlast_last_id concat.simps concat_append append_Nil2)
    then have "sent \<noteq> []"
      using last(2) error_frame_nonempty done_frame_nonempty by fastforce
    moreover have "tr' = None"
      using run tr True by (auto simp: on_chunk_def is_closed_def Let_def bind_eq_Some_conv)
    moreover have "billed D J m (ut_costed_usage st) frames g rc rc' \<and> ends_done sent \<or> unbilled rc rc' \<and> ends_error J m sent"
    proof (cases completed)
      case None
      then have "rc' = warn_incomplete ''stream was closed before a costed terminal usage event'' rc"
        using run tr True by (auto simp: on_chunk_def is_closed_def Let_def bind_eq_Some_conv)
      moreover have "ends_error J m sent"
        using None last(2) sent by (auto simp: ends_error_def)
      ultimately show ?thesis by (auto simp: unbilled_def)
    next
      case (Some costed)
      then have "recorded ?g costed (tk_recorded t) rc rc'"
        using run tr True gen
        by (intro record_at_recorded) (auto simp: on_chunk_def is_closed_def Let_def bind_eq_Some_conv)
      moreover have "ends_done sent"
        using Some last(2) done_frame_ends [of "last frames" "concat (butlast frames)"] by (simp flip: sent)
      moreover have "carries D J m frames (ut_costed_usage st) (Some costed)" using charge True Some by simp
      ultimately show ?thesis
        unfolding billed_def using same_generation_observed by blast
    qed
    ultimately show thesis using shut frames(1) public by blast
  qed
qed

lemma on_end_cases:
  assumes run: "on_end J st (Some g) rc t = Some (rc', sent)" and "serving m st"
  shows "sent \<noteq> [] \<and> (\<exists>frames tail. sent = concat frames @ tail \<and> (\<forall>frame \<in> set frames. public_frame J m frame) \<and>
    end_marker tail \<and>
    (billed D J m (ut_costed_usage st) frames g rc rc' \<and> ends_done sent \<or> unbilled rc rc' \<and> ends_error J m sent))"
proof -
  note st = assms(2) [unfolded serving_def]
  let ?g = "observe_processing (tk_elapsed t) g"
  obtain completed where fin: "finish J st = Some (sent, completed)"
    using run by (auto simp: on_end_def bind_eq_Some_conv Let_def split: prod.splits)
  have "ut_response_model st = Some m" "\<not> ut_closed st" using st by simp_all
  from finish_public [OF fin this] st consider
    (error) "completed = None" "error_frame J m sent"
    | (stop) data_prefix newline where "data_prefix \<in> data_prefixes" "newline \<in> {[], [LF], [CR, LF]}"
      "sent = data_prefix @ ''[DONE]'' @ newline" "completed \<noteq> None" "completed = ut_costed_usage st"
    by (elim disjE conjE bexE) simp_all
  then show ?thesis
  proof cases
    case error
    have "ends_error J m sent"
      unfolding ends_error_def using error(2) by (intro exI [of _ "[]"] exI [of _ sent]) simp
    moreover have "unbilled rc rc'"
      using run fin error(1) by (auto simp: on_end_def unbilled_def)
    ultimately show ?thesis
      using error(2) error_frame_nonempty [OF error(2)]
      by (intro conjI exI [of _ "[sent]"] exI [of _ "[]"]) (simp_all add: public_frame_def end_marker_def)
  next
    case stop
    have "ends_done sent"
      unfolding ends_done_def using stop(2,3) by blast
    moreover from stop(4) obtain costed where "completed = Some costed" by blast
    then have "recorded ?g costed (tk_recorded t) rc rc'"
      using run fin by (intro record_at_recorded) (auto simp: on_end_def bind_eq_Some_conv)
    moreover have "carries D J m [] (ut_costed_usage st) (Some costed)"
      using stop(5) \<open>completed = Some costed\<close> by simp
    ultimately have "billed D J m (ut_costed_usage st) [] g rc rc'"
      unfolding billed_def using same_generation_processing by blast
    moreover have "end_marker sent" unfolding end_marker_def using stop(1-3) by blast
    moreover have "sent \<noteq> []" using stop(3) by simp
    ultimately show ?thesis
      using \<open>ends_done sent\<close> by (intro conjI exI [of _ "[]"] exI [of _ sent]) simp_all
  qed
qed

lemma delivered_simps [simp]:
  "delivered [] = []" "delivered (Ok b # items) = b @ delivered items" "delivered (Err e # items) = delivered items"
  by (simp_all add: delivered_def)

definition all_delivered :: "(bytes, 'e) result list \<Rightarrow> bool" where
  "all_delivered items \<longleftrightarrow> list_all is_ok items"

lemma response_stream_outcome:
  assumes "response_stream D J (Some st) (Some g) rc polls last_tick = Some (items, rc')" and "serving m st"
  shows "\<exists>frames tail. delivered items = concat frames @ tail \<and> (\<forall>frame \<in> set frames. public_frame J m frame) \<and>
    end_marker tail \<and>
    (billed D J m (ut_costed_usage st) frames g rc rc' \<and> all_delivered items \<and> ends_done (delivered items) \<or>
     unbilled rc rc' \<and>
       (all_delivered items \<and> ends_error J m (delivered items) \<or>
        (\<exists>e. items \<noteq> [] \<and> last items = Err e)))"
  using assms
proof (induction polls arbitrary: st g rc items)
  case Nil
  then obtain sent where run: "on_end J st (Some g) rc last_tick = Some (rc', sent)"
    and items: "items = (if sent = [] then [] else [Ok sent])"
    by (auto simp: bind_eq_Some_conv)
  from on_end_cases [OF run Nil.prems(2), of D] obtain frames tail where "sent \<noteq> []" "sent = concat frames @ tail"
    "\<forall>frame \<in> set frames. public_frame J m frame" "end_marker tail"
    "billed D J m (ut_costed_usage st) frames g rc rc' \<and> ends_done sent \<or> unbilled rc rc' \<and> ends_error J m sent"
    by blast
  moreover from this(1) have "delivered items = sent" "all_delivered items" by (simp_all add: items all_delivered_def)
  ultimately show ?case by (intro exI [of _ frames] exI [of _ tail]) auto
next
  case (Cons poll polls)
  show ?case
  proof (cases poll)
    case (Broken e)
    with Cons.prems(1) have "items = [Err e]" "rc' = warn_incomplete ''upstream stream returned an error'' rc"
      by simp_all
    then show ?thesis by (intro exI [of _ "[]"] exI [of _ "[]"]) (auto simp: unbilled_def end_marker_def)
  next
    case (Chunk chunk t)
    obtain tr' gen' rc1 sent where run: "on_chunk D J st (Some g) rc chunk t = Some (tr', gen', rc1, sent)"
      using Cons.prems(1) Chunk by (auto simp: bind_eq_Some_conv)
    from run Cons.prems(2) show ?thesis
    proof (cases rule: on_chunk_cases)
      case (open_stream st' g' frames)
      then obtain items' where rest: "response_stream D J (Some st') (Some g') rc polls last_tick = Some (items', rc')"
        and items: "items = (if sent = [] then items' else Ok sent # items')"
        using Cons.prems(1) Chunk run open_stream(1-3) that
        by (cases "sent = []") (auto simp add: bind_eq_Some_conv simp del: concat_eq_Nil_conv)
      have d: "delivered items = sent @ delivered items'" and all: "all_delivered items = all_delivered items'"
        and last: "items' \<noteq> [] \<Longrightarrow> last items = last items'" "items' \<noteq> [] \<Longrightarrow> items \<noteq> []"
        by (auto simp: items all_delivered_def)
      from Cons.IH [OF rest open_stream(5)] obtain frames' tail where
        bytes: "delivered items' = concat frames' @ tail" "\<forall>frame \<in> set frames'. public_frame J m frame" "end_marker tail"
        and ends: "billed D J m (ut_costed_usage st') frames' g' rc rc' \<and> all_delivered items' \<and> ends_done (delivered items') \<or>
         unbilled rc rc' \<and> (all_delivered items' \<and> ends_error J m (delivered items') \<or>
           (\<exists>e. items' \<noteq> [] \<and> last items' = Err e))" by blast
      have "delivered items = concat (frames @ frames') @ tail" using d open_stream(6) bytes(1) by simp
      moreover have "\<forall>frame \<in> set (frames @ frames'). public_frame J m frame" using open_stream(7) bytes(2) by auto
      moreover have "billed D J m (ut_costed_usage st) (frames @ frames') g rc rc' \<and> all_delivered items \<and>
            ends_done (delivered items) \<or>
          unbilled rc rc' \<and> (all_delivered items \<and> ends_error J m (delivered items) \<or>
            (\<exists>e. items \<noteq> [] \<and> last items = Err e))"
        using ends billed_later [OF open_stream(4,8)] ends_append d all last by metis
      ultimately show ?thesis using bytes(3) by blast
    next
      case (shut frames)
      then have "items = [Ok sent]" "rc' = rc1"
        using Cons.prems(1) Chunk run shut(1,2) by (auto simp del: concat_eq_Nil_conv)
      with shut show ?thesis
        by (intro exI [of _ frames] exI [of _ "[]"]) (auto simp: all_delivered_def end_marker_def)
    qed
  qed
qed

text \<open>What the client of a fresh stream is shown is what is billed.\<close>

lemma billed_fresh:
  assumes "billed D J m None frames g rc rc'"
  shows "\<exists>g' costed now. same_generation g g' \<and> charge_shown D J m frames costed \<and> recorded g' costed now rc rc'"
proof -
  obtain g' costed now where "same_generation g g'" "carries D J m frames None (Some costed)" "recorded g' costed now rc rc'"
    using assms unfolding billed_def by blast
  moreover from this(2) have "charge_shown D J m frames costed"
    unfolding carries_def by (auto simp: is_none_or_def dest: spec [of _ "[]"])
  ultimately show ?thesis by blast
qed

lemma serving_new:
  "serving model (with_response_model (with_provider_cost_policy (transformer_new prices) policy) model)"
  by (simp add: serving_def with_response_model_def with_provider_cost_policy_def transformer_new_def settled_def
      framed_def next_event_end_def find_subslice.simps starts_with_def)

lemma fresh_uncharged [simp]:
  "ut_costed_usage (with_response_model (with_provider_cost_policy (transformer_new prices) policy) model) = None"
  by (simp add: with_response_model_def with_provider_cost_policy_def transformer_new_def)

text \<open>C4: A streamed generation is either billed or visibly failed, and never twice. Whatever the
  upstream sends, however it is cut and wherever it breaks off, the client receives only public
  frames. Either it received everything up to the end marker; then the last of its events with a
  usage shows a charge, and the generation is recorded with exactly that: one ledger write is
  added, with the id, the token counts and the cost of that event and the generation's own
  profile, provider, model and status (only when a token count exceeds 63 bits a reason is logged
  in its place). Or no write is added, one reason is logged, and the stream ends in the generic
  error event or in the transport error itself.\<close>

theorem streamed_generation_billed_or_failed:
  assumes "stream_with_response_transformer D J polls last_tick
      (with_response_model (with_provider_cost_policy (transformer_new prices) policy) model) (Some g) rc
    = Some (items, rc')"
  shows "\<exists>frames tail. delivered items = concat frames @ tail \<and>
    (\<forall>frame \<in> set frames. public_frame J model frame) \<and> end_marker tail \<and>
    ((\<exists>g' costed now. same_generation g g' \<and> charge_shown D J model frames costed \<and>
        cu_response_id costed \<noteq> None \<and> recorded g' costed now rc rc') \<and>
       all_delivered items \<and> ends_done (delivered items) \<or>
     (\<exists>reason. rc' = rc\<lparr>rc_omitted := rc_omitted rc @ [reason]\<rparr>) \<and>
       (all_delivered items \<and> ends_error J model (delivered items) \<or>
        (\<exists>e. items \<noteq> [] \<and> last items = Err e)))"
proof -
  from response_stream_outcome [OF assms [unfolded stream_with_response_transformer_def] serving_new]
  obtain frames tail where public: "delivered items = concat frames @ tail"
    "\<forall>frame \<in> set frames. public_frame J model frame" "end_marker tail"
    and ends: "billed D J model None frames g rc rc' \<and> all_delivered items \<and> ends_done (delivered items) \<or>
      unbilled rc rc' \<and> (all_delivered items \<and> ends_error J model (delivered items) \<or>
        (\<exists>e. items \<noteq> [] \<and> last items = Err e))"
    unfolding fresh_uncharged by blast
  have "\<exists>g' costed now. same_generation g g' \<and> charge_shown D J model frames costed \<and>
      cu_response_id costed \<noteq> None \<and> recorded g' costed now rc rc'"
    if "billed D J model None frames g rc rc'"
    using billed_fresh [OF that] charge_shown_id by blast
  with public ends show ?thesis
    unfolding unbilled_def warn_incomplete_def by blast
qed

definition empty_recorder :: "'d recorder" where
  "empty_recorder = \<lparr>rc_measurements = [], rc_writes = [], rc_segments = [], rc_omitted = []\<rparr>"

definition example_generation :: generation_context where
  "example_generation =
     generation_new ''m'' (ServedProvider ''a'') 200 (timing_streaming 0 1 2 Production) ''chat''"

theorem streamed_generation_billed_or_failed_witness:
  "\<exists>items rc'. stream_with_response_transformer bounded_decimal example_json
       [Chunk ''data: {}'' \<lparr>tk_observed = 3, tk_elapsed = 1, tk_recorded = 4\<rparr>, Broken ''reset'']
       \<lparr>tk_observed = 0, tk_elapsed = 0, tk_recorded = 0\<rparr>
       (with_response_model (with_provider_cost_policy (transformer_new (mapping_prices (example_mapping ''m'' 2 3)))
          UsageCostOnly) ''m'') (Some example_generation) empty_recorder = Some (items, rc') \<and>
     (\<exists>frames tail. delivered items = concat frames @ tail \<and>
        (\<forall>frame \<in> set frames. public_frame example_json ''m'' frame))"
proof -
  let ?run = "stream_with_response_transformer bounded_decimal example_json
       [Chunk ''data: {}'' \<lparr>tk_observed = 3, tk_elapsed = 1, tk_recorded = 4\<rparr>, Broken ''reset'']
       \<lparr>tk_observed = 0, tk_elapsed = 0, tk_recorded = 0\<rparr>
       (with_response_model (with_provider_cost_policy (transformer_new (mapping_prices (example_mapping ''m'' 2 3)))
          UsageCostOnly) ''m'') (Some example_generation) empty_recorder"
  have "next_event_end ''data: {}'' = None"
    by code_simp
  then have "?run \<noteq> None"
    by (simp add: stream_with_response_transformer_def on_chunk_def transform_def drain_events.simps
        with_response_model_def with_provider_cost_policy_def transformer_new_def is_closed_def Let_def)
  then obtain items rc' where run: "?run = Some (items, rc')" by auto
  from streamed_generation_billed_or_failed [OF run] run show ?thesis by blast
qed

end
