(* ===== verification/Proxy.thy ===== *)
theory Proxy
  imports Routing Generation
begin

text \<open>
  The completion proxy (\<open>src/proxy.rs\<close>): a request is routed, sent to the sidecar under the
  selected route and its fallbacks, and the answer is costed, sanitized and recorded. The
  sidecar is an argument: what its \<open>n\<close>-th attempt answers, with the readings of the clock. The
  router's mutable state (traffic shares, generator, measurements, spawned ledger writes) is
  passed and returned, with the list of requests that went out. \<open>None\<close> is a panic.
\<close>

section \<open>Configuration\<close>

definition CHAT_COMPLETIONS_PATH :: string where "CHAT_COMPLETIONS_PATH = ''v1/chat/completions''"
definition LEGACY_COMPLETIONS_PATH :: string where "LEGACY_COMPLETIONS_PATH = ''v1/completions''"
definition GENERATION_ID_HEADER :: string where "GENERATION_ID_HEADER = ''x-generation-id''"

record ('d, 'u) proxy_state =
  px_chat_completions_url :: 'u
  px_legacy_completions_url :: 'u
  px_price_table :: "'d price_table"
  px_routing :: "'d routing_policy"
  px_public_provider_aliases :: "string set"

datatype proxy_config_error = InvalidSidecarUrl | InvalidRouting routing_policy_error

definition public_provider_aliases :: "'d registry \<Rightarrow> string set" where
  "public_provider_aliases r =
     set (map p_id (filter (\<lambda>p. is_some (p_public_display_name p) \<and> is_some (p_public_tag p)) (r_providers r)))"

definition proxy_new ::
  "'d decimal_ops \<Rightarrow> 'u url_ops \<Rightarrow> ('u \<Rightarrow> string \<Rightarrow> 'u option) \<Rightarrow> string \<Rightarrow> 'd price_table \<Rightarrow> 'd registry \<Rightarrow>
   'd routing_config \<Rightarrow> 'r \<Rightarrow> (('d, 'u) proxy_state \<times> 'r routing_state, proxy_config_error) result panics" where
  "proxy_new D U join sidecar price_table r config rng =
     (case url_parse U (trim_end_matches (CHR ''/'') sidecar @ ''/'') of
        None \<Rightarrow> Some (Err InvalidSidecarUrl)
      | Some base_url \<Rightarrow>
          if url_scheme U base_url \<notin> {''http'', ''https''} \<or> url_username U base_url \<noteq> [] \<or>
             is_some (url_password U base_url) \<or> is_some (url_query U base_url) \<or>
             is_some (url_fragment U base_url)
          then Some (Err InvalidSidecarUrl)
          else case routing_from_registry D r config rng of
              Err e \<Rightarrow> Some (Err (InvalidRouting e))
            | Ok (routes, st) \<Rightarrow>
                do { chat \<leftarrow> join base_url CHAT_COMPLETIONS_PATH;
                     legacy \<leftarrow> join base_url LEGACY_COMPLETIONS_PATH;
                     Some (Ok (\<lparr>px_chat_completions_url = chat, px_legacy_completions_url = legacy,
                                px_price_table = price_table, px_routing = routes,
                                px_public_provider_aliases = public_provider_aliases r\<rparr>, st)) })"

definition response_uses_public_alias :: "string set \<Rightarrow> served_provider option \<Rightarrow> string \<Rightarrow> bool" where
  "response_uses_public_alias aliases served selected_provider \<longleftrightarrow>
     selected_provider \<in> aliases \<or> is_some_and (\<lambda>s. provider_str s \<in> aliases) served"

fun endpoint_label :: "completion_endpoint \<Rightarrow> string" where
  "endpoint_label Chat = ''chat''"
| "endpoint_label Legacy = ''legacy''"

definition endpoint_url :: "('d, 'u) proxy_state \<Rightarrow> completion_endpoint \<Rightarrow> 'u" where
  "endpoint_url proxy endpoint =
     (case endpoint of Chat \<Rightarrow> px_chat_completions_url proxy | Legacy \<Rightarrow> px_legacy_completions_url proxy)"

lemma proxy_new_Ok:
  assumes "proxy_new D U join address table r config rng = Some (Ok (proxy, st0))"
  shows "routing_from_registry D r config rng = Ok (px_routing proxy, st0)" "px_price_table proxy = table"
  using assms
  by (auto simp: proxy_new_def Let_def bind_eq_Some_conv split: option.splits if_splits result.splits)

section \<open>Attempts\<close>

record 'u upstream_request =
  ur_url :: 'u
  ur_content_type :: string
  ur_body :: bytes

record 'e upstream_response =
  us_status :: nat
  us_headers :: headers
  us_items :: "'e upstream_item list"
  us_last_tick :: tick
  us_attempt_started_at :: instant
  us_headers_received_at :: instant

type_synonym ('u, 'e) sidecar = "nat \<Rightarrow> 'u upstream_request \<Rightarrow> ('e upstream_response, 'e) result"

definition upstream_request_of :: "'u \<Rightarrow> bytes \<Rightarrow> 'u upstream_request" where
  "upstream_request_of url b = \<lparr>ur_url = url, ur_content_type = ''application/json'', ur_body = b\<rparr>"

definition send_attempt ::
  "('u, 'e) sidecar \<Rightarrow> nat \<Rightarrow> 'u \<Rightarrow> bytes \<Rightarrow> ('e upstream_response, 'e) result" where
  "send_attempt sidecar n url b = sidecar n (upstream_request_of url b)"

definition retryable_status :: "nat \<Rightarrow> bool" where
  "retryable_status status \<longleftrightarrow> status = 429 \<or> is_server_error status"

definition should_fallback :: "('e upstream_response, 'e) result \<Rightarrow> bool" where
  "should_fallback upstream =
     (case upstream of Ok u \<Rightarrow> retryable_status (us_status u) | Err _ \<Rightarrow> True)"

text \<open>The loop over the planned fallbacks, after attempt \<open>n\<close> answered \<open>upstream\<close>.\<close>

fun send_fallbacks ::
  "json_ops \<Rightarrow> ('u, 'e) sidecar \<Rightarrow> 'u \<Rightarrow> nat \<Rightarrow> json \<Rightarrow> ('e upstream_response, 'e) result \<Rightarrow> string list \<Rightarrow>
   (('e upstream_response, 'e) result \<times> 'u upstream_request list) panics" where
  "send_fallbacks J sidecar url n request upstream [] = Some (upstream, [])"
| "send_fallbacks J sidecar url n request upstream (fallback_model # models) =
     (if \<not> should_fallback upstream then Some (upstream, [])
      else do { request' \<leftarrow> json_set ''model'' (JString fallback_model) request;
                fallback_body \<leftarrow> to_vec J request';
                (answer, requests) \<leftarrow> send_fallbacks J sidecar url (Suc n) request'
                   (send_attempt sidecar (Suc n) url fallback_body) models;
                Some (answer, upstream_request_of url fallback_body # requests) })"

definition send_selected_then_fallback ::
  "json_ops \<Rightarrow> ('u, 'e) sidecar \<Rightarrow> 'u \<Rightarrow> json \<Rightarrow> bytes \<Rightarrow> route_decision \<Rightarrow>
   (('e upstream_response, 'e) result \<times> 'u upstream_request list) panics" where
  "send_selected_then_fallback J sidecar url request selected_body decision =
     do { (answer, requests) \<leftarrow> send_fallbacks J sidecar url 0 request
             (send_attempt sidecar 0 url selected_body) (dec_fallback_models decision);
          Some (answer, upstream_request_of url selected_body # requests) }"

section \<open>Downstream responses\<close>

definition downstream_response ::
  "nat \<Rightarrow> bytes option \<Rightarrow> bytes option \<Rightarrow> body \<Rightarrow> served_provider option \<Rightarrow> response" where
  "downstream_response status content_type generation_id b served =
     \<lparr>resp_status = status, resp_content_type = content_type, resp_generation_id = generation_id,
      resp_body = b, resp_served = served\<rparr>"

definition sanitize_aliased_json_response ::
  "json_ops \<Rightarrow> bytes \<Rightarrow> string \<Rightarrow> (bytes, public_response_rejection) result" where
  "sanitize_aliased_json_response J b model =
     result_bind (ok_or RejectInvalidJson (from_slice J b)) (\<lambda>response.
     result_bind (sanitize_public_completion_value response model) (\<lambda>sanitized.
       ok_or RejectInvalidJson (to_vec J sanitized)))"

definition upstream_error_json :: "nat \<Rightarrow> string \<Rightarrow> json" where
  "upstream_error_json status model =
     JObject [(''error'', JObject [(''code'', JNumber (nat_text status)),
       (''message'', JString ''upstream request failed''),
       (''metadata'', JObject [(''model'', JString model)])])]"

definition aliased_upstream_error ::
  "json_ops \<Rightarrow> nat \<Rightarrow> string \<Rightarrow> served_provider option \<Rightarrow> response panics" where
  "aliased_upstream_error J status model served =
     do { b \<leftarrow> to_vec J (upstream_error_json status model);
          Some (downstream_response status (Some ''application/json'') None (RawBody b) served) }"

definition upstream_unavailable :: response where
  "upstream_unavailable = json_response 502 (error_message ''upstream unavailable'')"

definition invalid_json_request :: response where
  "invalid_json_request = json_response 400 (error_message ''request body must be valid JSON'')"

text \<open>What \<open>response.bytes_stream()\<close> forwards, and what \<open>response.bytes()\<close> collects.\<close>

fun forwarded_items :: "'e upstream_item list \<Rightarrow> (bytes, 'e) result list" where
  "forwarded_items [] = []"
| "forwarded_items (Chunk chunk _ # rest) = Ok chunk # forwarded_items rest"
| "forwarded_items (Broken e # _) = [Err e]"

definition stream_body :: "(bytes, 'e) result list \<Rightarrow> body" where
  "stream_body items =
     StreamBody (List.map_filter (\<lambda>i. case i of Ok b \<Rightarrow> Some b | Err _ \<Rightarrow> None) items)
       (\<not> all_delivered items)"

definition collected_body :: "'e upstream_item list \<Rightarrow> (bytes, 'e) result" where
  "collected_body items =
     (case find (\<lambda>i. \<not> is_ok i) (forwarded_items items) of
        Some (Err e) \<Rightarrow> Err e
      | _ \<Rightarrow> Ok (delivered (forwarded_items items)))"

definition is_event_stream :: "(bytes \<Rightarrow> string option) \<Rightarrow> bytes option \<Rightarrow> bool" where
  "is_event_stream to_str content_type \<longleftrightarrow>
     is_some_and (\<lambda>v. trim (takeWhile (\<lambda>c. c \<noteq> CHR '';'') v) = ''text/event-stream'')
       (Option.bind content_type to_str)"

section \<open>Serving a completion\<close>

record ('d, 'r) shared_state =
  sh_routing :: "'r routing_state"
  sh_recorder :: "'d recorder"

record clock =
  ck_request_started_at :: instant
  ck_response_completed_at :: instant
  ck_processing_elapsed :: duration

text \<open>A streamed answer of a successful upstream response (proxy.rs, the \<open>stream\<close> branch).\<close>

definition forward_stream ::
  "'d decimal_ops \<Rightarrow> json_ops \<Rightarrow> ('d, 'u) proxy_state \<Rightarrow> clock \<Rightarrow> routing_profile \<Rightarrow> completion_endpoint \<Rightarrow>
   route_decision \<Rightarrow> 'e upstream_response \<Rightarrow> served_provider \<Rightarrow> 'd recorder \<Rightarrow> ('d recorder \<times> response) panics" where
  "forward_stream D J proxy clk profile endpoint decision upstream served rc =
     (let model = dec_canonical_model decision in
      case prices_for_request model served (px_price_table proxy) of
        Err _ \<Rightarrow> do { answer \<leftarrow> aliased_upstream_error J 502 model (Some served); Some (rc, answer) }
      | Ok prices \<Rightarrow>
          do { let g = generation_new model served (us_status upstream)
                 (timing_streaming (ck_request_started_at clk) (us_attempt_started_at upstream)
                    (us_headers_received_at upstream) profile) (endpoint_label endpoint);
               (items, rc') \<leftarrow> stream_with_response_transformer D J (us_items upstream) (us_last_tick upstream)
                 (with_response_model (with_provider_cost_policy (transformer_new prices) (cost_policy served)) model)
                 (Some g) rc;
               Some (rc', downstream_response (us_status upstream) (us_headers upstream ''content-type'')
                 (us_headers upstream GENERATION_ID_HEADER) (stream_body items) (Some served)) })"

text \<open>A buffered answer: sanitized when the provider is aliased, then costed and recorded.\<close>

definition forward_buffered ::
  "'d decimal_ops \<Rightarrow> json_ops \<Rightarrow> ('d, 'u) proxy_state \<Rightarrow> clock \<Rightarrow> routing_profile \<Rightarrow> completion_endpoint \<Rightarrow>
   route_decision \<Rightarrow> 'e upstream_response \<Rightarrow> served_provider option \<Rightarrow> bool \<Rightarrow> 'd recorder \<Rightarrow>
   ('d recorder \<times> response) panics" where
  "forward_buffered D J proxy clk profile endpoint decision upstream served uses_alias rc =
     (let model = dec_canonical_model decision in
      case collected_body (us_items upstream) of
        Err _ \<Rightarrow> Some (rc, upstream_unavailable)
      | Ok upstream_body \<Rightarrow>
     (case (if uses_alias then sanitize_aliased_json_response J upstream_body model else Ok upstream_body) of
        Err _ \<Rightarrow> do { answer \<leftarrow> aliased_upstream_error J 502 model served; Some (rc, answer) }
      | Ok public_body \<Rightarrow>
          let content_type = (if uses_alias then Some ''application/json'' else us_headers upstream ''content-type'');
              answer_with = (\<lambda>b. downstream_response (us_status upstream) content_type
                (us_headers upstream GENERATION_ID_HEADER) (RawBody b) served)
          in case served of
               None \<Rightarrow> Some (rc, answer_with public_body)
             | Some provider \<Rightarrow>
                 do { costed \<leftarrow> inject_usage_cost D J public_body model provider (px_price_table proxy);
                      case costed of
                        Err _ \<Rightarrow> do { answer \<leftarrow> aliased_upstream_error J 502 model served; Some (rc, answer) }
                      | Ok costed_body \<Rightarrow>
                          do { rc' \<leftarrow> record_at
                                 (generation_new model provider (us_status upstream)
                                    (timing_non_streaming (ck_request_started_at clk) (us_attempt_started_at upstream)
                                       (us_headers_received_at upstream) (ck_processing_elapsed clk) profile)
                                    (endpoint_label endpoint))
                                 (cr_usage costed_body) (ck_response_completed_at clk) rc;
                               Some (rc', answer_with (cr_body costed_body)) } }))"

text \<open>What becomes of the response of the last attempt.\<close>

definition forward_response ::
  "'d decimal_ops \<Rightarrow> json_ops \<Rightarrow> (bytes \<Rightarrow> string option) \<Rightarrow> ('d, 'u) proxy_state \<Rightarrow> clock \<Rightarrow> routing_profile \<Rightarrow>
   completion_endpoint \<Rightarrow> bool \<Rightarrow> route_decision \<Rightarrow> 'e upstream_response \<Rightarrow> 'd recorder \<Rightarrow>
   ('d recorder \<times> response) panics" where
  "forward_response D J to_str proxy clk profile endpoint stream decision upstream rc =
     (let status = us_status upstream;
          content_type = us_headers upstream ''content-type'';
          served = from_headers to_str (us_headers upstream);
          uses_alias = response_uses_public_alias (px_public_provider_aliases proxy) served
            (dec_selected_provider decision)
      in case (is_success status, served) of
           (True, None) \<Rightarrow>
             do { answer \<leftarrow> aliased_upstream_error J 502 (dec_canonical_model decision) None; Some (rc, answer) }
         | (False, _) \<Rightarrow>
             if uses_alias
             then do { answer \<leftarrow> aliased_upstream_error J status (dec_canonical_model decision) served;
                       Some (rc, answer) }
             else Some (rc, downstream_response status content_type (us_headers upstream GENERATION_ID_HEADER)
                    (stream_body (forwarded_items (us_items upstream))) served)
         | (True, Some provider) \<Rightarrow>
             if stream \<and> is_event_stream to_str content_type
             then forward_stream D J proxy clk profile endpoint decision upstream provider rc
             else forward_buffered D J proxy clk profile endpoint decision upstream served uses_alias rc)"

definition forward ::
  "'d decimal_ops \<Rightarrow> 'r rand_ops \<Rightarrow> json_ops \<Rightarrow> (bytes \<Rightarrow> string option) \<Rightarrow> ('d, 'u) proxy_state \<Rightarrow>
   ('u, 'e) sidecar \<Rightarrow> clock \<Rightarrow> ('d, 'r) shared_state \<Rightarrow> routing_profile \<Rightarrow> completion_endpoint \<Rightarrow> bytes \<Rightarrow>
   (('d, 'r) shared_state \<times> 'u upstream_request list \<times> response) panics" where
  "forward D R J to_str proxy sidecar clk sh profile endpoint body =
     (case from_slice J body of
        None \<Rightarrow> Some (sh, [], invalid_json_request)
      | Some request \<Rightarrow>
          do { let stream = unwrap_or False (Option.bind (json_get ''stream'' request) as_bool);
               (routing', request', decided) \<leftarrow> route_for_endpoint D R (px_routing proxy)
                 (rc_measurements (sh_recorder sh)) (sh_routing sh) profile endpoint request;
               let sh1 = sh\<lparr>sh_routing := routing'\<rparr>;
               case decided of
                 Err e \<Rightarrow> Some (sh1, [], route_error_response e)
               | Ok decision \<Rightarrow>
                   do { selected_body \<leftarrow> to_vec J request';
                        (upstream, requests) \<leftarrow> send_selected_then_fallback J sidecar (endpoint_url proxy endpoint)
                          request' selected_body decision;
                        case upstream of
                          Err _ \<Rightarrow> Some (sh1, requests, upstream_unavailable)
                        | Ok response \<Rightarrow>
                            do { (rc', answer) \<leftarrow> forward_response D J to_str proxy clk profile endpoint stream
                                   decision response (sh_recorder sh1);
                                 Some (sh1\<lparr>sh_recorder := rc'\<rparr>, requests, answer) } } })"

definition chat_completions ::
  "'d decimal_ops \<Rightarrow> 'r rand_ops \<Rightarrow> json_ops \<Rightarrow> (bytes \<Rightarrow> string option) \<Rightarrow> ('d, 'u) proxy_state \<Rightarrow>
   ('u, 'e) sidecar \<Rightarrow> clock \<Rightarrow> ('d, 'r) shared_state \<Rightarrow> routing_profile \<Rightarrow> bytes \<Rightarrow>
   (('d, 'r) shared_state \<times> 'u upstream_request list \<times> response) panics" where
  "chat_completions D R J to_str proxy sidecar clk sh profile body =
     forward D R J to_str proxy sidecar clk sh profile Chat body"

definition legacy_completions ::
  "'d decimal_ops \<Rightarrow> 'r rand_ops \<Rightarrow> json_ops \<Rightarrow> (bytes \<Rightarrow> string option) \<Rightarrow> ('d, 'u) proxy_state \<Rightarrow>
   ('u, 'e) sidecar \<Rightarrow> clock \<Rightarrow> ('d, 'r) shared_state \<Rightarrow> routing_profile \<Rightarrow> bytes \<Rightarrow>
   (('d, 'r) shared_state \<times> 'u upstream_request list \<times> response) panics" where
  "legacy_completions D R J to_str proxy sidecar clk sh profile body =
     forward D R J to_str proxy sidecar clk sh profile Legacy body"

section \<open>Failover\<close>

lemma json_set_model:
  assumes "json_set ''model'' v request = Some request'"
  shows "json_get ''model'' request' = Some v"
    and "k \<noteq> ''model'' \<Longrightarrow> json_get k request' = json_get k request"
  using assms by (cases request, simp_all add: bm_get_insert bm_get_single,
      auto simp: bm_get_insert bm_get_single)+

text \<open>The requests sent after attempt \<open>n\<close> answered: the \<open>i\<close>-th further one carries the \<open>i\<close>-th
  fallback model and is otherwise the client's request.\<close>

definition renders_fallback :: "json_ops \<Rightarrow> 'u \<Rightarrow> json \<Rightarrow> string \<Rightarrow> 'u upstream_request \<Rightarrow> bool" where
  "renders_fallback J url request fallback_model sent \<longleftrightarrow>
     (\<exists>request' b. sent = upstream_request_of url b \<and> to_vec J request' = Some b \<and>
        json_get ''model'' request' = Some (JString fallback_model) \<and>
        (\<forall>k. k \<noteq> ''model'' \<longrightarrow> json_get k request' = json_get k request))"

lemma renders_fallback_cong:
  "(\<And>k. k \<noteq> ''model'' \<Longrightarrow> json_get k request' = json_get k request) \<Longrightarrow>
   renders_fallback J url request' fb sent \<Longrightarrow> renders_fallback J url request fb sent"
  unfolding renders_fallback_def by metis

lemma send_fallbacks_plan:
  assumes "send_fallbacks J sidecar url n request upstream models = Some (answer, requests)"
  shows "length requests \<le> length models \<and>
    (\<forall>i < length requests. renders_fallback J url request (models ! i) (requests ! i) \<and>
       should_fallback (if i = 0 then upstream else sidecar (n + i) (requests ! (i - 1)))) \<and>
    answer = (if requests = [] then upstream else sidecar (n + length requests) (last requests)) \<and>
    (length requests < length models \<longrightarrow> \<not> should_fallback answer)"
  using assms
proof (induction J sidecar url n request upstream models arbitrary: requests rule: send_fallbacks.induct)
  case (1 J sidecar url n request upstream)
  then show ?case by simp
next
  case (2 J sidecar url n request upstream fb models)
  show ?case
  proof (cases "should_fallback upstream")
    case False
    with "2.prems" show ?thesis by simp
  next
    case True
    then obtain request' b rest where set: "json_set ''model'' (JString fb) request = Some request'"
      and b: "to_vec J request' = Some b"
      and rest: "send_fallbacks J sidecar url (Suc n) request' (send_attempt sidecar (Suc n) url b) models = Some (answer, rest)"
      and requests: "requests = upstream_request_of url b # rest"
      using "2.prems" by (auto simp: bind_eq_Some_conv)
    note IH = "2.IH" [OF _ set b rest]
    have first: "renders_fallback J url request fb (upstream_request_of url b)"
      unfolding renders_fallback_def using b json_set_model [OF set] by blast
    have later: "renders_fallback J url request (models ! i) (rest ! i)" if "i < length rest" for i
      using IH that True by (auto intro: renders_fallback_cong [OF json_set_model(2) [OF set]])
    have retried: "should_fallback (sidecar (Suc n + i) ((upstream_request_of url b # rest) ! i))"
      if "i < length rest" for i
      using IH that True by (cases i) (auto simp: send_attempt_def split: if_splits)
    show ?thesis
      unfolding requests using IH True first later retried
      by (auto simp: nth_Cons send_attempt_def split: nat.splits)
  qed
qed

text \<open>An attempt fails when the sidecar cannot be reached or answers 429 or a server error.\<close>

definition attempt_failed :: "('e upstream_response, 'e) result \<Rightarrow> bool" where
  "attempt_failed answer \<longleftrightarrow>
     (case answer of
        Err _ \<Rightarrow> True
      | Ok u \<Rightarrow> us_status u = 429 \<or> 500 \<le> us_status u \<and> us_status u < 600)"

lemma should_fallback_failed: "should_fallback answer \<longleftrightarrow> attempt_failed answer"
  by (auto simp: should_fallback_def retryable_status_def is_server_error_def attempt_failed_def split: result.split)

text \<open>C16: Failover follows the plan. The first request is the selected route's. There is a retry
  exactly when that attempt failed (a transport error, a 429 or a 5xx answer) and the plan has a
  fallback, and it carries the first planned one. Every further request follows a failed attempt
  as well and carries the next planned fallback, each once; a request differs from the client's in
  the model only, and the answer used is the one to the last request sent. (The code retries
  through all planned fallbacks, its documentation speaks of one retry; what follows a failed
  retry is left open but for this.)\<close>

theorem failover_follows_plan:
  assumes "send_selected_then_fallback J sidecar url request selected_body decision = Some (answer, requests)"
  shows "requests \<noteq> [] \<and> hd requests = upstream_request_of url selected_body \<and>
    (1 < length requests \<longleftrightarrow> dec_fallback_models decision \<noteq> [] \<and> attempt_failed (sidecar 0 (hd requests))) \<and>
    length requests \<le> Suc (length (dec_fallback_models decision)) \<and>
    (\<forall>i. Suc i < length requests \<longrightarrow>
       renders_fallback J url request (dec_fallback_models decision ! i) (requests ! Suc i) \<and>
       attempt_failed (sidecar i (requests ! i))) \<and>
    answer = sidecar (length requests - 1) (last requests)"
proof -
  from assms obtain rest where
    rest: "send_fallbacks J sidecar url 0 request (send_attempt sidecar 0 url selected_body)
        (dec_fallback_models decision) = Some (answer, rest)"
    and requests: "requests = upstream_request_of url selected_body # rest"
    by (auto simp: send_selected_then_fallback_def bind_eq_Some_conv)
  note plan = send_fallbacks_plan [OF rest]
  have failed: "attempt_failed (sidecar i (requests ! i))" if "i < length rest" for i
    using plan that unfolding requests
    by (cases i) (auto simp: send_attempt_def should_fallback_failed split: if_splits)
  have "rest \<noteq> [] \<longleftrightarrow> dec_fallback_models decision \<noteq> [] \<and> attempt_failed (sidecar 0 (hd requests))"
    using plan failed [of 0] unfolding requests
    by (cases "rest = []") (auto simp: send_attempt_def should_fallback_failed)
  then show ?thesis
    using plan failed unfolding requests by (auto simp: send_attempt_def)
qed

definition example_decision_plan :: route_decision where
  "example_decision_plan =
     \<lparr>dec_profile = Production, dec_canonical_model = ''m'', dec_selected_provider = ''a'',
      dec_fallback_models = [''b/m''], dec_has_alternatives = True\<rparr>"

theorem failover_follows_plan_witness:
  "\<exists>answer requests. send_selected_then_fallback example_json (\<lambda>n _. Err n) ''url'' (JObject []) ''{}'' example_decision_plan
     = Some (answer, requests) \<and> answer = (Err 1 :: (nat upstream_response, nat) result) \<and> length requests = 2"
proof -
  have "send_selected_then_fallback example_json (\<lambda>n _. Err n) ''url'' (JObject []) ''{}'' example_decision_plan
      = Some (Err 1 :: (nat upstream_response, nat) result,
          [upstream_request_of ''url'' ''{}'', upstream_request_of ''url'' ''{}''])"
    by (simp add: send_selected_then_fallback_def example_decision_plan_def send_attempt_def should_fallback_def
        example_json_def)
  from failover_follows_plan [OF this] this show ?thesis by simp
qed

section \<open>Success is billed, failure is free\<close>

lemma inject_usage_cost_Ok:
  assumes "inject_usage_cost D J b model served table = Some (Ok r)"
  obtains response prices v where "from_slice J b = Some response"
    "prices_for_request model served table = Ok prices"
    "inject_usage_cost_value_with_policy D J (fst (strip_provider_specific_fields response)) prices
       (cost_policy served) = Some (Ok (v, cr_usage r))"
    "to_vec J v = Some (cr_body r)"
  using assms
  by (auto simp: inject_usage_cost_def Let_def bind_eq_Some_conv result_bind_Ok split: option.splits result.splits)

text \<open>The client sees the recorded charge: in the body, or in the last usage of a stream that reached
  its end marker.\<close>

definition shows_cost :: "'d decimal_ops \<Rightarrow> json_ops \<Rightarrow> string \<Rightarrow> 'd costed_usage \<Rightarrow> body \<Rightarrow> bool" where
  "shows_cost D J model costed b \<longleftrightarrow>
     (case b of
        RawBody raw \<Rightarrow> (\<exists>v. to_vec J v = Some raw \<and> shows_charge D J costed v)
      | StreamBody chunks broken \<Rightarrow> \<not> broken \<and> ends_done (concat chunks) \<and>
          (\<exists>frames tail. concat chunks = concat frames @ tail \<and> end_marker tail \<and>
             (\<forall>frame \<in> set frames. public_frame J model frame) \<and> charge_shown D J model frames costed)
      | JsonBody _ \<Rightarrow> False)"

definition visibly_failed :: "json_ops \<Rightarrow> string \<Rightarrow> body \<Rightarrow> bool" where
  "visibly_failed J model b \<longleftrightarrow>
     (\<exists>chunks broken. b = StreamBody chunks broken \<and> (broken \<or> ends_error J model (concat chunks)))"

lemma stream_body_delivered:
  "stream_body items = StreamBody chunks broken \<Longrightarrow> concat chunks = delivered items \<and> broken = (\<not> all_delivered items)"
proof -
  have "concat (List.map_filter (\<lambda>i. case i of Ok b \<Rightarrow> Some b | Err _ \<Rightarrow> None) items) = delivered items"
    by (induction items) (auto simp: List.map_filter_simps split: result.splits)
  then show "stream_body items = StreamBody chunks broken \<Longrightarrow> concat chunks = delivered items \<and> broken = (\<not> all_delivered items)"
    by (auto simp: stream_body_def)
qed

lemma aliased_upstream_error_response:
  "aliased_upstream_error J status model served = Some answer \<Longrightarrow>
   resp_status answer = status \<and> resp_served answer = served \<and>
   (\<exists>b. to_vec J (upstream_error_json status model) = Some b \<and> resp_body answer = RawBody b)"
  by (auto simp: aliased_upstream_error_def downstream_response_def bind_eq_Some_conv)

text \<open>A served answer: of which generation, and what became of it.\<close>

definition accounted ::
  "'d decimal_ops \<Rightarrow> json_ops \<Rightarrow> routing_profile \<Rightarrow> string \<Rightarrow> 'd recorder \<Rightarrow> 'd recorder \<Rightarrow> response \<Rightarrow> bool" where
  "accounted D J profile model rc rc' answer \<longleftrightarrow>
     (if is_success (resp_status answer)
      then \<exists>provider. resp_served answer = Some provider \<and>
        ((\<exists>g costed now. gx_profile g = profile \<and> gx_provider_id g = provider_str provider \<and>
            gx_canonical_slug g = model \<and> gx_status g = resp_status answer \<and>
            recorded g costed now rc rc' \<and> shows_cost D J model costed (resp_body answer)) \<or>
         (\<exists>reason. rc' = rc\<lparr>rc_omitted := rc_omitted rc @ [reason]\<rparr>) \<and>
           visibly_failed J model (resp_body answer))
      else rc' = rc)"

text \<open>A stream that ended either way is accounted for.\<close>

lemma stream_accounted:
  assumes g: "gx_profile g = profile" "gx_provider_id g = provider_str served" "gx_canonical_slug g = m"
      "gx_status g = resp_status answer"
    and bytes: "delivered items = concat frames @ tail" "\<forall>frame \<in> set frames. public_frame J m frame" "end_marker tail"
    and outcome: "billed D J m None frames g rc rc' \<and> all_delivered items \<and> ends_done (delivered items) \<or>
      unbilled rc rc' \<and> (all_delivered items \<and> ends_error J m (delivered items) \<or>
        (\<exists>e. items \<noteq> [] \<and> last items = Err e))"
    and answer: "resp_served answer = Some served" "resp_body answer = stream_body items" "is_success (resp_status answer)"
  shows "accounted D J profile m rc rc' answer"
proof -
  obtain chunks broken where body: "stream_body items = StreamBody chunks broken"
    by (simp add: stream_body_def)
  note shown = stream_body_delivered [OF body]
  from outcome consider (billed) "billed D J m None frames g rc rc'" "all_delivered items" "ends_done (delivered items)"
    | (failed) "unbilled rc rc'" "all_delivered items \<and> ends_error J m (delivered items) \<or>
        (\<exists>e. items \<noteq> [] \<and> last items = Err e)"
    by blast
  then show ?thesis
  proof cases
    case billed
    from billed_fresh [OF billed(1)] obtain g' costed now where same: "same_generation g g'"
      and charge: "charge_shown D J m frames costed" "recorded g' costed now rc rc'"
      by blast
    have "gx_profile g' = profile \<and> gx_provider_id g' = provider_str served \<and> gx_canonical_slug g' = m \<and>
        gx_status g' = resp_status answer"
      using same g by (cases g; cases g') (simp add: same_generation_def)
    moreover have "shows_cost D J m costed (resp_body answer)"
      unfolding shows_cost_def answer(2) body using shown billed(2,3) bytes charge(1) by auto
    ultimately show ?thesis
      unfolding accounted_def using answer(1,3) charge(2) by auto
  next
    case failed
    have "broken" if "items \<noteq> []" "last items = Err e" for e
    proof -
      have "Err e \<in> set items" using that last_in_set [of items] by simp
      then have "\<not> all_delivered items" by (auto simp: all_delivered_def list_all_iff intro!: bexI [of _ "Err e"])
      then show ?thesis using shown by simp
    qed
    then have "visibly_failed J m (resp_body answer)"
      unfolding visibly_failed_def answer(2) body using failed(2) shown by auto
    then show ?thesis
      unfolding accounted_def using answer(1,3) failed(1) by (auto simp: unbilled_def warn_incomplete_def)
  qed
qed

lemma forward_stream_accounted:
  assumes "forward_stream D J proxy clk profile endpoint decision upstream served rc = Some (rc', answer)"
    and "is_success (us_status upstream)"
  shows "accounted D J profile (dec_canonical_model decision) rc rc' answer"
proof (cases "prices_for_request (dec_canonical_model decision) served (px_price_table proxy)")
  case (Err e)
  with assms(1) show ?thesis
    by (auto simp: forward_stream_def Let_def bind_eq_Some_conv accounted_def is_success_def
        dest!: aliased_upstream_error_response)
next
  case (Ok prices)
  let ?m = "dec_canonical_model decision"
  let ?g = "generation_new ?m served (us_status upstream)
      (timing_streaming (ck_request_started_at clk) (us_attempt_started_at upstream)
         (us_headers_received_at upstream) profile) (endpoint_label endpoint)"
  from assms(1) Ok obtain items where
    run: "stream_with_response_transformer D J (us_items upstream) (us_last_tick upstream)
        (with_response_model (with_provider_cost_policy (transformer_new prices) (cost_policy served)) ?m)
        (Some ?g) rc = Some (items, rc')"
    and answer: "answer = downstream_response (us_status upstream) (us_headers upstream ''content-type'')
        (us_headers upstream GENERATION_ID_HEADER) (stream_body items) (Some served)"
    by (auto simp: forward_stream_def Let_def bind_eq_Some_conv)
  from response_stream_outcome [OF run [unfolded stream_with_response_transformer_def] serving_new]
  obtain frames tail where bytes: "delivered items = concat frames @ tail"
      "\<forall>frame \<in> set frames. public_frame J ?m frame" "end_marker tail"
    and outcome: "billed D J ?m None frames ?g rc rc' \<and> all_delivered items \<and> ends_done (delivered items) \<or>
      unbilled rc rc' \<and> (all_delivered items \<and> ends_error J ?m (delivered items) \<or>
        (\<exists>e. items \<noteq> [] \<and> last items = Err e))"
    unfolding fresh_uncharged by blast
  show ?thesis
    by (rule stream_accounted [OF _ _ _ _ bytes outcome])
      (simp_all add: answer downstream_response_def assms(2) generation_new_def timing_streaming_def)
qed

lemma accounted_bad_gateway: "resp_status answer = 502 \<Longrightarrow> accounted D J profile model rc rc answer"
  by (simp add: accounted_def is_success_def)

lemma accounted_error:
  "do { answer \<leftarrow> aliased_upstream_error J 502 model served; Some (rc, answer) } = Some (rc', answer) \<Longrightarrow>
   accounted D J profile model rc rc' answer"
  by (auto simp: bind_eq_Some_conv accounted_def is_success_def dest!: aliased_upstream_error_response)

lemma forward_buffered_accounted:
  assumes "forward_buffered D J proxy clk profile endpoint decision upstream (Some provider) uses_alias rc = Some (rc', answer)"
    and "is_success (us_status upstream)"
  shows "accounted D J profile (dec_canonical_model decision) rc rc' answer"
proof -
  let ?m = "dec_canonical_model decision"
  let ?g = "generation_new ?m provider (us_status upstream)
      (timing_non_streaming (ck_request_started_at clk) (us_attempt_started_at upstream)
         (us_headers_received_at upstream) (ck_processing_elapsed clk) profile) (endpoint_label endpoint)"
  show ?thesis
  proof (cases "collected_body (us_items upstream)")
    case (Err e)
    with assms(1) show ?thesis by (auto simp: forward_buffered_def upstream_unavailable_def json_response_def
          intro: accounted_bad_gateway)
  next
    case (Ok upstream_body)
    show ?thesis
    proof (cases "if uses_alias then sanitize_aliased_json_response J upstream_body ?m else Ok upstream_body")
      case (Err e)
      with assms(1) Ok show ?thesis by (simp add: forward_buffered_def Let_def accounted_error)
    next
      case public: (Ok public_body)
      note run = assms(1) [unfolded forward_buffered_def Let_def Ok result.case public option.case]
      then obtain costed where costed: "inject_usage_cost D J public_body ?m provider (px_price_table proxy) = Some costed"
        by (auto simp: bind_eq_Some_conv)
      show ?thesis
      proof (cases costed)
        case (Err e)
        with run costed show ?thesis by (simp add: accounted_error)
      next
        case r: (Ok costed_body)
        with run costed have "record_at ?g (cr_usage costed_body) (ck_response_completed_at clk) rc = Some rc'"
          and answer: "resp_status answer = us_status upstream" "resp_body answer = RawBody (cr_body costed_body)"
            "resp_served answer = Some provider"
          by (auto simp: bind_eq_Some_conv downstream_response_def)
        note recorded = record_at_recorded [OF this(1)]
        from costed r obtain response prices v where
          "inject_usage_cost_value_with_policy D J (fst (strip_provider_specific_fields response)) prices
             (cost_policy provider) = Some (Ok (v, cr_usage costed_body))" "to_vec J v = Some (cr_body costed_body)"
          by (auto elim: inject_usage_cost_Ok)
        then have "shows_cost D J ?m (cr_usage costed_body) (resp_body answer)"
          using inject_shows_charge by (force simp: shows_cost_def answer)
        then show ?thesis
          unfolding accounted_def using assms(2) answer recorded
          by (auto simp: generation_new_def timing_non_streaming_def intro!: exI [of _ ?g] exI [of _ "cr_usage costed_body"])
      qed
    qed
  qed
qed

lemma forward_response_accounted:
  assumes "forward_response D J to_str proxy clk profile endpoint stream decision upstream rc = Some (rc', answer)"
  shows "accounted D J profile (dec_canonical_model decision) rc rc' answer"
proof (cases "is_success (us_status upstream)")
  case False
  with assms show ?thesis
    by (auto simp: forward_response_def Let_def bind_eq_Some_conv accounted_def downstream_response_def
        dest!: aliased_upstream_error_response split: if_splits)
next
  case True
  show ?thesis
  proof (cases "from_headers to_str (us_headers upstream)")
    case None
    with assms True show ?thesis by (simp add: forward_response_def Let_def accounted_error)
  next
    case (Some provider)
    with assms True show ?thesis
      by (auto simp: forward_response_def Let_def split: if_splits
          intro: forward_stream_accounted forward_buffered_accounted)
  qed
qed

lemma route_error_not_success: "\<not> is_success (resp_status (route_error_response e))"
  by (cases e) (simp_all add: is_success_def json_response_def preference_error_response_def)

text \<open>A served request, taken apart.\<close>

lemma forward_cases:
  assumes run: "forward D R J to_str proxy sidecar clk sh profile endpoint body = Some (sh', requests, answer)"
  obtains (refused) "requests = []" "sh_recorder sh' = sh_recorder sh" "\<not> is_success (resp_status answer)"
      "sh_routing sh' = sh_routing sh \<or> (\<exists>request request' e. route_for_endpoint D R (px_routing proxy)
         (rc_measurements (sh_recorder sh)) (sh_routing sh) profile endpoint request =
         Some (sh_routing sh', request', Err e))"
    | (sent) request request' decision selected_body upstream where
        "from_slice J body = Some request"
        "route_for_endpoint D R (px_routing proxy) (rc_measurements (sh_recorder sh)) (sh_routing sh) profile
           endpoint request = Some (sh_routing sh', request', Ok decision)"
        "to_vec J request' = Some selected_body"
        "send_selected_then_fallback J sidecar (endpoint_url proxy endpoint) request' selected_body decision
           = Some (upstream, requests)"
        "case upstream of Err _ \<Rightarrow> sh_recorder sh' = sh_recorder sh \<and> answer = upstream_unavailable
         | Ok response \<Rightarrow> forward_response D J to_str proxy clk profile endpoint
             (unwrap_or False (Option.bind (json_get ''stream'' request) as_bool)) decision response (sh_recorder sh)
             = Some (sh_recorder sh', answer)"
proof (cases "from_slice J body")
  case None
  with run refused show thesis
    by (auto simp: forward_def invalid_json_request_def json_response_def is_success_def)
next
  case (Some request)
  with run obtain routing' request' decided where
    routed: "route_for_endpoint D R (px_routing proxy) (rc_measurements (sh_recorder sh)) (sh_routing sh)
        profile endpoint request = Some (routing', request', decided)"
    by (auto simp: forward_def Let_def bind_eq_Some_conv)
  note run = run [unfolded forward_def Let_def Some option.case routed, simplified]
  show thesis
  proof (cases decided)
    case (Err e)
    with run routed route_error_not_success show thesis by (intro refused) auto
  next
    case (Ok decision)
    obtain selected_body where body: "to_vec J request' = Some selected_body"
      using run Ok by (auto simp: bind_eq_Some_conv)
    obtain upstream requests' where
      attempts: "send_selected_then_fallback J sidecar (endpoint_url proxy endpoint) request' selected_body decision
          = Some (upstream, requests')"
      using run Ok body
      by (cases "send_selected_then_fallback J sidecar (endpoint_url proxy endpoint) request' selected_body decision") auto
    note ready = Some routed [unfolded Ok] body attempts
    show thesis
    proof (cases upstream)
      case (Err e)
      with run Ok ready show thesis by (intro sent) auto
    next
      case (Ok response)
      with run \<open>decided = Ok decision\<close> ready show thesis
        by (intro sent) (auto simp: bind_eq_Some_conv)
    qed
  qed
qed

text \<open>C1: A success is billed and a failure is free. The caller gets a 2xx status only for a
  routed request whose answer names the provider that served it. Then either the caller sees a
  charge, in the body or, for a stream that reached its end marker, in its last event with a usage,
  and exactly that is recorded: one ledger write is added, with the id, the token counts and the
  cost the caller sees, under the caller's profile, that provider, the model that was routed and
  the status (when the answer has no id, or a token count of more than 63 bits, a reason is logged
  in its place); or no write is added, one reason is logged, and the stream visibly failed. Every
  other status leaves the measurements and the ledger as they were.\<close>

theorem success_is_billed:
  assumes "forward D R J to_str proxy sidecar clk sh profile endpoint body = Some (sh', requests, answer)"
  shows "(\<exists>request request' decision. from_slice J body = Some request \<and> requests \<noteq> [] \<and>
      route_for_endpoint D R (px_routing proxy) (rc_measurements (sh_recorder sh)) (sh_routing sh) profile
        endpoint request = Some (sh_routing sh', request', Ok decision) \<and>
      accounted D J profile (dec_canonical_model decision) (sh_recorder sh) (sh_recorder sh') answer) \<or>
    \<not> is_success (resp_status answer) \<and> sh_recorder sh' = sh_recorder sh"
  using assms
proof (cases rule: forward_cases)
  case (sent request request' decision selected_body upstream)
  have "requests \<noteq> []"
    using sent(4) by (auto simp: send_selected_then_fallback_def bind_eq_Some_conv)
  show ?thesis
  proof (cases upstream)
    case (Err e)
    with sent(5) show ?thesis by (simp add: upstream_unavailable_def json_response_def is_success_def)
  next
    case (Ok response)
    with sent(5) have "accounted D J profile (dec_canonical_model decision) (sh_recorder sh) (sh_recorder sh') answer"
      by (auto intro: forward_response_accounted)
    with sent \<open>requests \<noteq> []\<close> show ?thesis by blast
  qed
qed simp

section \<open>A concrete exchange\<close>

definition example_answer :: json where
  "example_answer = JObject [(''choices'', JArray []), (''id'', JString ''g''),
     (''model'', JString ''upstream''), (''object'', JString ''chat.completion''), (''provider'', JString ''secret''),
     (''usage'', JObject [(''completion_tokens'', JNumber ''1''), (''cost'', JNumber ''0''),
       (''prompt_tokens'', JNumber ''1'')])]"

definition example_public_answer :: json where
  "example_public_answer = JObject [(''choices'', JArray []), (''id'', JString ''g''),
     (''model'', JString ''m''), (''object'', JString ''chat.completion''),
     (''usage'', JObject [(''completion_tokens'', JNumber ''1''), (''cost'', JNumber ''0''),
       (''prompt_tokens'', JNumber ''1'')])]"

definition example_wire :: json_ops where
  "example_wire =
     \<lparr>from_slice = (\<lambda>b. if b = ''request'' then Some example_request
        else if b = ''stream'' then Some example_stream_request else if b = ''answer'' then Some example_answer
        else if b = ''public'' then Some example_public_answer else None),
      to_vec = (\<lambda>v. if v = example_public_answer then Some ''public''
        else if v = example_request then Some ''request'' else None),
      number_as_u64 = (\<lambda>s. if s = ''1'' then Some 1 else None), number_from_str = Some\<rparr>"

definition example_proxy :: "string set \<Rightarrow> (rat, string) proxy_state" where
  "example_proxy aliases =
     \<lparr>px_chat_completions_url = ''chat'', px_legacy_completions_url = ''legacy'',
      px_price_table = \<lparr>prices_by_provider = [(''b'', [(''m'', mapping_prices (example_mapping ''m'' 1 2))])]\<rparr>,
      px_routing = example_policy, px_public_provider_aliases = aliases\<rparr>"

definition example_sidecar_answer :: "unit upstream_response" where
  "example_sidecar_answer =
     \<lparr>us_status = 200, us_headers = [served_provider_header \<mapsto> ''b''],
      us_items = [Chunk ''answer'' \<lparr>tk_observed = 0, tk_elapsed = 0, tk_recorded = 0\<rparr>],
      us_last_tick = \<lparr>tk_observed = 0, tk_elapsed = 0, tk_recorded = 0\<rparr>,
      us_attempt_started_at = 1, us_headers_received_at = 2\<rparr>"

definition example_clock :: clock where
  "example_clock = \<lparr>ck_request_started_at = 0, ck_response_completed_at = 3, ck_processing_elapsed = 1\<rparr>"

definition example_codec :: "json_ops \<Rightarrow> bool" where
  "example_codec J \<longleftrightarrow>
     from_slice J = from_slice example_wire \<and> number_as_u64 J = number_as_u64 example_wire \<and>
     number_from_str J = Some \<and> to_vec J example_public_answer = Some ''public''"

lemma example_codec_wire: "example_codec example_wire" "f example_public_answer = Some ''public'' \<Longrightarrow> example_codec (example_wire\<lparr>to_vec := f\<rparr>)"
  by (simp_all add: example_codec_def example_wire_def)

lemma example_sanitized:
  assumes "example_codec J"
  shows "sanitize_aliased_json_response J ''answer'' ''m'' = Ok ''public''"
proof -
  have "sanitize_public_completion_value example_answer ''m'' = Ok example_public_answer"
    by code_simp
  then show ?thesis
    using assms by (simp add: sanitize_aliased_json_response_def example_codec_def) (simp add: example_wire_def)
qed

lemma send_fallbacks_accepted:
  "\<not> should_fallback upstream \<Longrightarrow> send_fallbacks J sidecar url n request upstream models = Some (upstream, [])"
  by (cases models) simp_all

lemma example_costed:
  assumes "example_codec J"
  shows "\<exists>costed. inject_usage_cost bounded_decimal J ''public'' ''m'' (ServedProvider ''b'') (px_price_table (example_proxy aliases))
     = Some (Ok \<lparr>cr_body = ''public'', cr_usage = costed\<rparr>) \<and> cu_response_id costed = Some ''g'' \<and>
     cu_usage costed = \<lparr>prompt_tokens = 1, completion_tokens = 1\<rparr>"
proof -
  have "normalize_cost_usd bounded_decimal 0 = Some 0"
    by (simp add: normalize_cost_usd_def bounded_decimal_def d_lt_def round_away_def)
  then have "inject_usage_cost_value_with_policy bounded_decimal J example_public_answer
      (mapping_prices (example_mapping ''m'' 1 2)) UsageCostOnly =
    Some (Ok (example_public_answer,
      \<lparr>cu_response_id = Some ''g'', cu_usage = \<lparr>prompt_tokens = 1, completion_tokens = 1\<rparr>, cu_cost_usd = 0\<rparr>))"
    using assms
    by (auto simp add: example_codec_def inject_usage_cost_value_with_policy_def example_public_answer_def example_wire_def token_usage_def
        usage_cost_def reported_cost_def as_u64_def bm_get_def or_else_def)
      (simp_all add: bounded_decimal_def)
  moreover have "strip_provider_specific_fields example_public_answer = (example_public_answer, False)"
    by code_simp
  moreover have "from_slice J ''public'' = Some example_public_answer" "to_vec J example_public_answer = Some ''public''"
    using assms by (auto simp: example_codec_def example_wire_def)
  ultimately show ?thesis
    by (simp add: inject_usage_cost_def prices_for_request_def price_table_get_def example_proxy_def canonical_slug_def
        bm_get_def cost_policy_def option_filter_def)
qed

lemma example_forward_response:
  assumes "example_codec J"
    and "dec_canonical_model decision = ''m''"
  shows "\<exists>rc' answer. forward_response bounded_decimal J Some (example_proxy {''b''}) example_clock Production Chat False
     decision example_sidecar_answer empty_recorder = Some (rc', answer) \<and> is_success (resp_status answer)"
proof -
  obtain costed where costed: "inject_usage_cost bounded_decimal J ''public'' ''m'' (ServedProvider ''b'')
      (px_price_table (example_proxy {''b''})) = Some (Ok \<lparr>cr_body = ''public'', cr_usage = costed\<rparr>)"
    and id: "cu_response_id costed = Some ''g''" "cu_usage costed = \<lparr>prompt_tokens = 1, completion_tokens = 1\<rparr>"
    using example_costed [OF assms(1)] by blast
  note sanitized = example_sanitized [OF assms(1)]
  have served: "from_headers Some (us_headers example_sidecar_answer) = Some (ServedProvider ''b'')"
    by (simp add: from_headers_def example_sidecar_answer_def) code_simp
  have body: "collected_body (us_items example_sidecar_answer) = Ok ''answer''"
    by (simp add: collected_body_def example_sidecar_answer_def)
  have status: "is_success (us_status example_sidecar_answer)" "us_status example_sidecar_answer = 200"
    by (simp_all add: example_sidecar_answer_def is_success_def)
  have aliased: "response_uses_public_alias (px_public_provider_aliases (example_proxy {''b''}))
      (Some (ServedProvider ''b'')) (dec_selected_provider decision)"
    by (simp add: response_uses_public_alias_def example_proxy_def is_some_and_def)
  have recorded: "\<exists>rc'. record_at (generation_new ''m'' served 200 timing e) costed now rc = Some rc'"
    for served timing e now and rc :: "rat recorder"
    by (simp add: record_at_def Let_def generation_write_of_def id i64_try_from_def i64_max_def i16_try_from_def
        generation_new_def)
  obtain rc' where rc': "record_at (generation_new ''m'' (ServedProvider ''b'') 200
      (timing_non_streaming (ck_request_started_at example_clock) (us_attempt_started_at example_sidecar_answer)
         (us_headers_received_at example_sidecar_answer) (ck_processing_elapsed example_clock) Production) (endpoint_label Chat))
      costed (ck_response_completed_at example_clock) empty_recorder = Some rc'"
    using recorded by blast
  have "\<exists>answer. forward_buffered bounded_decimal J (example_proxy {''b''}) example_clock Production Chat decision
      example_sidecar_answer (Some (ServedProvider ''b'')) True empty_recorder = Some (rc', answer) \<and> resp_status answer = 200"
    using costed sanitized body assms(2) status rc'
    by (simp add: forward_buffered_def downstream_response_def)
  then show ?thesis
    using served aliased status by (auto simp: forward_response_def Let_def)
qed

definition example_total_wire :: json_ops where
  "example_total_wire =
     example_wire\<lparr>to_vec := \<lambda>v. Some (if v = example_public_answer then ''public'' else ''sent'')\<rparr>"

theorem success_is_billed_witness:
  "\<exists>sh' requests answer. forward bounded_decimal example_rand example_total_wire Some (example_proxy {''b''})
      (\<lambda>_ _. Ok example_sidecar_answer) example_clock \<lparr>sh_routing = example_state, sh_recorder = empty_recorder\<rparr> Production Chat
      ''request'' = Some (sh', requests, answer) \<and> is_success (resp_status answer) \<and>
    accounted bounded_decimal example_total_wire Production ''m'' empty_recorder (sh_recorder sh') answer"
proof -
  let ?sh = "\<lparr>sh_routing = example_state, sh_recorder = empty_recorder :: rat recorder\<rparr>"
  obtain st' request' dec where routed: "route_for_endpoint bounded_decimal example_rand example_policy []
      example_state Production Chat example_request = Some (st', request', Ok dec)" and m: "dec_canonical_model dec = ''m''"
    using example_decision by blast
  have codec: "example_codec example_total_wire" by (simp add: example_total_wire_def example_codec_wire)
  obtain rc' answer where answered: "forward_response bounded_decimal example_total_wire Some (example_proxy {''b''})
      example_clock Production Chat False dec example_sidecar_answer empty_recorder = Some (rc', answer)"
    and ok: "is_success (resp_status answer)"
    using example_forward_response [OF codec m] by blast
  have request: "from_slice example_total_wire ''request'' = Some example_request"
    "to_vec example_total_wire request' \<noteq> None" "json_get ''stream'' example_request = None"
    by (simp_all add: example_total_wire_def example_wire_def example_request_def bm_get_def)
  have accepted: "\<not> should_fallback (Ok example_sidecar_answer :: (unit upstream_response, unit) result)"
    by (simp add: should_fallback_def example_sidecar_answer_def retryable_status_def is_server_error_def)
  have proxy: "px_routing (example_proxy {''b''}) = example_policy" "rc_measurements empty_recorder = []"
    by (simp_all add: example_proxy_def empty_recorder_def)
  obtain requests where run: "forward bounded_decimal example_rand example_total_wire Some (example_proxy {''b''})
      (\<lambda>_ _. Ok example_sidecar_answer) example_clock ?sh Production Chat ''request''
    = Some (?sh\<lparr>sh_routing := st', sh_recorder := rc'\<rparr>, requests, answer)"
    using request routed answered
    by (auto simp: forward_def Let_def proxy send_selected_then_fallback_def send_attempt_def
        send_fallbacks_accepted [OF accepted])
  from success_is_billed [OF this] request(1) routed m ok run show ?thesis
    by (auto simp: proxy)
qed

section \<open>Aliased providers stay confidential\<close>

text \<open>A body that carries nothing of the provider behind an alias: the sanitized completion, public
  stream frames, or one of the router's own error bodies.\<close>

definition confidential_body :: "json_ops \<Rightarrow> string \<Rightarrow> body \<Rightarrow> bool" where
  "confidential_body J model b \<longleftrightarrow>
     (case b of
        RawBody raw \<Rightarrow> (\<exists>v. to_vec J v = Some raw \<and>
          (public_object model v \<or> (\<exists>status. v = upstream_error_json status model)))
      | StreamBody chunks _ \<Rightarrow> public_bytes J model (concat chunks)
      | JsonBody v \<Rightarrow> v = error_message ''upstream unavailable'')"

lemma aliased_upstream_error_confidential:
  "aliased_upstream_error J status model served = Some answer \<Longrightarrow> confidential_body J model (resp_body answer)"
  by (drule aliased_upstream_error_response, auto simp: confidential_body_def, blast)

lemma bad_gateway_confidential:
  "do { answer \<leftarrow> aliased_upstream_error J 502 model served; Some (rc, answer) } = Some (rc', answer) \<Longrightarrow>
   confidential_body J model (resp_body answer)"
  by (auto simp: bind_eq_Some_conv dest: aliased_upstream_error_confidential)

lemma forward_stream_confidential:
  assumes "forward_stream D J proxy clk profile endpoint decision upstream served rc = Some (rc', answer)"
  shows "confidential_body J (dec_canonical_model decision) (resp_body answer)"
proof (cases "prices_for_request (dec_canonical_model decision) served (px_price_table proxy)")
  case (Err e)
  with assms show ?thesis by (simp add: forward_stream_def Let_def bad_gateway_confidential)
next
  case (Ok prices)
  with assms obtain g items where
    run: "stream_with_response_transformer D J (us_items upstream) (us_last_tick upstream)
        (with_response_model (with_provider_cost_policy (transformer_new prices) (cost_policy served))
          (dec_canonical_model decision)) (Some g) rc = Some (items, rc')"
    and answer: "resp_body answer = stream_body items"
    by (auto simp: forward_stream_def Let_def bind_eq_Some_conv downstream_response_def)
  obtain chunks broken where body: "stream_body items = StreamBody chunks broken"
    by (simp add: stream_body_def)
  from response_stream_outcome [OF run [unfolded stream_with_response_transformer_def] serving_new]
  have "public_bytes J (dec_canonical_model decision) (delivered items)"
    unfolding public_bytes_def by blast
  then show ?thesis
    using stream_body_delivered [OF body] by (simp add: confidential_body_def answer body)
qed

text \<open>What serde_json promises: text it wrote is read back as the value it was written from.\<close>

definition json_round_trips :: "json_ops \<Rightarrow> bool" where
  "json_round_trips J \<longleftrightarrow> (\<forall>v b. to_vec J v = Some b \<longrightarrow> from_slice J b = Some v)"

lemma inject_usage_cost_public:
  assumes J: "json_round_trips J" and sanitized: "public_object model sanitized" "to_vec J sanitized = Some b"
    and run: "inject_usage_cost D J b requested served table = Some (Ok r)"
  shows "\<exists>v. to_vec J v = Some (cr_body r) \<and> public_object model v"
proof -
  have read: "from_slice J b = Some sanitized"
    using J sanitized(2) by (simp add: json_round_trips_def)
  have "fst (strip_provider_specific_fields sanitized) = sanitized"
    using sanitized(1) strip_id by (simp add: public_object_def)
  with run read obtain prices v where
    "inject_usage_cost_value_with_policy D J sanitized prices (cost_policy served) = Some (Ok (v, cr_usage r))"
    "to_vec J v = Some (cr_body r)"
    by (auto elim: inject_usage_cost_Ok)
  with inject_public_object sanitized(1) show ?thesis by blast
qed

lemma sanitize_aliased_json_response_Ok:
  assumes "sanitize_aliased_json_response J b model = Ok public_body"
  obtains sanitized where "public_object model sanitized" "to_vec J sanitized = Some public_body"
  using assms
  by (auto simp: sanitize_aliased_json_response_def result_bind_Ok ok_or_def split: option.splits
      dest: sanitize_public_object)

lemma forward_buffered_confidential:
  assumes J: "json_round_trips J"
    and run: "forward_buffered D J proxy clk profile endpoint decision upstream (Some provider) True rc = Some (rc', answer)"
  shows "confidential_body J (dec_canonical_model decision) (resp_body answer)"
proof (cases "collected_body (us_items upstream)")
  case (Err e)
  with run show ?thesis
    by (auto simp: forward_buffered_def upstream_unavailable_def json_response_def confidential_body_def)
next
  case (Ok upstream_body)
  let ?m = "dec_canonical_model decision"
  show ?thesis
  proof (cases "sanitize_aliased_json_response J upstream_body ?m")
    case (Err e)
    with run Ok show ?thesis by (simp add: forward_buffered_def Let_def bad_gateway_confidential)
  next
    case public: (Ok public_body)
    then obtain sanitized where sanitized: "public_object ?m sanitized" "to_vec J sanitized = Some public_body"
      by (rule sanitize_aliased_json_response_Ok)
    from run Ok public obtain costed where
      costed: "inject_usage_cost D J public_body ?m provider (px_price_table proxy) = Some costed"
      by (auto simp: forward_buffered_def Let_def bind_eq_Some_conv)
    show ?thesis
    proof (cases costed)
      case (Err e)
      with run Ok public costed show ?thesis by (simp add: forward_buffered_def Let_def bad_gateway_confidential)
    next
      case r: (Ok costed_body)
      with run Ok public costed have "resp_body answer = RawBody (cr_body costed_body)"
        by (auto simp: forward_buffered_def Let_def bind_eq_Some_conv downstream_response_def)
      with inject_usage_cost_public [OF J sanitized costed [unfolded r]] show ?thesis
        by (auto simp: confidential_body_def)
    qed
  qed
qed

text \<open>C3: A provider behind a public alias stays confidential: when the selected or the serving
  provider is aliased, the body the client receives is the sanitized completion (allowed fields
  only, no provider-specific field at any depth, the canonical model), a stream of public frames,
  or one of the router's own error bodies, whatever the upstream answered, errors included.\<close>

theorem aliased_response_confidential:
  assumes "json_round_trips J"
    and "response_uses_public_alias (px_public_provider_aliases proxy) (from_headers to_str (us_headers upstream))
      (dec_selected_provider decision)"
    and "forward_response D J to_str proxy clk profile endpoint stream decision upstream rc = Some (rc', answer)"
  shows "confidential_body J (dec_canonical_model decision) (resp_body answer)"
proof (cases "is_success (us_status upstream)")
  case False
  with assms show ?thesis
    by (auto simp: forward_response_def Let_def bind_eq_Some_conv dest: aliased_upstream_error_confidential)
next
  case True
  show ?thesis
  proof (cases "from_headers to_str (us_headers upstream)")
    case None
    with assms(3) True show ?thesis by (simp add: forward_response_def Let_def bad_gateway_confidential)
  next
    case (Some provider)
    with assms True show ?thesis
      by (auto simp: forward_response_def Let_def split: if_splits
          intro: forward_stream_confidential forward_buffered_confidential)
  qed
qed

theorem aliased_response_confidential_witness:
  "\<exists>rc' answer. forward_response bounded_decimal example_wire Some (example_proxy {''b''}) example_clock Production
      Chat False example_decision_plan example_sidecar_answer empty_recorder = Some (rc', answer) \<and>
    is_success (resp_status answer) \<and> confidential_body example_wire ''m'' (resp_body answer)"
proof -
  have J: "json_round_trips example_wire"
    by (simp add: json_round_trips_def example_wire_def)
  have "from_headers Some (us_headers example_sidecar_answer) = Some (ServedProvider ''b'')"
    by (simp add: from_headers_def example_sidecar_answer_def) code_simp
  then have aliased: "response_uses_public_alias (px_public_provider_aliases (example_proxy {''b''}))
      (from_headers Some (us_headers example_sidecar_answer)) (dec_selected_provider example_decision_plan)"
    by (simp add: response_uses_public_alias_def example_proxy_def is_some_and_def)
  have m: "dec_canonical_model example_decision_plan = ''m''" by (simp add: example_decision_plan_def)
  from example_forward_response [OF example_codec_wire(1) m] obtain rc' answer where
    run: "forward_response bounded_decimal example_wire Some (example_proxy {''b''}) example_clock Production
      Chat False example_decision_plan example_sidecar_answer empty_recorder = Some (rc', answer)"
    and ok: "is_success (resp_status answer)" by blast
  from aliased_response_confidential [OF J aliased run] run ok m show ?thesis by auto
qed

end
