(* ===== verification/Gateway_Auth.thy ===== *)
theory Gateway_Auth
  imports Routing_Profile
begin

text \<open>
  The static Gateway credential (\<open>src/gateway_auth.rs\<close>). The constant-time comparison is the
  \<open>subtle\<close> crate's and the header text conversion the \<open>http\<close> crate's: both are arguments.
  The inner service a middleware calls is the argument \<open>next\<close>.
\<close>

record gateway_auth =
  production_key :: bytes
  beta_key :: "bytes option"

definition auth_new :: "bytes \<Rightarrow> gateway_auth" where
  "auth_new expected_key = \<lparr>production_key = expected_key, beta_key = None\<rparr>"

definition with_beta_key :: "gateway_auth \<Rightarrow> bytes \<Rightarrow> gateway_auth" where
  "with_beta_key auth key = auth\<lparr>beta_key := Some key\<rparr>"

definition profile_for ::
  "(bytes \<Rightarrow> bytes \<Rightarrow> bool) \<Rightarrow> gateway_auth \<Rightarrow> bytes \<Rightarrow> routing_profile option" where
  "profile_for ct_eq auth provided =
     (let production_match = ct_eq (production_key auth) provided;
          beta_match = is_some_and (\<lambda>expected. ct_eq expected provided) (beta_key auth)
      in case (production_match, beta_match) of
           (True, False) \<Rightarrow> Some Production
         | (False, True) \<Rightarrow> Some Beta
         | (False, False) \<Rightarrow> None
         | (True, True) \<Rightarrow> None)"

definition unauthorized :: response where
  "unauthorized = json_response 401 (error_message ''unauthorized'')"

text \<open>The profile of a request, and the middleware that inserts it.\<close>

definition authorized_profile ::
  "(bytes \<Rightarrow> bytes \<Rightarrow> bool) \<Rightarrow> (bytes \<Rightarrow> string option) \<Rightarrow> gateway_auth \<Rightarrow> headers \<Rightarrow> routing_profile option" where
  "authorized_profile ct_eq to_str auth headers =
     do { value \<leftarrow> headers ''authorization''; text \<leftarrow> to_str value;
          provided \<leftarrow> strip_prefix ''Bearer '' text;
          profile_for ct_eq auth provided }"

definition authorize ::
  "(bytes \<Rightarrow> bytes \<Rightarrow> bool) \<Rightarrow> (bytes \<Rightarrow> string option) \<Rightarrow> gateway_auth \<Rightarrow> headers \<Rightarrow>
   (routing_profile \<Rightarrow> response) \<Rightarrow> response" where
  "authorize ct_eq to_str auth headers next =
     (case authorized_profile ct_eq to_str auth headers of
        Some profile \<Rightarrow> next profile
      | None \<Rightarrow> unauthorized)"

lemma profile_for_Production:
  "profile_for (=) auth provided = Some Production \<longleftrightarrow>
   provided = production_key auth \<and> beta_key auth \<noteq> Some provided"
  by (cases "beta_key auth") (auto simp: profile_for_def Let_def split: bool.splits)

lemma profile_for_Beta:
  "profile_for (=) auth provided = Some Beta \<longleftrightarrow>
   provided \<noteq> production_key auth \<and> beta_key auth = Some provided"
  by (cases "beta_key auth") (auto simp: profile_for_def Let_def split: bool.splits)

text \<open>The bearer credential of a request, and whose key it is: the key of exactly one profile.\<close>

definition bearer :: "(bytes \<Rightarrow> string option) \<Rightarrow> headers \<Rightarrow> string option" where
  "bearer to_str headers = Option.bind (Option.bind (headers ''authorization'') to_str) (strip_prefix ''Bearer '')"

definition key_of :: "gateway_auth \<Rightarrow> routing_profile \<Rightarrow> string \<Rightarrow> bool" where
  "key_of auth profile key \<longleftrightarrow>
     (case profile of
        Production \<Rightarrow> key = production_key auth \<and> beta_key auth \<noteq> Some key
      | Beta \<Rightarrow> beta_key auth = Some key \<and> key \<noteq> production_key auth)"

lemma authorized_profile_iff:
  "authorized_profile (=) to_str auth headers = Some profile \<longleftrightarrow>
   (\<exists>key. bearer to_str headers = Some key \<and> key_of auth profile key)"
proof -
  have "profile_for (=) auth key = Some profile \<longleftrightarrow> key_of auth profile key" for key
    using profile_for_Production [of auth key] profile_for_Beta [of auth key]
    by (cases profile) (auto simp: key_of_def)
  then show ?thesis
    by (cases "headers ''authorization''") (auto simp: authorized_profile_def bearer_def bind_eq_Some_conv)
qed

text \<open>The profile a request runs under is decided by its bearer credential alone: the inner service
  runs with exactly the profile whose key the credential equals, and any other request gets 401 and
  never reaches it.\<close>

lemma authorize_decision:
  "authorize (=) to_str auth headers next =
    (case bearer to_str headers of
       None \<Rightarrow> unauthorized
     | Some key \<Rightarrow>
         if key_of auth Production key then next Production
         else if key_of auth Beta key then next Beta
         else unauthorized)"
proof (cases "authorized_profile (=) to_str auth headers")
  case None
  then have "bearer to_str headers = Some key \<Longrightarrow> \<not> key_of auth profile key" for key profile
    using authorized_profile_iff [of to_str auth headers profile] by auto
  with None show ?thesis by (auto simp: authorize_def split: option.split)
next
  case (Some profile)
  moreover from this obtain key where "bearer to_str headers = Some key" "key_of auth profile key"
    using authorized_profile_iff by blast
  ultimately show ?thesis by (cases profile) (auto simp: authorize_def key_of_def)
qed

end
