(* ===== verification/Catalog.thy ===== *)
theory Catalog
  imports Pricing
begin

text \<open>
  The public model and endpoint catalogs (\<open>src/catalog.rs\<close>): one snapshot per routing profile,
  built once from the registry. A decimal operator that overflows panics, as does \<open>expect\<close>, so
  building has a \<open>panics\<close> result. What the handlers answer is the JSON value of the response.
\<close>

section \<open>Responses\<close>

record catalog_pricing =
  cp_prompt :: string
  cp_completion :: string

record catalog_model =
  cm_id :: string
  cm_name :: string
  cm_context_length :: u64
  cm_pricing :: catalog_pricing

record models_links =
  ml_next :: "string option"

record models_response =
  mr_data :: "catalog_model list"
  mr_links :: models_links
  mr_total_count :: nat

record catalog_endpoint =
  ce_name :: string
  ce_model_id :: string
  ce_model_name :: string
  ce_context_length :: u64
  ce_pricing :: catalog_pricing
  ce_provider_name :: string
  ce_tag :: string

record model_endpoints =
  me_id :: string
  me_name :: string
  me_endpoints :: "catalog_endpoint list"

record model_endpoints_response =
  mer_data :: model_endpoints

text \<open>What \<open>Serialize\<close> makes of them.\<close>

definition pricing_json :: "catalog_pricing \<Rightarrow> json" where
  "pricing_json p = JObject [(''completion'', JString (cp_completion p)), (''prompt'', JString (cp_prompt p))]"

definition catalog_model_json :: "catalog_model \<Rightarrow> json" where
  "catalog_model_json m =
     JObject [(''context_length'', JNumber (nat_text (unat (cm_context_length m)))),
              (''id'', JString (cm_id m)), (''name'', JString (cm_name m)),
              (''pricing'', pricing_json (cm_pricing m))]"

definition links_json :: "models_links \<Rightarrow> json" where
  "links_json l = JObject [(''next'', case ml_next l of None \<Rightarrow> JNull | Some s \<Rightarrow> JString s)]"

definition models_response_json :: "models_response \<Rightarrow> json" where
  "models_response_json r =
     JObject [(''data'', JArray (map catalog_model_json (mr_data r))),
              (''links'', links_json (mr_links r)),
              (''total_count'', JNumber (nat_text (mr_total_count r)))]"

definition catalog_endpoint_json :: "catalog_endpoint \<Rightarrow> json" where
  "catalog_endpoint_json e =
     JObject [(''context_length'', JNumber (nat_text (unat (ce_context_length e)))),
              (''model_id'', JString (ce_model_id e)), (''model_name'', JString (ce_model_name e)),
              (''name'', JString (ce_name e)), (''pricing'', pricing_json (ce_pricing e)),
              (''provider_name'', JString (ce_provider_name e)), (''tag'', JString (ce_tag e))]"

definition model_endpoints_json :: "model_endpoints_response \<Rightarrow> json" where
  "model_endpoints_json r =
     JObject [(''data'', JObject
        [(''endpoints'', JArray (map catalog_endpoint_json (me_endpoints (mer_data r)))),
         (''id'', JString (me_id (mer_data r))), (''name'', JString (me_name (mer_data r)))])]"

section \<open>Candidates\<close>

record 'd catalog_candidate =
  cc_provider_id :: string
  cc_mapping :: "'d model_mapping"

record 'd endpoint_candidate =
  ec_provider :: "'d provider"
  ec_mapping :: "'d model_mapping"

definition price_key :: "'d decimal_ops \<Rightarrow> 'd catalog_candidate \<Rightarrow> ('d \<times> 'd \<times> 'd \<times> string) panics" where
  "price_key D c =
     (let m = cc_mapping c in
      do { total \<leftarrow> d_checked_add D (m_input_price_per_mtok m) (m_output_price_per_mtok m);
           Some (total, m_input_price_per_mtok m, m_output_price_per_mtok m, cc_provider_id c) })"

text \<open>The derived ordering of a tuple: component by component.\<close>

definition compare_price_key ::
  "'d decimal_ops \<Rightarrow> 'd \<times> 'd \<times> 'd \<times> string \<Rightarrow> 'd \<times> 'd \<times> 'd \<times> string \<Rightarrow> ordering" where
  "compare_price_key D a b =
     (case (a, b) of ((t1, i1, o1, p1), (t2, i2, o2, p2)) \<Rightarrow>
        then_with (d_cmp D t1 t2) (then_with (d_cmp D i1 i2) (then_with (d_cmp D o1 o2) (cmp_of p1 p2))))"

definition is_cheaper_than :: "'d decimal_ops \<Rightarrow> 'd catalog_candidate \<Rightarrow> 'd catalog_candidate \<Rightarrow> bool panics" where
  "is_cheaper_than D candidate current =
     do { a \<leftarrow> price_key D candidate; b \<leftarrow> price_key D current;
          Some (compare_price_key D a b = Less) }"

definition per_token_price :: "'d decimal_ops \<Rightarrow> 'd \<Rightarrow> string panics" where
  "per_token_price D price_per_mtok =
     do { per_token \<leftarrow> d_checked_div D price_per_mtok (d_of_nat D TOKENS_PER_MILLION);
          Some (d_to_string D (d_normalize D per_token)) }"

definition pricing_of :: "'d decimal_ops \<Rightarrow> 'd model_mapping \<Rightarrow> catalog_pricing panics" where
  "pricing_of D m =
     do { prompt \<leftarrow> per_token_price D (m_input_price_per_mtok m);
          completion \<leftarrow> per_token_price D (m_output_price_per_mtok m);
          Some \<lparr>cp_prompt = prompt, cp_completion = completion\<rparr> }"

definition into_model :: "'d decimal_ops \<Rightarrow> 'd catalog_candidate \<Rightarrow> catalog_model panics" where
  "into_model D c =
     (let m = cc_mapping c in
      do { pricing \<leftarrow> pricing_of D m;
           Some \<lparr>cm_id = m_slug m, cm_name = m_name m, cm_context_length = m_context_length m,
                 cm_pricing = pricing\<rparr> })"

definition endpoint_sort_key :: "'d endpoint_candidate \<Rightarrow> u8 \<times> string \<times> string" where
  "endpoint_sort_key c =
     (p_priority (ec_provider c), p_id (ec_provider c), m_provider_model_id (ec_mapping c))"

definition into_endpoint :: "'d decimal_ops \<Rightarrow> 'd endpoint_candidate \<Rightarrow> catalog_endpoint panics" where
  "into_endpoint D c =
     (let p = ec_provider c; m = ec_mapping c in
      do { pricing \<leftarrow> pricing_of D m;
           Some \<lparr>ce_name = catalog_display_name p @ '': '' @ m_name m, ce_model_id = m_slug m,
                 ce_model_name = m_name m, ce_context_length = m_context_length m,
                 ce_pricing = pricing, ce_provider_name = catalog_display_name p,
                 ce_tag = catalog_tag p\<rparr> })"

section \<open>Building the snapshots\<close>

record catalog_snapshot =
  cs_response :: models_response
  cs_endpoints_by_slug :: "(string, model_endpoints_response) bmap"

record catalog =
  snapshots :: "(routing_profile, catalog_snapshot) bmap"

definition add_cheapest ::
  "'d decimal_ops \<Rightarrow> 'd catalog_candidate \<Rightarrow> (string, 'd catalog_candidate) bmap \<Rightarrow>
   (string, 'd catalog_candidate) bmap panics" where
  "add_cheapest D candidate cheapest =
     (let slug = m_slug (cc_mapping candidate) in
      case bm_get slug cheapest of
        None \<Rightarrow> Some (bm_insert slug candidate cheapest)
      | Some current \<Rightarrow>
          do { cheaper \<leftarrow> is_cheaper_than D candidate current;
               Some (bm_insert slug (if cheaper then candidate else current) cheapest) })"

fun add_candidates ::
  "'d decimal_ops \<Rightarrow> 'd endpoint_candidate list \<Rightarrow>
   (string, 'd catalog_candidate) bmap \<times> (string, 'd endpoint_candidate list) bmap \<Rightarrow>
   ((string, 'd catalog_candidate) bmap \<times> (string, 'd endpoint_candidate list) bmap) panics" where
  "add_candidates D [] acc = Some acc"
| "add_candidates D (c # cs) (cheapest, endpoints) =
     do { cheapest' \<leftarrow> add_cheapest D \<lparr>cc_provider_id = p_id (ec_provider c), cc_mapping = ec_mapping c\<rparr> cheapest;
          add_candidates D cs (cheapest', bm_push (m_slug (ec_mapping c)) c endpoints) }"

definition profile_candidates :: "'d registry \<Rightarrow> routing_profile \<Rightarrow> 'd endpoint_candidate list" where
  "profile_candidates r profile =
     concat (map (\<lambda>p. map (\<lambda>m. \<lparr>ec_provider = p, ec_mapping = m\<rparr>) (p_models p))
       (filter (\<lambda>p. p_enabled p \<and> supports p profile) (r_providers r)))"

definition endpoints_response ::
  "'d decimal_ops \<Rightarrow> (string, 'd catalog_candidate) bmap \<Rightarrow> string \<times> 'd endpoint_candidate list \<Rightarrow>
   (string \<times> model_endpoints_response) panics" where
  "endpoints_response D cheapest entry =
     (case entry of (slug, candidates) \<Rightarrow>
        do { selected \<leftarrow> bm_get slug cheapest;
             endpoints \<leftarrow> map_panics (into_endpoint D)
               (sort_by (\<lambda>a b. cmp_of (endpoint_sort_key a) (endpoint_sort_key b)) candidates);
             Some (slug, \<lparr>mer_data = \<lparr>me_id = slug, me_name = m_name (cc_mapping selected),
                                      me_endpoints = endpoints\<rparr>\<rparr>) })"

definition snapshot_from_registry :: "'d decimal_ops \<Rightarrow> 'd registry \<Rightarrow> routing_profile \<Rightarrow> catalog_snapshot panics" where
  "snapshot_from_registry D r profile =
     do { (cheapest, endpoints) \<leftarrow> add_candidates D (profile_candidates r profile) ([], []);
          data \<leftarrow> map_panics (into_model D) (bm_values cheapest);
          by_slug \<leftarrow> map_panics (endpoints_response D cheapest) endpoints;
          Some \<lparr>cs_response = \<lparr>mr_data = data, mr_links = \<lparr>ml_next = None\<rparr>, mr_total_count = length data\<rparr>,
                cs_endpoints_by_slug = bm_collect by_slug\<rparr> }"

definition catalog_from_registry :: "'d decimal_ops \<Rightarrow> 'd registry \<Rightarrow> catalog panics" where
  "catalog_from_registry D r =
     do { entries \<leftarrow> map_panics (\<lambda>profile. do { snapshot \<leftarrow> snapshot_from_registry D r profile;
                                                Some (profile, snapshot) }) profiles_all;
          Some \<lparr>snapshots = bm_collect entries\<rparr> }"

section \<open>Handlers\<close>

definition catalog_snapshot_of :: "catalog \<Rightarrow> routing_profile \<Rightarrow> catalog_snapshot panics" where
  "catalog_snapshot_of c profile = bm_get profile (snapshots c)"

definition snapshot_endpoint_response :: "catalog_snapshot \<Rightarrow> string \<Rightarrow> response" where
  "snapshot_endpoint_response s slug =
     (case bm_get slug (cs_endpoints_by_slug s) of
        Some r \<Rightarrow> json_response 200 (model_endpoints_json r)
      | None \<Rightarrow> json_response 404 (error_code_message 404 ''Not Found''))"

definition endpoint_response :: "catalog \<Rightarrow> routing_profile \<Rightarrow> string \<Rightarrow> response panics" where
  "endpoint_response c profile slug =
     do { s \<leftarrow> catalog_snapshot_of c profile; Some (snapshot_endpoint_response s slug) }"

definition get_models :: "catalog \<Rightarrow> routing_profile \<Rightarrow> response panics" where
  "get_models c profile =
     do { s \<leftarrow> catalog_snapshot_of c profile;
          Some (json_response 200 (models_response_json (cs_response s))) }"

definition get_model_endpoints :: "catalog \<Rightarrow> routing_profile \<Rightarrow> string \<Rightarrow> response panics" where
  "get_model_endpoints c profile model = endpoint_response c profile model"

definition get_model_endpoints_by_author ::
  "catalog \<Rightarrow> routing_profile \<Rightarrow> string \<Rightarrow> string \<Rightarrow> response panics" where
  "get_model_endpoints_by_author c profile author slug =
     endpoint_response c profile (author @ ''/'' @ slug)"

section \<open>The cheapest candidate of every slug\<close>

lemma compare_price_key_order:
  assumes "decimal_laws D"
  shows "cmp_order (compare_price_key D)"
proof -
  have "compare_price_key D = (\<lambda>a b. then_with (cmp_of (d_val D (fst a)) (d_val D (fst b)))
      (then_with (cmp_of (d_val D (fst (snd a))) (d_val D (fst (snd b))))
        (then_with (cmp_of (d_val D (fst (snd (snd a)))) (d_val D (fst (snd (snd b)))))
          (cmp_of (snd (snd (snd a))) (snd (snd (snd b)))))))"
    by (simp add: fun_eq_iff compare_price_key_def split_def d_cmp_val [OF assms])
  then show ?thesis by (simp only:) (intro cmp_order_then cmp_order_key)
qed

definition candidate_of :: "'d endpoint_candidate \<Rightarrow> 'd catalog_candidate" where
  "candidate_of c = \<lparr>cc_provider_id = p_id (ec_provider c), cc_mapping = ec_mapping c\<rparr>"

definition candidate_slug :: "'d endpoint_candidate \<Rightarrow> string" where
  "candidate_slug c = m_slug (ec_mapping c)"

text \<open>One mapping of a model undercuts or equals another: first by the sum of its two prices as a
  decimal holds it, then by the input price, the output price and the provider id.\<close>

definition no_dearer :: "'d decimal_ops \<Rightarrow> 'd catalog_candidate \<Rightarrow> 'd catalog_candidate \<Rightarrow> bool" where
  "no_dearer D a b \<longleftrightarrow>
     (\<exists>s t. d_checked_add D (m_input_price_per_mtok (cc_mapping a)) (m_output_price_per_mtok (cc_mapping a)) = Some s \<and>
        d_checked_add D (m_input_price_per_mtok (cc_mapping b)) (m_output_price_per_mtok (cc_mapping b)) = Some t \<and>
        (d_val D s, d_val D (m_input_price_per_mtok (cc_mapping a)),
           d_val D (m_output_price_per_mtok (cc_mapping a)), cc_provider_id a) \<le>
        (d_val D t, d_val D (m_input_price_per_mtok (cc_mapping b)),
           d_val D (m_output_price_per_mtok (cc_mapping b)), cc_provider_id b))"

lemma no_dearer_price_key:
  assumes "decimal_laws D"
  shows "no_dearer D a b \<longleftrightarrow>
     (case (price_key D a, price_key D b) of
        (Some k, Some l) \<Rightarrow> compare_price_key D k l \<noteq> Greater
      | _ \<Rightarrow> False)"
  by (auto simp: no_dearer_def price_key_def Let_def compare_price_key_def d_cmp_val [OF assms]
      bind_eq_Some_conv not_less split: option.splits)

text \<open>The prices of a mapping, and their sum, fit a decimal.\<close>

definition mapping_fits :: "'d decimal_ops \<Rightarrow> 'd model_mapping \<Rightarrow> bool" where
  "mapping_fits D m \<longleftrightarrow> prices_ok D m \<and>
     d_val D (m_input_price_per_mtok m) + d_val D (m_output_price_per_mtok m) \<le> dec_max"

lemma price_key_total:
  assumes "decimal_laws D" and "mapping_fits D (cc_mapping c)"
  shows "\<exists>k. price_key D c = Some k"
proof -
  have "\<exists>t. d_checked_add D (m_input_price_per_mtok (cc_mapping c)) (m_output_price_per_mtok (cc_mapping c)) = Some t"
    using d_add_result [OF assms(1)] assms(2)
    by (intro dec_result_total) (auto simp: mapping_fits_def prices_ok_def)
  then show ?thesis by (auto simp: price_key_def Let_def)
qed

lemma no_dearer_refl:
  "decimal_laws D \<Longrightarrow> mapping_fits D (cc_mapping c) \<Longrightarrow> no_dearer D c c"
  using price_key_total [of D c] cmp_order.cmp_self [OF compare_price_key_order, of D]
  by (auto simp: no_dearer_price_key)

lemma no_dearer_trans:
  "decimal_laws D \<Longrightarrow> no_dearer D a b \<Longrightarrow> no_dearer D b c \<Longrightarrow> no_dearer D a c"
  using cmp_order.cmp_trans [OF compare_price_key_order, of D]
  by (simp only: no_dearer_price_key) (auto simp del: split_paired_All split: option.splits)

lemma is_cheaper_than_no_dearer:
  assumes D: "decimal_laws D" and "mapping_fits D (cc_mapping a)" and "mapping_fits D (cc_mapping b)"
  obtains cheaper where "is_cheaper_than D a b = Some cheaper"
    and "no_dearer D (if cheaper then a else b) a" and "no_dearer D (if cheaper then a else b) b"
proof -
  obtain k l where k: "price_key D a = Some k" and l: "price_key D b = Some l"
    using price_key_total [OF D assms(2)] price_key_total [OF D assms(3)] by blast
  have swap: "compare_price_key D l k = reverse_ordering (compare_price_key D k l)"
    by (rule cmp_order.cmp_swap [OF compare_price_key_order [OF D]])
  show thesis
    using that [of "compare_price_key D k l = Less"] no_dearer_refl [OF D assms(2)] no_dearer_refl [OF D assms(3)]
      swap by (auto simp: is_cheaper_than_def no_dearer_price_key [OF D] k l)
qed

text \<open>What holds after the candidates \<open>seen\<close> have been added.\<close>

definition cheapest_of ::
  "'d decimal_ops \<Rightarrow> 'd endpoint_candidate list \<Rightarrow> (string, 'd catalog_candidate) bmap \<Rightarrow> bool" where
  "cheapest_of D seen cheapest \<longleftrightarrow> bm_wf cheapest \<and>
     (\<forall>slug. bm_get slug cheapest = None \<longrightarrow> slug \<notin> candidate_slug ` set seen) \<and>
     (\<forall>slug c. bm_get slug cheapest = Some c \<longrightarrow>
        (\<exists>e \<in> set seen. candidate_slug e = slug \<and> c = candidate_of e) \<and>
        (\<forall>e \<in> set seen. candidate_slug e = slug \<longrightarrow> no_dearer D c (candidate_of e)))"

lemma cheapest_ofD:
  assumes "cheapest_of D seen cheapest"
  shows "bm_wf cheapest"
    and "bm_get slug cheapest = None \<Longrightarrow> slug \<notin> candidate_slug ` set seen"
    and "bm_get slug cheapest = Some c \<Longrightarrow> \<exists>e \<in> set seen. candidate_slug e = slug \<and> c = candidate_of e"
    and "bm_get slug cheapest = Some c \<Longrightarrow> e \<in> set seen \<Longrightarrow> candidate_slug e = slug \<Longrightarrow>
      no_dearer D c (candidate_of e)"
  using assms unfolding cheapest_of_def by blast+

text \<open>Entering \<open>best\<close> for the slug of \<open>c\<close> keeps the invariant when it is one of the candidates
  of that slug and no dearer than any of them.\<close>

lemma cheapest_of_insert:
  assumes inv: "cheapest_of D seen cheapest"
    and origin: "\<exists>e \<in> set (seen @ [c]). candidate_slug e = candidate_slug c \<and> best = candidate_of e"
    and best: "\<And>e. e \<in> set (seen @ [c]) \<Longrightarrow> candidate_slug e = candidate_slug c \<Longrightarrow> no_dearer D best (candidate_of e)"
  shows "cheapest_of D (seen @ [c]) (bm_insert (candidate_slug c) best cheapest)"
  unfolding cheapest_of_def
proof (intro conjI allI impI)
  show "bm_wf (bm_insert (candidate_slug c) best cheapest)"
    using cheapest_ofD(1) [OF inv] by (rule bm_wf_insert)
next
  fix slug assume "bm_get slug (bm_insert (candidate_slug c) best cheapest) = None"
  then show "slug \<notin> candidate_slug ` set (seen @ [c])"
    using cheapest_ofD(2) [OF inv, of slug] by (auto simp: bm_get_insert split: if_splits)
next
  fix slug d assume get: "bm_get slug (bm_insert (candidate_slug c) best cheapest) = Some d"
  show "\<exists>e \<in> set (seen @ [c]). candidate_slug e = slug \<and> d = candidate_of e"
    using get origin cheapest_ofD(3) [OF inv, of slug d] by (auto simp: bm_get_insert split: if_splits)
  show "\<forall>e \<in> set (seen @ [c]). candidate_slug e = slug \<longrightarrow> no_dearer D d (candidate_of e)"
    using get best cheapest_ofD(4) [OF inv, of slug d] by (auto simp: bm_get_insert split: if_splits)
qed

lemma candidate_of_mapping [simp]: "cc_mapping (candidate_of c) = ec_mapping c"
  by (simp add: candidate_of_def)

lemma add_cheapest_step:
  assumes D: "decimal_laws D" and inv: "cheapest_of D seen cheapest"
    and fits: "\<forall>e \<in> set (seen @ [c]). mapping_fits D (ec_mapping e)"
  shows "\<exists>cheapest'. add_cheapest D (candidate_of c) cheapest = Some cheapest' \<and>
    cheapest_of D (seen @ [c]) cheapest'"
proof (cases "bm_get (candidate_slug c) cheapest")
  case None
  have "no_dearer D (candidate_of c) (candidate_of c)"
    using fits by (intro no_dearer_refl D) simp
  then have "cheapest_of D (seen @ [c]) (bm_insert (candidate_slug c) (candidate_of c) cheapest)"
    using cheapest_ofD(2) [OF inv None] by (intro cheapest_of_insert [OF inv]) (auto, metis image_eqI)
  then show ?thesis
    using None by (simp add: add_cheapest_def candidate_slug_def Let_def)
next
  case (Some current)
  from cheapest_ofD(3) [OF inv Some] obtain e where e: "e \<in> set seen" "candidate_slug e = candidate_slug c"
    "current = candidate_of e"
    by blast
  then have "mapping_fits D (cc_mapping current)" "mapping_fits D (cc_mapping (candidate_of c))"
    using fits by auto
  then obtain cheaper where cheaper: "is_cheaper_than D (candidate_of c) current = Some cheaper"
    and le: "no_dearer D (if cheaper then candidate_of c else current) (candidate_of c)"
      "no_dearer D (if cheaper then candidate_of c else current) current"
    using is_cheaper_than_no_dearer [OF D] by blast
  have "cheapest_of D (seen @ [c]) (bm_insert (candidate_slug c) (if cheaper then candidate_of c else current) cheapest)"
    using e le(1) no_dearer_trans [OF D le(2) cheapest_ofD(4) [OF inv Some]]
    by (intro cheapest_of_insert [OF inv]) auto
  then show ?thesis
    using Some cheaper by (simp add: add_cheapest_def candidate_slug_def Let_def)
qed

lemma add_candidates_invariant:
  assumes "decimal_laws D" and "cheapest_of D seen cheapest"
    and "\<forall>e \<in> set (seen @ cs). mapping_fits D (ec_mapping e)"
  shows "\<exists>cheapest'. add_candidates D cs (cheapest, endpoints) =
      Some (cheapest', fold (\<lambda>(k, x). bm_push k x) (map (\<lambda>c. (candidate_slug c, c)) cs) endpoints) \<and>
    cheapest_of D (seen @ cs) cheapest'"
  using assms(2,3)
proof (induction cs arbitrary: seen cheapest endpoints)
  case (Cons c cs)
  have "\<forall>e \<in> set (seen @ [c]). mapping_fits D (ec_mapping e)" using Cons.prems(2) by simp
  from add_cheapest_step [OF assms(1) Cons.prems(1) this] obtain cheapest' where
    step: "add_cheapest D (candidate_of c) cheapest = Some cheapest'" "cheapest_of D (seen @ [c]) cheapest'"
    by blast
  from Cons.IH [OF step(2)] Cons.prems(2) show ?case
    using step(1) by (simp add: candidate_of_def candidate_slug_def)
qed simp

section \<open>What a snapshot holds\<close>

definition catalog_fits :: "'d decimal_ops \<Rightarrow> 'd registry \<Rightarrow> bool" where
  "catalog_fits D r \<longleftrightarrow> (\<forall>p \<in> set (enabled_providers r). \<forall>m \<in> set (p_models p). mapping_fits D m)"

definition advertises :: "'d decimal_ops \<Rightarrow> 'd endpoint_candidate list \<Rightarrow> models_response \<Rightarrow> bool" where
  "advertises D cs response \<longleftrightarrow>
     sorted_wrt (<) (map cm_id (mr_data response)) \<and>
     cm_id ` set (mr_data response) = candidate_slug ` set cs \<and>
     mr_total_count response = length (mr_data response) \<and> ml_next (mr_links response) = None \<and>
     (\<forall>e \<in> set (mr_data response). \<exists>c \<in> set cs. into_model D (candidate_of c) = Some e \<and>
        (\<forall>c' \<in> set cs. candidate_slug c' = cm_id e \<longrightarrow> no_dearer D (candidate_of c) (candidate_of c')))"

definition lists_endpoints ::
  "'d decimal_ops \<Rightarrow> 'd endpoint_candidate list \<Rightarrow> string \<Rightarrow> model_endpoints_response \<Rightarrow> bool" where
  "lists_endpoints D cs slug response \<longleftrightarrow> me_id (mer_data response) = slug \<and>
     (\<exists>c \<in> set cs. candidate_slug c = slug \<and> me_name (mer_data response) = m_name (ec_mapping c) \<and>
        (\<forall>c' \<in> set cs. candidate_slug c' = slug \<longrightarrow> no_dearer D (candidate_of c) (candidate_of c'))) \<and>
     (\<exists>ordered. mset ordered = mset (filter (\<lambda>c. candidate_slug c = slug) cs) \<and>
        sorted_wrt (\<lambda>a b. endpoint_sort_key a \<le> endpoint_sort_key b) ordered \<and>
        map_panics (into_endpoint D) ordered = Some (me_endpoints (mer_data response)))"

lemma pricing_of_total:
  assumes D: "decimal_laws D" and "mapping_fits D m"
  shows "\<exists>pricing. pricing_of D m = Some pricing"
proof -
  have million: "d_val D (d_of_nat D TOKENS_PER_MILLION) = 1000000"
    using d_of_nat_val [OF D, of TOKENS_PER_MILLION] by (simp add: TOKENS_PER_MILLION_def)
  have price: "\<exists>t. per_token_price D x = Some t" if "0 \<le> d_val D x" "d_val D x \<le> dec_max" for x
    using d_div_result [OF D, of "d_of_nat D TOKENS_PER_MILLION" x] that
    by (auto simp: per_token_price_def million dest!: dec_result_total)
  have "d_val D (m_input_price_per_mtok m) \<le> dec_max" "d_val D (m_output_price_per_mtok m) \<le> dec_max"
    using assms(2) by (auto simp: mapping_fits_def prices_ok_def)
  then obtain i out where "per_token_price D (m_input_price_per_mtok m) = Some i"
    "per_token_price D (m_output_price_per_mtok m) = Some out"
    using assms(2) price unfolding mapping_fits_def prices_ok_def by blast
  then show ?thesis by (simp add: pricing_of_def)
qed

lemma into_model_total:
  "decimal_laws D \<Longrightarrow> mapping_fits D (cc_mapping c) \<Longrightarrow> \<exists>e. into_model D c = Some e"
  using pricing_of_total [of D "cc_mapping c"] by (auto simp: into_model_def Let_def)

lemma into_model_id: "into_model D c = Some e \<Longrightarrow> cm_id e = m_slug (cc_mapping c)"
  by (auto simp: into_model_def Let_def bind_eq_Some_conv)

lemma into_endpoint_total:
  "decimal_laws D \<Longrightarrow> mapping_fits D (ec_mapping c) \<Longrightarrow> \<exists>e. into_endpoint D c = Some e"
  using pricing_of_total [of D "ec_mapping c"] by (auto simp: into_endpoint_def Let_def)

interpretation endpoint_keys: cmp_order "\<lambda>a b. cmp_of (endpoint_sort_key a) (endpoint_sort_key b)"
  by (rule cmp_order_key)

lemma models_advertised:
  assumes D: "decimal_laws D" and inv: "cheapest_of D cs cheapest"
    and fits: "\<forall>c \<in> set cs. mapping_fits D (ec_mapping c)"
  shows "\<exists>data. map_panics (into_model D) (bm_values cheapest) = Some data \<and>
    advertises D cs \<lparr>mr_data = data, mr_links = \<lparr>ml_next = None\<rparr>, mr_total_count = length data\<rparr>"
proof -
  have wf: "bm_wf cheapest" by (rule cheapest_ofD(1) [OF inv])
  have entry: "bm_get (fst kv) cheapest = Some (snd kv)" if "kv \<in> set cheapest" for kv
    using that by (simp add: bm_get_iff [OF wf])
  have origin: "\<exists>e \<in> set cs. candidate_slug e = fst kv \<and> snd kv = candidate_of e" if "kv \<in> set cheapest" for kv
    by (rule cheapest_ofD(3) [OF inv entry [OF that]])
  have "\<exists>e. into_model D (snd kv) = Some e" if "kv \<in> set cheapest" for kv
    using origin [OF that] fits by (auto intro!: into_model_total [OF D])
  then have "\<exists>e. into_model D c = Some e" if "c \<in> set (bm_values cheapest)" for c
    using that by (auto simp: bm_values_def)
  then obtain data where data: "map_panics (into_model D) (bm_values cheapest) = Some data"
    using map_panics_Some [of "bm_values cheapest" "into_model D"] by blast
  have len: "length data = length cheapest"
    using map_panics_length [OF data] by (simp add: bm_values_def)
  have nth: "into_model D (snd (cheapest ! i)) = Some (data ! i)" if "i < length data" for i
    using map_panics_nth [OF data, of i] that len by (simp add: bm_values_def)
  have id: "cm_id (data ! i) = fst (cheapest ! i)" if "i < length data" for i
    using into_model_id [OF nth [OF that]] origin [of "cheapest ! i"] that len
    by (auto simp: candidate_slug_def candidate_of_def)
  then have ids: "map cm_id data = map fst cheapest"
    by (simp add: list_eq_iff_nth_eq len)
  have keys: "fst ` set cheapest = candidate_slug ` set cs"
  proof (intro set_eqI iffI)
    fix k assume "k \<in> candidate_slug ` set cs"
    then have "bm_get k cheapest \<noteq> None" using cheapest_ofD(2) [OF inv] by blast
    then obtain c where "bm_get k cheapest = Some c" by blast
    from bm_get_mem [OF this] show "k \<in> fst ` set cheapest" by force
  qed (use origin in force)
  have "\<exists>c \<in> set cs. into_model D (candidate_of c) = Some e \<and>
      (\<forall>c' \<in> set cs. candidate_slug c' = cm_id e \<longrightarrow> no_dearer D (candidate_of c) (candidate_of c'))"
    if "e \<in> set data" for e
  proof -
    from that obtain i where i: "i < length data" "e = data ! i" by (auto simp: in_set_conv_nth)
    then have kv: "cheapest ! i \<in> set cheapest" using len by simp
    from origin [OF kv] obtain c where c: "c \<in> set cs" "snd (cheapest ! i) = candidate_of c" by blast
    with cheapest_ofD(4) [OF inv entry [OF kv]] nth [OF i(1)] id [OF i(1)] i show ?thesis by auto
  qed
  moreover have "cm_id ` set data = candidate_slug ` set cs"
    using ids keys by (metis list.set_map)
  moreover have "sorted_wrt (<) (map cm_id data)"
    using wf ids by (simp add: bm_wf_def)
  ultimately show ?thesis
    using data by (simp add: advertises_def)
qed

lemma endpoints_listed:
  assumes D: "decimal_laws D" and inv: "cheapest_of D cs cheapest"
    and fits: "\<forall>c \<in> set cs. mapping_fits D (ec_mapping c)"
    and slug: "slug \<in> candidate_slug ` set cs"
  shows "\<exists>response. endpoints_response D cheapest (slug, filter (\<lambda>c. candidate_slug c = slug) cs)
      = Some (slug, response) \<and> lists_endpoints D cs slug response"
proof -
  let ?ordered = "sort_by (\<lambda>a b. cmp_of (endpoint_sort_key a) (endpoint_sort_key b))
    (filter (\<lambda>c. candidate_slug c = slug) cs)"
  obtain selected where selected: "bm_get slug cheapest = Some selected"
    using cheapest_ofD(2) [OF inv] slug by blast
  from cheapest_ofD(3) [OF inv selected] obtain c where
    c: "c \<in> set cs" "candidate_slug c = slug" "selected = candidate_of c" by blast
  then have "\<exists>c \<in> set cs. candidate_slug c = slug \<and> m_name (cc_mapping selected) = m_name (ec_mapping c) \<and>
      (\<forall>c' \<in> set cs. candidate_slug c' = slug \<longrightarrow> no_dearer D (candidate_of c) (candidate_of c'))"
    using cheapest_ofD(4) [OF inv selected] by (intro bexI [of _ c]) auto
  moreover obtain es where "map_panics (into_endpoint D) ?ordered = Some es"
    using map_panics_Some [of ?ordered "into_endpoint D"] into_endpoint_total [OF D] fits by auto
  moreover have "sorted_wrt (\<lambda>a b. endpoint_sort_key a \<le> endpoint_sort_key b) ?ordered"
    using endpoint_keys.sorted_sort_by by (simp add: not_less)
  ultimately show ?thesis
    unfolding lists_endpoints_def endpoints_response_def
    by (auto simp: selected intro!: exI [of _ ?ordered])
qed

lemma grouped_get:
  "bm_get slug (fold (\<lambda>(k, x). bm_push k x) (map (\<lambda>c. (candidate_slug c, c)) cs) []) =
   (if slug \<in> candidate_slug ` set cs then Some (filter (\<lambda>c. candidate_slug c = slug) cs) else None)"
proof -
  have "map snd (filter (\<lambda>(k, _). k = slug) (map (\<lambda>c. (candidate_slug c, c)) cs)) =
      filter (\<lambda>c. candidate_slug c = slug) cs"
    by (induction cs) auto
  then show ?thesis
    using bgroup.lookup_fold_push_empty [of slug "map (\<lambda>c. (candidate_slug c, c)) cs"]
    by (simp add: image_image)
qed

text \<open>A keyed map whose closure keeps the key, collected again.\<close>

lemma collect_map_panics:
  assumes "bm_wf m" and "map_panics f m = Some kvs" and "\<And>k v k' w. f (k, v) = Some (k', w) \<Longrightarrow> k' = k"
  shows "bm_get k (bm_collect kvs) = Option.bind (bm_get k m) (\<lambda>v. map_option snd (f (k, v)))"
proof -
  have len: "length kvs = length m" by (rule map_panics_length [OF assms(2)])
  have nth: "f (m ! i) = Some (kvs ! i)" if "i < length m" for i
    by (rule map_panics_nth [OF assms(2) that])
  have "map fst kvs = map fst m"
    using nth assms(3) by (auto simp: list_eq_iff_nth_eq len) (metis prod.collapse)
  moreover have "distinct (map fst m)" by (rule bm_wf_distinct [OF assms(1)])
  ultimately have d: "distinct (map fst kvs)" "fst ` set kvs = fst ` set m"
    by (simp, metis list.set_map)
  have get: "bm_get k (bm_collect kvs) = map_of kvs k"
    unfolding bm_get_collect using map_of_rev_distinct [OF d(1)] map_of_eq_Some_iff [OF d(1)]
    by (metis not_None_eq)
  show ?thesis
  proof (cases "bm_get k m")
    case None
    then have "k \<notin> fst ` set kvs" using d(2) by (simp add: bm_get_def map_of_eq_None_iff)
    with None get show ?thesis by (simp add: map_of_eq_None_iff)
  next
    case (Some v)
    then obtain i where i: "i < length m" "m ! i = (k, v)"
      using bm_get_mem by (metis in_set_conv_nth)
    obtain w where w: "kvs ! i = (k, w)" "f (k, v) = Some (k, w)"
      using nth [OF i(1)] i(2) assms(3) [of k v] by (cases "kvs ! i") auto
    then have "map_of kvs k = Some w"
      using d(1) i(1) len by (metis map_of_eq_Some_iff nth_mem)
    with Some get w show ?thesis by simp
  qed
qed

definition snapshot_ok :: "'d decimal_ops \<Rightarrow> 'd endpoint_candidate list \<Rightarrow> catalog_snapshot \<Rightarrow> bool" where
  "snapshot_ok D cs s \<longleftrightarrow> advertises D cs (cs_response s) \<and>
     (\<forall>slug. case bm_get slug (cs_endpoints_by_slug s) of
          None \<Rightarrow> slug \<notin> candidate_slug ` set cs
        | Some response \<Rightarrow> slug \<in> candidate_slug ` set cs \<and> lists_endpoints D cs slug response)"

lemma profile_candidates_fit:
  "catalog_fits D r \<Longrightarrow> c \<in> set (profile_candidates r profile) \<Longrightarrow> mapping_fits D (ec_mapping c)"
  by (auto simp: catalog_fits_def profile_candidates_def enabled_providers_def)

lemma snapshot_from_registry_ok:
  assumes D: "decimal_laws D" and "catalog_fits D r"
  shows "\<exists>s. snapshot_from_registry D r profile = Some s \<and> snapshot_ok D (profile_candidates r profile) s"
proof -
  let ?cs = "profile_candidates r profile"
  let ?groups = "fold (\<lambda>(k, x). bm_push k x) (map (\<lambda>c. (candidate_slug c, c)) ?cs) []"
  have fits: "\<forall>c \<in> set ?cs. mapping_fits D (ec_mapping c)"
    using profile_candidates_fit [OF assms(2)] by blast
  have "cheapest_of D [] []" by (simp add: cheapest_of_def)
  from add_candidates_invariant [OF D this, of ?cs "[]"] fits obtain cheapest where
    added: "add_candidates D ?cs ([], []) = Some (cheapest, ?groups)" and inv: "cheapest_of D ?cs cheapest"
    by auto
  from models_advertised [OF D inv fits] obtain data where
    data: "map_panics (into_model D) (bm_values cheapest) = Some data" and
    adv: "advertises D ?cs \<lparr>mr_data = data, mr_links = \<lparr>ml_next = None\<rparr>, mr_total_count = length data\<rparr>"
    by blast
  have wf: "bm_wf ?groups" by (rule bgroup.wf_fold_push) simp
  have group: "slug \<in> candidate_slug ` set ?cs \<and> v = filter (\<lambda>c. candidate_slug c = slug) ?cs"
    if "bm_get slug ?groups = Some v" for slug v
    using that unfolding grouped_get by (simp split: if_splits)
  have total: "\<exists>y. endpoints_response D cheapest kv = Some y" if "kv \<in> set ?groups" for kv
    using group [of "fst kv" "snd kv"] that endpoints_listed [OF D inv fits, of "fst kv"]
    by (cases kv) (auto simp: bm_get_iff [OF wf])
  obtain by_slug where by_slug: "map_panics (endpoints_response D cheapest) ?groups = Some by_slug"
    using map_panics_Some [of ?groups "endpoints_response D cheapest"] total by blast
  have "bm_get slug (bm_collect by_slug) =
      Option.bind (bm_get slug ?groups) (\<lambda>v. map_option snd (endpoints_response D cheapest (slug, v)))" for slug
    by (rule collect_map_panics [OF wf by_slug]) (auto simp: endpoints_response_def bind_eq_Some_conv)
  then have "case bm_get slug (bm_collect by_slug) of
          None \<Rightarrow> slug \<notin> candidate_slug ` set ?cs
        | Some response \<Rightarrow> slug \<in> candidate_slug ` set ?cs \<and> lists_endpoints D ?cs slug response" for slug
    using endpoints_listed [OF D inv fits, of slug] by (auto simp: grouped_get)
  with adv show ?thesis
    by (simp add: snapshot_from_registry_def added data by_slug snapshot_ok_def)
qed

lemma catalog_from_registry_ok:
  assumes "decimal_laws D" and "catalog_fits D r"
  shows "\<exists>c. catalog_from_registry D r = Some c \<and>
    (\<forall>profile. \<exists>s. catalog_snapshot_of c profile = Some s \<and> snapshot_ok D (profile_candidates r profile) s)"
proof -
  obtain a b where a: "snapshot_from_registry D r Production = Some a" "snapshot_ok D (profile_candidates r Production) a"
    and b: "snapshot_from_registry D r Beta = Some b" "snapshot_ok D (profile_candidates r Beta) b"
    using snapshot_from_registry_ok [OF assms] by meson
  then have "catalog_from_registry D r = Some \<lparr>snapshots = bm_collect [(Production, a), (Beta, b)]\<rparr>"
    by (simp add: catalog_from_registry_def profiles_all_def)
  moreover have "\<exists>s. bm_get profile (bm_collect [(Production, a), (Beta, b)]) = Some s \<and>
      snapshot_ok D (profile_candidates r profile) s" for profile
    using a b by (cases profile) (simp_all add: bm_get_collect)
  ultimately show ?thesis by (simp add: catalog_snapshot_of_def)
qed

section \<open>The answers of the handlers\<close>

text \<open>The mappings a profile may use, and how a client sees one: its prices per token, in the
  decimal's normalized text, and the provider under its public name and tag, when it has both.\<close>

definition offers :: "'d registry \<Rightarrow> routing_profile \<Rightarrow> ('d provider \<times> 'd model_mapping) list" where
  "offers r profile =
     concat (map (\<lambda>p. map (Pair p) (p_models p))
       (filter (\<lambda>p. p_enabled p \<and> profile \<in> p_profiles p) (r_providers r)))"

definition shows_price :: "'d decimal_ops \<Rightarrow> 'd \<Rightarrow> string \<Rightarrow> bool" where
  "shows_price D price shown \<longleftrightarrow>
     (\<exists>q. d_checked_div D price (d_of_nat D 1000000) = Some q \<and> shown = d_to_string D (d_normalize D q))"

definition shows_pricing :: "'d decimal_ops \<Rightarrow> 'd model_mapping \<Rightarrow> json \<Rightarrow> bool" where
  "shows_pricing D m v \<longleftrightarrow>
     (\<exists>completion prompt. v = JObject [(''completion'', JString completion), (''prompt'', JString prompt)] \<and>
        shows_price D (m_output_price_per_mtok m) completion \<and> shows_price D (m_input_price_per_mtok m) prompt)"

definition shows_model :: "'d decimal_ops \<Rightarrow> 'd model_mapping \<Rightarrow> json \<Rightarrow> bool" where
  "shows_model D m v \<longleftrightarrow>
     (\<exists>pricing. shows_pricing D m pricing \<and>
        v = JObject [(''context_length'', JNumber (nat_text (unat (m_context_length m)))),
                     (''id'', JString (m_slug m)), (''name'', JString (m_name m)), (''pricing'', pricing)])"

definition public_name_and_tag :: "'d provider \<Rightarrow> string \<times> string" where
  "public_name_and_tag p =
     (case (p_public_display_name p, p_public_tag p) of
        (Some display_name, Some tag) \<Rightarrow> (display_name, tag)
      | _ \<Rightarrow> (p_display_name p, p_id p))"

definition shows_endpoint :: "'d decimal_ops \<Rightarrow> 'd provider \<Rightarrow> 'd model_mapping \<Rightarrow> json \<Rightarrow> bool" where
  "shows_endpoint D p m v \<longleftrightarrow>
     (\<exists>pricing name tag. shows_pricing D m pricing \<and> public_name_and_tag p = (name, tag) \<and>
        v = JObject [(''context_length'', JNumber (nat_text (unat (m_context_length m)))),
                     (''model_id'', JString (m_slug m)), (''model_name'', JString (m_name m)),
                     (''name'', JString (name @ '': '' @ m_name m)), (''pricing'', pricing),
                     (''provider_name'', JString name), (''tag'', JString tag)])"

definition cheapest_offer ::
  "'d decimal_ops \<Rightarrow> 'd registry \<Rightarrow> routing_profile \<Rightarrow> 'd provider \<times> 'd model_mapping \<Rightarrow> bool" where
  "cheapest_offer D r profile offer \<longleftrightarrow> offer \<in> set (offers r profile) \<and>
     (\<forall>other \<in> set (offers r profile). m_slug (snd other) = m_slug (snd offer) \<longrightarrow>
        no_dearer D \<lparr>cc_provider_id = p_id (fst offer), cc_mapping = snd offer\<rparr>
          \<lparr>cc_provider_id = p_id (fst other), cc_mapping = snd other\<rparr>)"

definition offer_of :: "'d endpoint_candidate \<Rightarrow> 'd provider \<times> 'd model_mapping" where
  "offer_of c = (ec_provider c, ec_mapping c)"

lemma map_offer_of: "map offer_of (profile_candidates r profile) = offers r profile"
  by (simp add: profile_candidates_def offers_def offer_of_def supports_def map_concat comp_def)

lemma offers_set: "set (offers r profile) = offer_of ` set (profile_candidates r profile)"
  by (simp flip: map_offer_of)

lemma cheapest_offer_of:
  assumes "c \<in> set (profile_candidates r profile)"
    and "\<forall>c' \<in> set (profile_candidates r profile). candidate_slug c' = candidate_slug c \<longrightarrow>
      no_dearer D (candidate_of c) (candidate_of c')"
  shows "cheapest_offer D r profile (offer_of c)"
  using assms by (auto simp: cheapest_offer_def offers_set offer_of_def candidate_of_def candidate_slug_def)

lemma pricing_of_shown: "pricing_of D m = Some p \<Longrightarrow> shows_pricing D m (pricing_json p)"
  by (auto simp: pricing_of_def per_token_price_def pricing_json_def shows_pricing_def shows_price_def
      TOKENS_PER_MILLION_def bind_eq_Some_conv)

lemma into_model_shown:
  "into_model D c = Some e \<Longrightarrow> shows_model D (cc_mapping c) (catalog_model_json e)"
  using pricing_of_shown
  by (fastforce simp: into_model_def Let_def bind_eq_Some_conv shows_model_def catalog_model_json_def)

lemma into_endpoint_shown:
  assumes "into_endpoint D c = Some e"
  shows "shows_endpoint D (ec_provider c) (ec_mapping c) (catalog_endpoint_json e)"
proof -
  have "public_name_and_tag (ec_provider c) = (catalog_display_name (ec_provider c), catalog_tag (ec_provider c))"
    by (auto simp: public_name_and_tag_def catalog_display_name_def catalog_tag_def split: option.splits)
  with assms pricing_of_shown show ?thesis
    by (fastforce simp: into_endpoint_def Let_def bind_eq_Some_conv shows_endpoint_def catalog_endpoint_json_def)
qed

lemma models_shown:
  assumes "advertises D (profile_candidates r profile) response"
  shows "\<exists>chosen shown. models_response_json response =
      JObject [(''data'', JArray shown), (''links'', JObject [(''next'', JNull)]),
               (''total_count'', JNumber (nat_text (length shown)))] \<and>
    list_all2 (\<lambda>offer. shows_model D (snd offer)) chosen shown \<and>
    (\<forall>offer \<in> set chosen. cheapest_offer D r profile offer) \<and>
    sorted_wrt (<) (map (\<lambda>offer. m_slug (snd offer)) chosen) \<and>
    (\<lambda>offer. m_slug (snd offer)) ` set chosen = (\<lambda>offer. m_slug (snd offer)) ` set (offers r profile)"
proof -
  let ?cs = "profile_candidates r profile" and ?data = "mr_data response"
  have "\<forall>e \<in> set ?data. \<exists>c \<in> set ?cs. into_model D (candidate_of c) = Some e \<and>
      (\<forall>c' \<in> set ?cs. candidate_slug c' = cm_id e \<longrightarrow> no_dearer D (candidate_of c) (candidate_of c'))"
    using assms by (simp add: advertises_def)
  then obtain pick where pick: "\<And>e. e \<in> set ?data \<Longrightarrow> pick e \<in> set ?cs"
    "\<And>e. e \<in> set ?data \<Longrightarrow> into_model D (candidate_of (pick e)) = Some e"
    "\<And>e c'. e \<in> set ?data \<Longrightarrow> c' \<in> set ?cs \<Longrightarrow> candidate_slug c' = cm_id e \<Longrightarrow>
      no_dearer D (candidate_of (pick e)) (candidate_of c')"
    by metis
  let ?chosen = "map (\<lambda>e. offer_of (pick e)) ?data" and ?shown = "map catalog_model_json ?data"
  have id: "candidate_slug (pick e) = cm_id e" if "e \<in> set ?data" for e
    using into_model_id [OF pick(2) [OF that]] by (simp add: candidate_slug_def)
  have slugs: "map (\<lambda>offer. m_slug (snd offer)) ?chosen = map cm_id ?data"
    using id by (simp add: offer_of_def candidate_slug_def)
  have "list_all2 (\<lambda>offer. shows_model D (snd offer)) ?chosen ?shown"
    using into_model_shown [OF pick(2)]
    by (auto simp: list_all2_conv_all_nth offer_of_def)
  moreover have "\<forall>offer \<in> set ?chosen. cheapest_offer D r profile offer"
    using pick(1,3) id by (auto intro!: cheapest_offer_of)
  moreover have "(\<lambda>offer. m_slug (snd offer)) ` set ?chosen = (\<lambda>offer. m_slug (snd offer)) ` set (offers r profile)"
  proof -
    have "(\<lambda>offer. m_slug (snd offer)) ` set ?chosen = cm_id ` set ?data"
      using slugs by (metis list.set_map)
    also have "\<dots> = candidate_slug ` set ?cs" using assms by (simp add: advertises_def)
    finally show ?thesis by (simp add: offers_set image_image offer_of_def candidate_slug_def)
  qed
  moreover have "sorted_wrt (<) (map (\<lambda>offer. m_slug (snd offer)) ?chosen)"
    unfolding slugs using assms by (simp add: advertises_def)
  moreover have "models_response_json response =
      JObject [(''data'', JArray ?shown), (''links'', JObject [(''next'', JNull)]),
               (''total_count'', JNumber (nat_text (length ?shown)))]"
    using assms by (simp add: models_response_json_def links_json_def advertises_def)
  ultimately show ?thesis by blast
qed

lemma endpoints_shown:
  assumes "lists_endpoints D (profile_candidates r profile) slug response"
  shows "\<exists>ordered shown best. model_endpoints_json response =
      JObject [(''data'', JObject [(''endpoints'', JArray shown), (''id'', JString slug),
                                   (''name'', JString (m_name (snd best)))])] \<and>
    m_slug (snd best) = slug \<and> cheapest_offer D r profile best \<and>
    mset ordered = mset (filter (\<lambda>offer. m_slug (snd offer) = slug) (offers r profile)) \<and>
    sorted_wrt (\<lambda>a b. (p_priority (fst a), p_id (fst a), m_provider_model_id (snd a)) \<le>
      (p_priority (fst b), p_id (fst b), m_provider_model_id (snd b))) ordered \<and>
    list_all2 (\<lambda>offer. shows_endpoint D (fst offer) (snd offer)) ordered shown"
proof -
  let ?cs = "profile_candidates r profile" and ?data = "mer_data response"
  obtain best where best: "best \<in> set ?cs" "candidate_slug best = slug" "me_name ?data = m_name (ec_mapping best)"
    "\<forall>c' \<in> set ?cs. candidate_slug c' = slug \<longrightarrow> no_dearer D (candidate_of best) (candidate_of c')"
    using assms unfolding lists_endpoints_def by blast
  obtain ordered where ordered: "mset ordered = mset (filter (\<lambda>c. candidate_slug c = slug) ?cs)"
    "sorted_wrt (\<lambda>a b. endpoint_sort_key a \<le> endpoint_sort_key b) ordered"
    "map_panics (into_endpoint D) ordered = Some (me_endpoints ?data)"
    using assms unfolding lists_endpoints_def by blast
  have "list_all2 (\<lambda>offer. shows_endpoint D (fst offer) (snd offer)) (map offer_of ordered)
      (map catalog_endpoint_json (me_endpoints ?data))"
    using into_endpoint_shown [OF map_panics_nth [OF ordered(3)]] map_panics_length [OF ordered(3)]
    by (auto simp: list_all2_conv_all_nth offer_of_def)
  moreover have "mset (map offer_of ordered) = mset (filter (\<lambda>offer. m_slug (snd offer) = slug) (offers r profile))"
    using ordered(1) by (simp flip: map_offer_of add: filter_map comp_def offer_of_def candidate_slug_def)
  moreover have "sorted_wrt (\<lambda>a b. (p_priority (fst a), p_id (fst a), m_provider_model_id (snd a)) \<le>
      (p_priority (fst b), p_id (fst b), m_provider_model_id (snd b))) (map offer_of ordered)"
    using ordered(2) by (simp add: sorted_wrt_map offer_of_def endpoint_sort_key_def)
  moreover have "cheapest_offer D r profile (offer_of best)"
    using best by (intro cheapest_offer_of) auto
  moreover have "model_endpoints_json response = JObject [(''data'', JObject
      [(''endpoints'', JArray (map catalog_endpoint_json (me_endpoints ?data))), (''id'', JString slug),
       (''name'', JString (m_name (snd (offer_of best))))])]" "m_slug (snd (offer_of best)) = slug"
    using assms best(2,3) by (simp_all add: model_endpoints_json_def lists_endpoints_def offer_of_def candidate_slug_def)
  ultimately show ?thesis by blast
qed

text \<open>C27: Building the catalog never panics for non-negative prices whose sums fit a decimal, and
  the model list of each profile shows exactly the slugs an enabled provider that allows the
  profile maps, each once, in ascending order, and their number. A slug is shown with the name,
  the context length and the per-token prices of its cheapest such mapping: the one with the
  smallest sum of its input and output price, and between equal sums the smaller input price,
  then output price, then provider id.\<close>

theorem catalog_advertises_cheapest:
  assumes "decimal_laws D" and "catalog_fits D r"
  shows "\<exists>c. catalog_from_registry D r = Some c \<and>
    (\<forall>profile. \<exists>chosen shown. get_models c profile = Some (json_response 200
         (JObject [(''data'', JArray shown), (''links'', JObject [(''next'', JNull)]),
                   (''total_count'', JNumber (nat_text (length shown)))])) \<and>
       list_all2 (\<lambda>offer. shows_model D (snd offer)) chosen shown \<and>
       (\<forall>offer \<in> set chosen. cheapest_offer D r profile offer) \<and>
       sorted_wrt (<) (map (\<lambda>offer. m_slug (snd offer)) chosen) \<and>
       (\<lambda>offer. m_slug (snd offer)) ` set chosen = (\<lambda>offer. m_slug (snd offer)) ` set (offers r profile))"
proof -
  obtain c where c: "catalog_from_registry D r = Some c"
    and s: "\<And>profile. \<exists>s. catalog_snapshot_of c profile = Some s \<and> snapshot_ok D (profile_candidates r profile) s"
    using catalog_from_registry_ok [OF assms] by blast
  have "\<exists>response. get_models c profile = Some (json_response 200 (models_response_json response)) \<and>
      advertises D (profile_candidates r profile) response" for profile
    using s [of profile] by (auto simp: get_models_def snapshot_ok_def)
  then have "\<exists>chosen shown. get_models c profile = Some (json_response 200
         (JObject [(''data'', JArray shown), (''links'', JObject [(''next'', JNull)]),
                   (''total_count'', JNumber (nat_text (length shown)))])) \<and>
       list_all2 (\<lambda>offer. shows_model D (snd offer)) chosen shown \<and>
       (\<forall>offer \<in> set chosen. cheapest_offer D r profile offer) \<and>
       sorted_wrt (<) (map (\<lambda>offer. m_slug (snd offer)) chosen) \<and>
       (\<lambda>offer. m_slug (snd offer)) ` set chosen = (\<lambda>offer. m_slug (snd offer)) ` set (offers r profile)" for profile
    using models_shown [of D r profile] by metis
  with c show ?thesis by blast
qed

lemma example_catalog_fits:
  "catalog_fits bounded_decimal
     \<lparr>r_providers = [example_provider ''b'' 0 [example_mapping ''m'' 1 2],
                     example_provider ''a'' 1 [example_mapping ''m'' 1 1]]\<rparr>"
  by (simp add: catalog_fits_def enabled_providers_def example_provider_def example_mapping_def
      mapping_fits_def prices_ok_def bounded_decimal_def dec_max_def)

theorem catalog_advertises_cheapest_witness:
  "catalog_from_registry bounded_decimal
     \<lparr>r_providers = [example_provider ''b'' 0 [example_mapping ''m'' 1 2],
                     example_provider ''a'' 1 [example_mapping ''m'' 1 1]]\<rparr> \<noteq> None"
  using catalog_advertises_cheapest [OF bounded_decimal_laws example_catalog_fits] by auto

text \<open>C31: An endpoint request, by the full name of a model, answers 404 exactly for a slug no
  enabled provider of the profile maps; otherwise it lists exactly the mappings of that slug, each
  with its provider's public name and tag, its context length and its per-token prices, in
  ascending order of priority, then provider id, then upstream model id, under the name the
  cheapest of them gives the model. A request by author and slug is answered as one by the two
  joined with a slash.\<close>

theorem model_endpoints_listed:
  assumes "decimal_laws D" and "catalog_fits D r" and "catalog_from_registry D r = Some c"
  shows "(if \<exists>offer \<in> set (offers r profile). m_slug (snd offer) = slug
      then \<exists>ordered shown best. get_model_endpoints c profile slug = Some (json_response 200
           (JObject [(''data'', JObject [(''endpoints'', JArray shown), (''id'', JString slug),
                                         (''name'', JString (m_name (snd best)))])])) \<and>
         m_slug (snd best) = slug \<and> cheapest_offer D r profile best \<and>
         mset ordered = mset (filter (\<lambda>offer. m_slug (snd offer) = slug) (offers r profile)) \<and>
         sorted_wrt (\<lambda>a b. (p_priority (fst a), p_id (fst a), m_provider_model_id (snd a)) \<le>
           (p_priority (fst b), p_id (fst b), m_provider_model_id (snd b))) ordered \<and>
         list_all2 (\<lambda>offer. shows_endpoint D (fst offer) (snd offer)) ordered shown
      else get_model_endpoints c profile slug = Some (json_response 404 (error_code_message 404 ''Not Found''))) \<and>
    (\<forall>author name. get_model_endpoints_by_author c profile author name =
       get_model_endpoints c profile (author @ ''/'' @ name))"
proof -
  let ?cs = "profile_candidates r profile"
  obtain s where s: "catalog_snapshot_of c profile = Some s" "snapshot_ok D ?cs s"
    using catalog_from_registry_ok [OF assms(1,2)] assms(3) by auto
  have offered: "(\<exists>offer \<in> set (offers r profile). m_slug (snd offer) = slug) \<longleftrightarrow> slug \<in> candidate_slug ` set ?cs"
    by (auto simp: offers_set offer_of_def candidate_slug_def)
  have found: "case bm_get slug (cs_endpoints_by_slug s) of None \<Rightarrow> slug \<notin> candidate_slug ` set ?cs
      | Some response \<Rightarrow> slug \<in> candidate_slug ` set ?cs \<and> lists_endpoints D ?cs slug response"
    using s(2) by (simp add: snapshot_ok_def)
  have author: "get_model_endpoints_by_author c profile author name =
      get_model_endpoints c profile (author @ ''/'' @ name)" for author name
    by (simp add: get_model_endpoints_def get_model_endpoints_by_author_def)
  show ?thesis
  proof (cases "bm_get slug (cs_endpoints_by_slug s)")
    case None
    then have "get_model_endpoints c profile slug = Some (json_response 404 (error_code_message 404 ''Not Found''))"
      by (simp add: get_model_endpoints_def endpoint_response_def snapshot_endpoint_response_def s(1))
    moreover have "slug \<notin> candidate_slug ` set ?cs" using found None by simp
    ultimately show ?thesis unfolding offered using author by simp
  next
    case (Some response)
    then have "get_model_endpoints c profile slug = Some (json_response 200 (model_endpoints_json response))"
      by (simp add: get_model_endpoints_def endpoint_response_def snapshot_endpoint_response_def s(1))
    moreover have slug: "slug \<in> candidate_slug ` set ?cs" and "lists_endpoints D ?cs slug response"
      using found Some by simp_all
    from endpoints_shown [OF this(2)] obtain ordered shown best where
      "model_endpoints_json response = JObject [(''data'', JObject [(''endpoints'', JArray shown),
         (''id'', JString slug), (''name'', JString (m_name (snd best)))])]"
      and rest: "m_slug (snd best) = slug" "cheapest_offer D r profile best"
        "mset ordered = mset (filter (\<lambda>offer. m_slug (snd offer) = slug) (offers r profile))"
        "sorted_wrt (\<lambda>a b. (p_priority (fst a), p_id (fst a), m_provider_model_id (snd a)) \<le>
          (p_priority (fst b), p_id (fst b), m_provider_model_id (snd b))) ordered"
        "list_all2 (\<lambda>offer. shows_endpoint D (fst offer) (snd offer)) ordered shown"
      by (elim exE conjE)
    ultimately have answer: "get_model_endpoints c profile slug = Some (json_response 200
        (JObject [(''data'', JObject [(''endpoints'', JArray shown), (''id'', JString slug),
                                      (''name'', JString (m_name (snd best)))])]))" by simp
    show ?thesis
      unfolding offered if_P [OF slug]
      by (intro conjI allI author exI [of _ ordered] exI [of _ shown] exI [of _ best] answer rest)
  qed
qed

theorem model_endpoints_listed_witness:
  "get_model_endpoints (the (catalog_from_registry bounded_decimal
       \<lparr>r_providers = [example_provider ''b'' 0 [example_mapping ''m'' 1 2],
                       example_provider ''a'' 1 [example_mapping ''m'' 1 1]]\<rparr>)) Production ''x''
   = Some (json_response 404 (error_code_message 404 ''Not Found'')) \<and>
   (\<exists>shown name. get_model_endpoints (the (catalog_from_registry bounded_decimal
       \<lparr>r_providers = [example_provider ''b'' 0 [example_mapping ''m'' 1 2],
                       example_provider ''a'' 1 [example_mapping ''m'' 1 1]]\<rparr>)) Production ''m''
   = Some (json_response 200 (JObject [(''data'', JObject [(''endpoints'', JArray shown), (''id'', JString ''m''),
       (''name'', name)])])) \<and> length shown = 2)"
proof -
  let ?r = "\<lparr>r_providers = [example_provider ''b'' 0 [example_mapping ''m'' 1 2],
                           example_provider ''a'' 1 [example_mapping ''m'' 1 1]]\<rparr>"
  obtain c where c: "catalog_from_registry bounded_decimal ?r = Some c"
    using catalog_from_registry_ok [OF bounded_decimal_laws example_catalog_fits] by blast
  note listed = model_endpoints_listed [OF bounded_decimal_laws example_catalog_fits c, of Production]
  have offers: "offers ?r Production =
      [(example_provider ''b'' 0 [example_mapping ''m'' 1 2], example_mapping ''m'' 1 2),
       (example_provider ''a'' 1 [example_mapping ''m'' 1 1], example_mapping ''m'' 1 1)]"
    by (simp add: offers_def example_provider_def)
  have "\<not> (\<exists>offer \<in> set (offers ?r Production). m_slug (snd offer) = ''x'')"
    unfolding offers by (simp add: example_mapping_def)
  then have "get_model_endpoints c Production ''x'' = Some (json_response 404 (error_code_message 404 ''Not Found''))"
    using listed [of "''x''"] by presburger
  moreover have m: "\<exists>offer \<in> set (offers ?r Production). m_slug (snd offer) = ''m''"
    and all: "filter (\<lambda>offer. m_slug (snd offer) = ''m'') (offers ?r Production) = offers ?r Production"
    unfolding offers by (simp_all add: example_mapping_def)
  from listed [of "''m''", THEN conjunct1, unfolded if_P [OF m] all] obtain ordered shown best where
    "get_model_endpoints c Production ''m'' = Some (json_response 200 (JObject [(''data'',
       JObject [(''endpoints'', JArray shown), (''id'', JString ''m''), (''name'', JString (m_name (snd best)))])]))"
    and "cheapest_offer bounded_decimal ?r Production best"
    and ordered: "mset ordered = mset (offers ?r Production)"
    and shown: "list_all2 (\<lambda>offer. shows_endpoint bounded_decimal (fst offer) (snd offer)) ordered shown"
    by blast
  moreover have "length shown = 2"
    using mset_eq_length [OF ordered] list_all2_lengthD [OF shown] unfolding offers by simp
  ultimately show ?thesis using c by auto
qed

end
