(* ===== verification/Upstream_Catalog.thy ===== *)
theory Upstream_Catalog
  imports Pricing
begin

text \<open>
  Upstream coverage (\<open>src/upstream_catalog.rs\<close>) and the part of the entry point that loads
  the registry (\<open>src/main.rs\<close>): command parsing, reading, hydrating and validating. What an
  HTTP request, the file system and \<open>serde_yaml\<close> answer are arguments; the conversion of a
  catalog to mappings and their merge into the reviewed registry are the code's.
\<close>

section \<open>The upstream catalog\<close>

datatype 's upstream_catalog_error =
    Request string 's
  | Status string nat
  | Decode string 's

record upstream_pricing =
  up_prompt :: "string option"
  up_completion :: "string option"
  up_input_cache_read :: "string option"

record upstream_model =
  um_id :: string
  um_name :: "string option"
  um_context_length :: "u64 option"
  um_pricing :: "upstream_pricing option"

record 'd upstream_catalog =
  uc_mappings :: "'d model_mapping list"
  uc_advertised :: nat

record hydration_outcome =
  ho_added :: nat
  ho_explicit_retained :: nat

definition price_per_mtok :: "'d decimal_ops \<Rightarrow> string option \<Rightarrow> 'd option" where
  "price_per_mtok D price_per_token =
     do { text \<leftarrow> price_per_token;
          parsed \<leftarrow> d_from_str D (trim text);
          if d_is_sign_negative D parsed then None
          else d_checked_mul D parsed (d_of_nat D TOKENS_PER_MILLION) }"

definition mapping_from_model :: "'d decimal_ops \<Rightarrow> upstream_model \<Rightarrow> 'd model_mapping option" where
  "mapping_from_model D model =
     do { pricing \<leftarrow> um_pricing model;
          input_price \<leftarrow> price_per_mtok D (up_prompt pricing);
          output_price \<leftarrow> price_per_mtok D (up_completion pricing);
          let cached_price = price_per_mtok D (up_input_cache_read pricing);
          context_length \<leftarrow> option_filter (\<lambda>len. 0 < len) (um_context_length model);
          let name = unwrap_or (um_id model)
                       (option_filter (\<lambda>name. trim name \<noteq> []) (um_name model));
          Some \<lparr>m_slug = um_id model, m_name = name, m_context_length = context_length,
                m_provider_model_id = um_id model, m_input_price_per_mtok = input_price,
                m_cached_input_price_per_mtok = cached_price,
                m_output_price_per_mtok = output_price,
                m_request_constraints = default_constraints\<rparr> }"

definition mappings_from_catalog :: "'d decimal_ops \<Rightarrow> upstream_model list \<Rightarrow> 'd upstream_catalog" where
  "mappings_from_catalog D models =
     \<lparr>uc_mappings = List.map_filter (mapping_from_model D) models, uc_advertised = length models\<rparr>"

text \<open>What \<open>reqwest\<close> answers to a fetch: no client, no response, or a status with the body as
  its JSON decoder reads it.\<close>

datatype 's fetched =
    BuildFailed 's
  | SendFailed 's
  | Responded nat "(upstream_model list, 's) result"

definition fetch_catalog ::
  "'d decimal_ops \<Rightarrow> (string \<Rightarrow> 's fetched) \<Rightarrow> string \<Rightarrow> ('d upstream_catalog, 's upstream_catalog_error) result" where
  "fetch_catalog D send url =
     (case send url of
        BuildFailed source \<Rightarrow> Err (Request url source)
      | SendFailed source \<Rightarrow> Err (Request url source)
      | Responded status body \<Rightarrow>
          if \<not> is_success status then Err (Status url status)
          else result_bind (map_err (Decode url) body)
                 (\<lambda>data. Ok (mappings_from_catalog D data)))"

section \<open>Merging coverage into the registry\<close>

text \<open>\<open>iter_mut().find(p)\<close> followed by a change of the element found.\<close>

fun update_first :: "('a \<Rightarrow> bool) \<Rightarrow> ('a \<Rightarrow> 'a) \<Rightarrow> 'a list \<Rightarrow> 'a list" where
  "update_first p f [] = []"
| "update_first p f (x # xs) = (if p x then f x # xs else x # update_first p f xs)"

definition new_mappings :: "'d provider \<Rightarrow> 'd model_mapping list \<Rightarrow> 'd model_mapping list" where
  "new_mappings p upstream = filter (\<lambda>m. m_slug m \<notin> m_slug ` set (p_models p)) upstream"

definition hydrate_provider ::
  "'d registry \<Rightarrow> string \<Rightarrow> 'd model_mapping list \<Rightarrow> 'd registry \<times> hydration_outcome" where
  "hydrate_provider r provider_id upstream =
     (case find (\<lambda>p. p_id p = provider_id) (r_providers r) of
        None \<Rightarrow> (r, \<lparr>ho_added = 0, ho_explicit_retained = 0\<rparr>)
      | Some p \<Rightarrow>
          (r\<lparr>r_providers := update_first (\<lambda>p. p_id p = provider_id)
               (\<lambda>p. p\<lparr>p_models := p_models p @ new_mappings p upstream\<rparr>) (r_providers r)\<rparr>,
           \<lparr>ho_added = length (new_mappings p upstream),
            ho_explicit_retained = length (remdups (map m_slug (p_models p)))\<rparr>))"

definition catalog_sources :: "'d registry \<Rightarrow> (string \<times> string) list" where
  "catalog_sources r =
     List.map_filter (\<lambda>p. map_option (Pair (p_id p)) (p_catalog_url p)) (enabled_providers r)"

text \<open>The requests go out one after the other; \<open>send n\<close> is what the \<open>n\<close>-th one meets.\<close>

fun hydrate_sources ::
  "'d decimal_ops \<Rightarrow> (nat \<Rightarrow> string \<Rightarrow> 's fetched) \<Rightarrow> nat \<Rightarrow> (string \<times> string) list \<Rightarrow> 'd registry \<Rightarrow> 'd registry" where
  "hydrate_sources D send n [] r = r"
| "hydrate_sources D send n ((provider_id, url) # sources) r =
     hydrate_sources D send (Suc n) sources
       (case fetch_catalog D (send n) url of
          Ok catalog \<Rightarrow> fst (hydrate_provider r provider_id (uc_mappings catalog))
        | Err _ \<Rightarrow> r)"

definition hydrate_upstream_coverage ::
  "'d decimal_ops \<Rightarrow> (nat \<Rightarrow> string \<Rightarrow> 's fetched) \<Rightarrow> 'd registry \<Rightarrow> 'd registry" where
  "hydrate_upstream_coverage D send r = hydrate_sources D send 0 (catalog_sources r) r"

section \<open>Starting up\<close>

datatype 'd load_error =
    RegistryUnreadable string
  | RegistryUnparsable string
  | RegistryRejected "'d registry_validation_error"

definition load_registry ::
  "'d decimal_ops \<Rightarrow> (string \<Rightarrow> bytes option) \<Rightarrow> (bytes \<Rightarrow> 'd registry option) \<Rightarrow>
   (nat \<Rightarrow> string \<Rightarrow> 's fetched) \<Rightarrow> string \<Rightarrow> ('d registry, 'd load_error) result" where
  "load_registry D read_file from_yaml send path =
     result_bind (ok_or (RegistryUnreadable path) (read_file path)) (\<lambda>content.
     result_bind (ok_or (RegistryUnparsable path) (from_yaml content)) (\<lambda>parsed.
       let r = hydrate_upstream_coverage D send parsed in
       result_bind (map_err RegistryRejected (registry_validate D r)) (\<lambda>_. Ok r)))"

datatype command = Serve | RenderSidecarConfig string

datatype command_error = UnsupportedCommand | OneOutputPathRequired

definition parse_command :: "string list \<Rightarrow> (command, command_error) result" where
  "parse_command args =
     (case args of
        [] \<Rightarrow> Ok Serve
      | command # rest \<Rightarrow>
          if command \<noteq> ''render-sidecar-config'' then Err UnsupportedCommand
          else case rest of
              [] \<Rightarrow> Err OneOutputPathRequired
            | output_path # others \<Rightarrow>
                if output_path = [] then Err OneOutputPathRequired
                else if others \<noteq> [] then Err OneOutputPathRequired
                else Ok (RenderSidecarConfig output_path))"

section \<open>What a converted model promises\<close>

lemma price_per_mtok_Some:
  assumes "decimal_laws D" and "price_per_mtok D text = Some c"
  obtains s parsed where "text = Some s" "d_from_str D (trim s) = Some parsed" "0 \<le> d_val D parsed"
    "dec_result D (d_val D parsed * 1000000) (Some c)" "0 \<le> d_val D c"
proof -
  from assms(2) obtain s parsed where s: "text = Some s" and parsed: "d_from_str D (trim s) = Some parsed"
    and nonneg: "\<not> d_is_sign_negative D parsed"
    and c: "d_checked_mul D parsed (d_of_nat D TOKENS_PER_MILLION) = Some c"
    by (auto simp: price_per_mtok_def bind_eq_Some_conv split: if_splits)
  have val: "0 \<le> d_val D parsed"
    using d_sign_negative_val [OF assms(1), of parsed] nonneg by force
  have million: "d_val D (d_of_nat D TOKENS_PER_MILLION) = 1000000"
    using d_of_nat_val [OF assms(1), of TOKENS_PER_MILLION] by (simp add: TOKENS_PER_MILLION_def)
  have result: "dec_result D (d_val D parsed * 1000000) (Some c)"
    using d_mul_result [OF assms(1), of parsed "d_of_nat D TOKENS_PER_MILLION"] c million by simp
  then have "0 \<le> d_val D c"
    using val by (auto intro: dec_result_nonneg)
  with s parsed val result show ?thesis by (rule that)
qed

text \<open>A mapping that may be added: priced, sized, unconstrained and named after its model.\<close>

definition hydrated_mapping_ok :: "'d decimal_ops \<Rightarrow> 'd model_mapping \<Rightarrow> bool" where
  "hydrated_mapping_ok D m \<longleftrightarrow>
     prices_ok D m \<and> 0 < unat (m_context_length m) \<and> m_request_constraints m = default_constraints \<and>
     m_provider_model_id m = m_slug m \<and> (trim (m_name m) \<noteq> [] \<or> m_name m = m_slug m)"

lemma mapping_from_model_ok:
  assumes D: "decimal_laws D" and m: "mapping_from_model D model = Some m"
  shows "hydrated_mapping_ok D m \<and> m_slug m = um_id model"
proof -
  from m obtain pricing :: upstream_pricing and input_price output_price len where
    i: "price_per_mtok D (up_prompt pricing) = Some input_price" and
    out: "price_per_mtok D (up_completion pricing) = Some output_price" and
    len: "option_filter (\<lambda>l. 0 < l) (um_context_length model) = Some len" and
    m_eq: "Some \<lparr>m_slug = um_id model,
      m_name = unwrap_or (um_id model) (option_filter (\<lambda>name. trim name \<noteq> []) (um_name model)),
      m_context_length = len, m_provider_model_id = um_id model, m_input_price_per_mtok = input_price,
      m_cached_input_price_per_mtok = price_per_mtok D (up_input_cache_read pricing),
      m_output_price_per_mtok = output_price, m_request_constraints = default_constraints\<rparr> = Some m"
    unfolding mapping_from_model_def bind_eq_Some_conv Let_def by blast
  have price: "price_per_mtok D s = Some c \<Longrightarrow> 0 \<le> d_val D c" for s c
    by (erule price_per_mtok_Some [OF D])
  have "is_none_or (\<lambda>c. 0 \<le> d_val D c) (price_per_mtok D (up_input_cache_read pricing))"
    by (cases "price_per_mtok D (up_input_cache_read pricing)") (auto dest: price)
  moreover have "0 < unat len"
    using len by (auto simp: option_filter_def word_less_nat_alt split: option.splits if_splits)
  moreover have "trim (m_name m) \<noteq> [] \<or> m_name m = m_slug m"
    using m_eq by (auto simp: option_filter_def split: option.splits)
  ultimately show ?thesis
    using price [OF i] price [OF out] m_eq by (auto simp: hydrated_mapping_ok_def prices_ok_def)
qed

lemma hydrated_mapping_registry_ok:
  "hydrated_mapping_ok D m \<Longrightarrow> trim (m_slug m) \<noteq> [] \<Longrightarrow> mapping_ok D m"
  by (auto simp: hydrated_mapping_ok_def mapping_ok_def default_constraints_def
      default_completion_endpoints_def)

lemma set_map_filter_iff: "y \<in> set (List.map_filter f xs) \<longleftrightarrow> (\<exists>x \<in> set xs. f x = Some y)"
  by (induction xs) (auto simp: List.map_filter_simps split: option.splits)

lemma distinct_map_filter_key:
  assumes "\<And>x y. f x = Some y \<Longrightarrow> k y = h x" and "distinct (map h xs)"
  shows "distinct (map k (List.map_filter f xs))"
  using assms(2)
proof (induction xs)
  case (Cons x xs)
  have "k y \<in> h ` set xs" if "y \<in> set (List.map_filter f xs)" for y
    using that assms(1) by (force simp: set_map_filter_iff)
  with Cons assms(1) [of x] show ?case
    by (auto simp: List.map_filter_simps split: option.splits)
qed (simp add: List.map_filter_simps)

lemma mappings_from_catalog_ok:
  assumes "decimal_laws D"
  shows "m \<in> set (uc_mappings (mappings_from_catalog D models)) \<Longrightarrow>
      hydrated_mapping_ok D m \<and> m_slug m \<in> um_id ` set models"
    and "distinct (map um_id models) \<Longrightarrow>
      distinct (map m_slug (uc_mappings (mappings_from_catalog D models)))"
  using mapping_from_model_ok [OF assms]
  by (force simp: mappings_from_catalog_def set_map_filter_iff
      intro: distinct_map_filter_key [of _ m_slug um_id])+

section \<open>Hydration extends the reviewed registry\<close>

definition extends_reviewed :: "'d decimal_ops \<Rightarrow> 'd provider \<Rightarrow> 'd provider \<Rightarrow> bool" where
  "extends_reviewed D p p' \<longleftrightarrow>
     (\<exists>added. p' = p\<lparr>p_models := p_models p @ added\<rparr> \<and>
        (\<forall>m \<in> set added. hydrated_mapping_ok D m \<and> m_slug m \<notin> m_slug ` set (p_models p)))"

lemma update_first_rel:
  "(\<And>x. R x x) \<Longrightarrow> (\<And>x. p x \<Longrightarrow> find p xs = Some x \<Longrightarrow> R x (f x)) \<Longrightarrow> list_all2 R xs (update_first p f xs)"
  by (induction xs) (auto intro: list_all2_refl)

text \<open>One pass over the fetches, for any preorder on providers that a single merge respects.\<close>

lemma hydrate_sources_rel:
  assumes refl: "\<And>p. R p p" and trans: "\<And>p q s. R p q \<Longrightarrow> R q s \<Longrightarrow> R p s"
    and step: "\<And>n p url catalog. (p_id p, url) \<in> set sources \<Longrightarrow> fetch_catalog D (send n) url = Ok catalog \<Longrightarrow>
      R p (p\<lparr>p_models := p_models p @ new_mappings p (uc_mappings catalog)\<rparr>)"
  shows "list_all2 R (r_providers r) (r_providers (hydrate_sources D send n sources r))"
  using step
proof (induction sources arbitrary: n r)
  case Nil
  then show ?case by (simp add: list_all2_refl refl)
next
  case (Cons src sources)
  obtain i url where src: "src = (i, url)" by (cases src)
  let ?r = "case fetch_catalog D (send n) url of
      Ok catalog \<Rightarrow> fst (hydrate_provider r i (uc_mappings catalog)) | Err _ \<Rightarrow> r"
  have first: "list_all2 R (r_providers r) (r_providers ?r)"
  proof (cases "fetch_catalog D (send n) url")
    case (Err e)
    then show ?thesis by (simp add: list_all2_refl refl)
  next
    case (Ok catalog)
    show ?thesis
    proof (cases "find (\<lambda>p. p_id p = i) (r_providers r)")
      case None
      then show ?thesis by (simp add: Ok hydrate_provider_def list_all2_refl refl)
    next
      case (Some p)
      then have id: "p_id p = i" by (auto simp: find_Some_iff)
      from Some have r: "r_providers ?r = update_first (\<lambda>p. p_id p = i)
          (\<lambda>p. p\<lparr>p_models := p_models p @ new_mappings p (uc_mappings catalog)\<rparr>) (r_providers r)"
        by (simp add: Ok hydrate_provider_def)
      show ?thesis
        unfolding r using Ok src by (intro update_first_rel refl Cons.prems [of _ url]) auto
    qed
  qed
  have rest: "list_all2 R (r_providers ?r) (r_providers (hydrate_sources D send (Suc n) sources ?r))"
    by (rule Cons.IH) (rule Cons.prems; simp)
  show ?case
    using list_all2_trans [of R R R, OF _ first rest] trans by (auto simp: src)
qed

lemma extends_reviewed_refl: "extends_reviewed D p p"
  by (auto simp: extends_reviewed_def intro: exI [of _ "[]"])

lemma extends_reviewed_trans:
  assumes "extends_reviewed D p q" and "extends_reviewed D q s"
  shows "extends_reviewed D p s"
proof -
  obtain a b where q: "q = p\<lparr>p_models := p_models p @ a\<rparr>" and s: "s = q\<lparr>p_models := p_models q @ b\<rparr>"
    and a: "\<forall>m \<in> set a. hydrated_mapping_ok D m \<and> m_slug m \<notin> m_slug ` set (p_models p)"
    and b: "\<forall>m \<in> set b. hydrated_mapping_ok D m \<and> m_slug m \<notin> m_slug ` set (p_models q)"
    using assms by (auto simp: extends_reviewed_def)
  from a b show ?thesis
    unfolding extends_reviewed_def by (intro exI [of _ "a @ b"]) (auto simp: q s)
qed

lemma fetch_catalog_Ok:
  "fetch_catalog D send url = Ok catalog \<longleftrightarrow>
     (\<exists>status models. send url = Responded status (Ok models) \<and> is_success status \<and>
        catalog = mappings_from_catalog D models)"
  by (auto simp: fetch_catalog_def result_bind_Ok split: fetched.splits)

lemma merge_extends_reviewed:
  assumes "decimal_laws D" and "fetch_catalog D send url = Ok catalog"
  shows "extends_reviewed D p (p\<lparr>p_models := p_models p @ new_mappings p (uc_mappings catalog)\<rparr>)"
  using mappings_from_catalog_ok(1) [OF assms(1)] assms(2) unfolding extends_reviewed_def
  by (intro exI [of _ "new_mappings p (uc_mappings catalog)"])
    (auto simp: fetch_catalog_Ok new_mappings_def)

text \<open>C25: Whatever the upstream catalogs answer, hydration only appends to the reviewed mappings
  of a provider: every provider keeps its position, its fields and its reviewed mappings in
  order, an appended mapping repeats no reviewed slug, has non-negative prices, a positive
  context length and the default constraints, and a provider that is disabled or declares no
  catalog keeps its mappings unchanged.\<close>

theorem hydration_extends_reviewed:
  assumes D: "decimal_laws D" and ids: "distinct (map p_id (r_providers r))"
  shows "list_all2 (\<lambda>p p'. extends_reviewed D p p' \<and> (\<not> p_enabled p \<or> p_catalog_url p = None \<longrightarrow> p' = p))
     (r_providers r) (r_providers (hydrate_upstream_coverage D send r))"
proof -
  let ?R = "\<lambda>p p'. extends_reviewed D p p' \<and> (p_id p \<notin> fst ` set (catalog_sources r) \<longrightarrow> p' = p)"
  have id: "extends_reviewed D p q \<Longrightarrow> p_id q = p_id p" for p q
    by (auto simp: extends_reviewed_def)
  have "list_all2 ?R (r_providers r) (r_providers (hydrate_upstream_coverage D send r))"
    unfolding hydrate_upstream_coverage_def
  proof (rule hydrate_sources_rel)
    show "?R p s" if "?R p q" "?R q s" for p q s
      using that id [of p q] extends_reviewed_trans [of D p q s] by auto
    show "?R p (p\<lparr>p_models := p_models p @ new_mappings p (uc_mappings catalog)\<rparr>)"
      if "(p_id p, url) \<in> set (catalog_sources r)" "fetch_catalog D (send n) url = Ok catalog"
      for n p url catalog
      using merge_extends_reviewed [OF D that(2)] that(1) by force
  qed (simp add: extends_reviewed_refl)
  moreover have "p_id p \<notin> fst ` set (catalog_sources r)"
    if "p \<in> set (r_providers r)" "\<not> p_enabled p \<or> p_catalog_url p = None" for p
  proof
    assume "p_id p \<in> fst ` set (catalog_sources r)"
    then obtain q url where q: "q \<in> set (r_providers r)" "p_enabled q" "p_catalog_url q = Some url"
      "p_id q = p_id p"
      by (auto simp: catalog_sources_def set_map_filter_iff enabled_providers_def)
    then have "q = p"
      using ids that(1) by (metis distinct_map inj_onD)
    with q that(2) show False by simp
  qed
  ultimately show ?thesis
    by (elim list.rel_mono_strong) blast
qed

definition example_pricing :: upstream_pricing where
  "example_pricing = \<lparr>up_prompt = Some ''0'', up_completion = Some ''0'', up_input_cache_read = None\<rparr>"

definition example_upstream :: "string \<Rightarrow> upstream_model" where
  "example_upstream model_id =
     \<lparr>um_id = model_id, um_name = None, um_context_length = Some 8, um_pricing = Some example_pricing\<rparr>"

definition example_send :: "nat \<Rightarrow> string \<Rightarrow> string fetched" where
  "example_send n url = (if n = 0 then Responded 200 (Ok [example_upstream ''m'', example_upstream ''n''])
                         else SendFailed ''down'')"

definition example_hydratable :: "rat registry" where
  "example_hydratable =
     \<lparr>r_providers = [(example_provider ''a'' 0 [example_mapping ''m'' 1 2])\<lparr>p_catalog_url := Some ''http://a''\<rparr>,
                     (example_provider ''b'' 1 [])\<lparr>p_catalog_url := Some ''http://b''\<rparr>]\<rparr>"

theorem hydration_extends_reviewed_witness:
  "list_all2 (\<lambda>p p'. extends_reviewed bounded_decimal p p' \<and>
       (\<not> p_enabled p \<or> p_catalog_url p = None \<longrightarrow> p' = p))
     (r_providers example_hydratable)
     (r_providers (hydrate_upstream_coverage bounded_decimal example_send example_hydratable))"
  by (rule hydration_extends_reviewed [OF bounded_decimal_laws])
    (simp add: example_hydratable_def example_provider_def)

section \<open>Hydration keeps the service startable\<close>

definition catalogs_wellformed :: "(nat \<Rightarrow> string \<Rightarrow> 's fetched) \<Rightarrow> bool" where
  "catalogs_wellformed send \<longleftrightarrow>
     (\<forall>n url status models. send n url = Responded status (Ok models) \<longrightarrow>
        distinct (map um_id models) \<and> (\<forall>m \<in> set models. trim (um_id m) \<noteq> []))"

lemma extends_reviewed_ok:
  assumes "extends_reviewed D p p'"
    and "\<forall>m \<in> set (p_models p') - set (p_models p). trim (m_slug m) \<noteq> []"
    and "provider_ok D p"
  shows "provider_ok D p'"
proof -
  obtain added where p': "p' = p\<lparr>p_models := p_models p @ added\<rparr>"
    and added: "\<forall>m \<in> set added. hydrated_mapping_ok D m \<and> m_slug m \<notin> m_slug ` set (p_models p)"
    using assms(1) by (auto simp: extends_reviewed_def)
  have "mapping_ok D m" if "m \<in> set added" for m
    using that added assms(2) by (intro hydrated_mapping_registry_ok) (auto simp: p')
  then show ?thesis
    using assms(3) by (auto simp: p' provider_ok_def)
qed

lemma merge_keeps_ok:
  fixes D :: "'d decimal_ops" and p :: "'d provider"
  assumes D: "decimal_laws D" and w: "catalogs_wellformed send"
    and fetched: "fetch_catalog D (send n) url = Ok catalog"
  defines "p' \<equiv> p\<lparr>p_models := p_models p @ new_mappings p (uc_mappings catalog)\<rparr>"
  shows "provider_ok D p \<Longrightarrow> provider_ok D p'" and "provider_prices_ok D p \<Longrightarrow> provider_prices_ok D p'"
proof -
  from fetched obtain status models where send: "send n url = Responded status (Ok models)"
    and catalog: "catalog = mappings_from_catalog D models"
    by (auto simp: fetch_catalog_Ok)
  with w have ids: "distinct (map um_id models)" "\<forall>m \<in> set models. trim (um_id m) \<noteq> []"
    by (auto simp: catalogs_wellformed_def)
  have mapped: "hydrated_mapping_ok D m \<and> m_slug m \<in> um_id ` set models" if "m \<in> set (uc_mappings catalog)" for m
    using mappings_from_catalog_ok(1) [OF D] that by (simp add: catalog)
  show "provider_ok D p'" if "provider_ok D p"
    using extends_reviewed_ok [OF merge_extends_reviewed [OF D fetched] _ that] mapped ids(2)
    unfolding p'_def by (fastforce simp: new_mappings_def)
  show "provider_prices_ok D p'" if "provider_prices_ok D p"
    using that mapped mappings_from_catalog_ok(2) [OF D ids(1), folded catalog] unfolding p'_def
    by (auto simp: provider_prices_ok_def new_mappings_def distinct_map_filter hydrated_mapping_ok_def
        not_in_image_iff)
qed

lemma hydrate_keeps_ok:
  assumes "decimal_laws D" and "catalogs_wellformed send"
  shows "list_all2 (\<lambda>p p'. extends_reviewed D p p' \<and> (provider_ok D p \<longrightarrow> provider_ok D p') \<and>
       (provider_prices_ok D p \<longrightarrow> provider_prices_ok D p'))
     (r_providers r) (r_providers (hydrate_upstream_coverage D send r))"
  unfolding hydrate_upstream_coverage_def
proof (rule hydrate_sources_rel, goal_cases)
  case 1
  show ?case by (simp add: extends_reviewed_refl)
next
  case (2 p q s)
  then show ?case using extends_reviewed_trans by blast
next
  case (3 n p url catalog)
  then show ?case
    using merge_extends_reviewed [OF assms(1) 3(2)] merge_keeps_ok [OF assms 3(2)] by blast
qed

lemma hydrate_registry_ok:
  assumes D: "decimal_laws D" and w: "catalogs_wellformed send"
    and ok: "registry_ok D r" "\<forall>p \<in> set (enabled_providers r). provider_prices_ok D p"
  defines "r' \<equiv> hydrate_upstream_coverage D send r"
  shows "registry_ok D r'" and "\<forall>p \<in> set (enabled_providers r'). provider_prices_ok D p"
proof -
  have rel: "list_all2 (\<lambda>p p'. extends_reviewed D p p' \<and> (provider_ok D p \<longrightarrow> provider_ok D p') \<and>
      (provider_prices_ok D p \<longrightarrow> provider_prices_ok D p')) (r_providers r) (r_providers r')"
    unfolding r'_def by (rule hydrate_keeps_ok [OF D w])
  have "list_all2 (\<lambda>p p'. p_id p = p_id p') (r_providers r) (r_providers r')"
    using rel by (rule list_all2_mono) (auto simp: extends_reviewed_def)
  then have "map p_id (r_providers r') = map p_id (r_providers r)"
    by (simp add: list_all2_conv_all_nth list_eq_iff_nth_eq)
  moreover have "\<exists>p \<in> set (r_providers r). extends_reviewed D p p' \<and> provider_ok D p' \<and>
      (p_enabled p \<longrightarrow> provider_prices_ok D p')" if "p' \<in> set (r_providers r')" for p'
    using rel that ok by (fastforce simp: list_all2_conv_all_nth in_set_conv_nth registry_ok_def
        enabled_providers_def)
  ultimately show "registry_ok D r'" "\<forall>p \<in> set (enabled_providers r'). provider_prices_ok D p"
    using ok by (fastforce simp: registry_ok_def enabled_providers_def extends_reviewed_def)+
qed

lemma hydrate_price_table:
  assumes D: "decimal_laws D" and w: "catalogs_wellformed send"
    and t: "price_table_from_registry D r = Ok t"
  shows "\<exists>t'. price_table_from_registry D (hydrate_upstream_coverage D send r) = Ok t' \<and>
    (\<forall>i slug prices. price_table_get t i slug = Some prices \<longrightarrow> price_table_get t' i slug = Some prices)"
proof -
  let ?r = "hydrate_upstream_coverage D send r"
  from t have "registry_ok D r" "\<forall>p \<in> set (enabled_providers r). provider_prices_ok D p"
    by (simp_all add: price_table_from_registry_Ok [OF D])
  from hydrate_registry_ok [OF D w this] obtain t' where t': "price_table_from_registry D ?r = Ok t'"
    by (auto simp: price_table_from_registry_Ok [OF D])
  moreover have ext: "\<exists>p' \<in> set (r_providers ?r). extends_reviewed D p p'" if "p \<in> set (r_providers r)" for p
    using hydrate_keeps_ok [OF D w, of r] that by (fastforce simp: list_all2_conv_all_nth in_set_conv_nth)
  have "price_table_get t' i slug = Some prices" if get: "price_table_get t i slug = Some prices" for i slug prices
  proof -
    from get obtain p m where p: "p \<in> set (r_providers r)" "p_enabled p" "p_id p = i"
      and m: "m \<in> set (p_models p)" "m_slug m = slug" "prices = mapping_prices m"
      unfolding price_table_get_reviewed [OF D t] by blast
    from ext [OF p(1)] obtain p' where p': "p' \<in> set (r_providers ?r)" "extends_reviewed D p p'"
      by blast
    then have "p_enabled p'" "p_id p' = i" "m \<in> set (p_models p')"
      using p m by (auto simp: extends_reviewed_def)
    with p'(1) m show ?thesis
      unfolding price_table_get_reviewed [OF D t'] by blast
  qed
  ultimately show ?thesis by blast
qed

text \<open>C24: Hydration never costs the service its start: when the reviewed registry alone would
  have started (it validates and its price table builds), and every catalog that decodes lists
  distinct non-blank model ids, then the hydrated registry loads, its price table builds, and
  every reviewed price is still the price looked up.\<close>

theorem hydration_keeps_service_startable:
  assumes "decimal_laws D" and "catalogs_wellformed send"
    and "read_file path = Some content" and "from_yaml content = Some r"
    and "price_table_from_registry D r = Ok t"
  shows "\<exists>r' t'. load_registry D read_file from_yaml send path = Ok r' \<and>
    price_table_from_registry D r' = Ok t' \<and>
    (\<forall>i slug prices. price_table_get t i slug = Some prices \<longrightarrow> price_table_get t' i slug = Some prices)"
proof -
  from hydrate_price_table [OF assms(1,2,5)] obtain t' where
    t': "price_table_from_registry D (hydrate_upstream_coverage D send r) = Ok t'"
    and kept: "\<forall>i slug prices. price_table_get t i slug = Some prices \<longrightarrow> price_table_get t' i slug = Some prices"
    by blast
  then have "registry_validate D (hydrate_upstream_coverage D send r) = Ok ()"
    by (auto simp: price_table_from_registry_def split: result.splits)
  then have "load_registry D read_file from_yaml send path = Ok (hydrate_upstream_coverage D send r)"
    by (simp add: load_registry_def assms(3,4) map_err_def)
  with t' kept show ?thesis by blast
qed

lemma example_send_wellformed: "catalogs_wellformed example_send"
proof -
  have "trim ''m'' \<noteq> []" "trim ''n'' \<noteq> []" by code_simp+
  then show ?thesis
    by (auto simp: catalogs_wellformed_def example_send_def example_upstream_def split: if_splits)
qed

lemma example_hydratable_ok: "registry_ok bounded_decimal example_hydratable"
proof -
  have "trim ''Model'' \<noteq> []" by code_simp
  then show ?thesis
    by (simp add: example_hydratable_def registry_ok_def provider_ok_def mapping_ok_def
        example_provider_def example_mapping_def default_constraints_def default_completion_endpoints_def)
qed

lemma example_hydratable_prices: "\<exists>t. price_table_from_registry bounded_decimal example_hydratable = Ok t"
proof -
  have "\<forall>p \<in> set (enabled_providers example_hydratable). provider_prices_ok bounded_decimal p"
    by (simp add: example_hydratable_def enabled_providers_def provider_prices_ok_def prices_ok_def
        example_provider_def example_mapping_def bounded_decimal_def)
  with example_hydratable_ok show ?thesis
    by (simp add: price_table_from_registry_Ok [OF bounded_decimal_laws])
qed

theorem hydration_keeps_service_startable_witness:
  "\<exists>r' t'. load_registry bounded_decimal (\<lambda>_. Some []) (\<lambda>_. Some example_hydratable) example_send ''r'' = Ok r' \<and>
     price_table_from_registry bounded_decimal r' = Ok t'"
proof -
  obtain t where "price_table_from_registry bounded_decimal example_hydratable = Ok t"
    using example_hydratable_prices by blast
  from hydration_keeps_service_startable [OF bounded_decimal_laws example_send_wellformed _ _ this,
      of "\<lambda>_. Some []" "''r''" "[]" "\<lambda>_. Some example_hydratable"]
  show ?thesis by auto
qed

lemma hydrate_sources_unavailable:
  "\<forall>n url status models. send n url = Responded status (Ok models) \<longrightarrow> \<not> is_success status \<Longrightarrow>
   hydrate_sources D send n sources r = r"
proof (induction sources arbitrary: n)
  case (Cons src sources)
  obtain i url where src: "src = (i, url)" by (cases src)
  have "\<exists>e. fetch_catalog D (send n) url = Err e"
    using Cons.prems by (cases "fetch_catalog D (send n) url") (simp add: fetch_catalog_Ok, blast, blast)
  with Cons src show ?case by auto
qed simp

text \<open>C37: A catalog that cannot be fetched costs nothing: when every fetch fails to connect,
  answers with an error status or cannot be decoded, loading yields exactly the registry that
  was parsed, or the error its validation reports.\<close>

theorem unavailable_upstream_harmless:
  assumes "\<forall>n url status models. send n url = Responded status (Ok models) \<longrightarrow> \<not> is_success status"
    and "read_file path = Some content" and "from_yaml content = Some r"
  shows "load_registry D read_file from_yaml send path =
    result_bind (map_err RegistryRejected (registry_validate D r)) (\<lambda>_. Ok r)"
  by (simp add: load_registry_def hydrate_upstream_coverage_def assms(2,3) Let_def
      hydrate_sources_unavailable [OF assms(1)])

theorem unavailable_upstream_harmless_witness:
  "load_registry bounded_decimal (\<lambda>_. Some []) (\<lambda>_. Some example_hydratable)
     (\<lambda>n url. Responded 503 (Ok [example_upstream ''m''])) ''r'' = Ok example_hydratable"
proof -
  have "registry_validate bounded_decimal example_hydratable = Ok ()"
    using example_hydratable_ok validate_providers_Ok [OF bounded_decimal_laws, of "{}" "r_providers example_hydratable"]
    by (simp add: registry_validate_def registry_ok_def)
  then show ?thesis
    by (subst unavailable_upstream_harmless [where content = "[]" and r = example_hydratable])
      (auto simp: is_success_def map_err_def)
qed

section \<open>Conversion is exact\<close>

definition price_listed :: "'d decimal_ops \<Rightarrow> string option \<Rightarrow> rat \<Rightarrow> bool" where
  "price_listed D listed q \<longleftrightarrow>
     (\<exists>s parsed. listed = Some s \<and> d_from_str D (trim s) = Some parsed \<and>
        \<not> d_is_sign_negative D parsed \<and> d_val D parsed = q)"

lemma price_per_mtok_listed:
  assumes D: "decimal_laws D" and "price_per_mtok D listed = Some c"
  shows "\<exists>q. price_listed D listed q \<and> (dec_representable (q * 1000000) \<longrightarrow> d_val D c = q * 1000000)"
proof -
  from assms(2) obtain s parsed where "listed = Some s" "d_from_str D (trim s) = Some parsed"
    "\<not> d_is_sign_negative D parsed"
    by (auto simp: price_per_mtok_def bind_eq_Some_conv split: if_splits)
  moreover from price_per_mtok_Some [OF assms]
  have "dec_result D (d_val D parsed * 1000000) (Some c)"
    using calculation by (metis option.inject)
  ultimately show ?thesis
    unfolding price_listed_def by (auto dest!: dec_result_exact dest: dec_representable_le)
qed

lemma price_per_mtok_total:
  assumes D: "decimal_laws D" and "price_listed D listed q" and "q * 1000000 \<le> dec_max"
  shows "\<exists>c. price_per_mtok D listed = Some c"
proof -
  from assms(2) obtain s parsed where s: "listed = Some s" "d_from_str D (trim s) = Some parsed"
    "\<not> d_is_sign_negative D parsed" and q: "d_val D parsed = q"
    by (auto simp: price_listed_def)
  have "0 \<le> q"
    using d_sign_negative_val [OF D, of parsed] s(3) q by force
  moreover have "d_val D (d_of_nat D TOKENS_PER_MILLION) = 1000000"
    using d_of_nat_val [OF D, of TOKENS_PER_MILLION] by (simp add: TOKENS_PER_MILLION_def)
  ultimately obtain c where "d_checked_mul D parsed (d_of_nat D TOKENS_PER_MILLION) = Some c"
    using d_mul_result [OF D, of parsed "d_of_nat D TOKENS_PER_MILLION"] assms(3) q
    by (auto dest!: dec_result_total)
  with s show ?thesis by (simp add: price_per_mtok_def)
qed

text \<open>C36: An upstream model that names itself is taken only when it lists prompt and completion
  prices that parse as decimals without a minus sign and a positive context length, and always
  when the prices per million tokens also fit a decimal. Its mapping carries the listed per-token
  prices times a million, exactly whenever a decimal can hold the product, and the same for the
  cache-read price when one is listed; it has the model's own name, its id as slug and as upstream
  model id, its context length, and no constraints. (The code also takes a model without a display
  name, under its id, where its documentation says such models are dropped; this is left open.)\<close>

theorem mapping_from_model_exact:
  assumes "decimal_laws D" and "um_pricing model = Some pricing"
    and "um_name model = Some name" and "trim name \<noteq> []"
  shows "(\<forall>m. mapping_from_model D model = Some m \<longrightarrow>
       (\<exists>p c. price_listed D (up_prompt pricing) p \<and> price_listed D (up_completion pricing) c \<and>
          (dec_representable (p * 1000000) \<longrightarrow> d_val D (m_input_price_per_mtok m) = p * 1000000) \<and>
          (dec_representable (c * 1000000) \<longrightarrow> d_val D (m_output_price_per_mtok m) = c * 1000000)) \<and>
       (case m_cached_input_price_per_mtok m of
          None \<Rightarrow> \<not> (\<exists>q. price_listed D (up_input_cache_read pricing) q \<and> q * 1000000 \<le> dec_max)
        | Some cached \<Rightarrow> \<exists>q. price_listed D (up_input_cache_read pricing) q \<and>
            (dec_representable (q * 1000000) \<longrightarrow> d_val D cached = q * 1000000)) \<and>
       um_context_length model = Some (m_context_length m) \<and> 0 < m_context_length m \<and>
       m_slug m = um_id model \<and> m_provider_model_id m = um_id model \<and> m_name m = name \<and>
       m_request_constraints m = default_constraints) \<and>
     (\<forall>p c len. price_listed D (up_prompt pricing) p \<and> price_listed D (up_completion pricing) c \<and>
        p * 1000000 \<le> dec_max \<and> c * 1000000 \<le> dec_max \<and>
        um_context_length model = Some len \<and> 0 < len \<longrightarrow> mapping_from_model D model \<noteq> None)"
proof (intro conjI allI impI)
  fix m assume m: "mapping_from_model D model = Some m"
  then obtain i out len where parts: "price_per_mtok D (up_prompt pricing) = Some i"
    "price_per_mtok D (up_completion pricing) = Some out"
    "um_context_length model = Some len" "0 < len" and m_eq: "m_input_price_per_mtok m = i"
      "m_output_price_per_mtok m = out" "m_context_length m = len" "m_name m = name"
      "m_cached_input_price_per_mtok m = price_per_mtok D (up_input_cache_read pricing)"
    using assms(2-4) by (auto simp: mapping_from_model_def bind_eq_Some_conv Let_def option_filter_def
        split: option.splits if_splits)
  show "\<exists>p c. price_listed D (up_prompt pricing) p \<and> price_listed D (up_completion pricing) c \<and>
      (dec_representable (p * 1000000) \<longrightarrow> d_val D (m_input_price_per_mtok m) = p * 1000000) \<and>
      (dec_representable (c * 1000000) \<longrightarrow> d_val D (m_output_price_per_mtok m) = c * 1000000)"
    using price_per_mtok_listed [OF assms(1)] parts(1,2) m_eq by blast
  show "case m_cached_input_price_per_mtok m of
      None \<Rightarrow> \<not> (\<exists>q. price_listed D (up_input_cache_read pricing) q \<and> q * 1000000 \<le> dec_max)
    | Some cached \<Rightarrow> \<exists>q. price_listed D (up_input_cache_read pricing) q \<and>
        (dec_representable (q * 1000000) \<longrightarrow> d_val D cached = q * 1000000)"
  proof (cases "price_per_mtok D (up_input_cache_read pricing)")
    case None
    then show ?thesis using price_per_mtok_total [OF assms(1)] by (simp add: m_eq(5)) (metis option.distinct(1))
  next
    case (Some cached)
    with price_per_mtok_listed [OF assms(1) Some] show ?thesis by (simp add: m_eq(5))
  qed
  show "um_context_length model = Some (m_context_length m)" "m_slug m = um_id model" "m_name m = name"
    "0 < m_context_length m" "m_request_constraints m = default_constraints"
    "m_provider_model_id m = um_id model"
    using mapping_from_model_ok [OF assms(1) m] parts m_eq by (simp_all add: hydrated_mapping_ok_def)
next
  fix p c len
  assume a: "price_listed D (up_prompt pricing) p \<and> price_listed D (up_completion pricing) c \<and>
    p * 1000000 \<le> dec_max \<and> c * 1000000 \<le> dec_max \<and> um_context_length model = Some len \<and> 0 < len"
  then obtain i out where "price_per_mtok D (up_prompt pricing) = Some i"
    "price_per_mtok D (up_completion pricing) = Some out"
    using price_per_mtok_total [OF assms(1)] by meson
  with a assms(2) show "mapping_from_model D model \<noteq> None"
    by (simp add: mapping_from_model_def option_filter_def Let_def)
qed

definition named_upstream :: upstream_model where
  "named_upstream = example_upstream ''m'' \<lparr>um_name := Some ''Model''\<rparr>"

theorem mapping_from_model_exact_witness:
  "\<exists>m. mapping_from_model bounded_decimal named_upstream = Some m \<and> m_name m = ''Model''"
proof -
  have "price_listed bounded_decimal (Some ''0'') 0"
  proof -
    have "trim ''0'' = ''0''" by code_simp
    then show ?thesis by (simp add: price_listed_def bounded_decimal_def)
  qed
  moreover have "trim ''Model'' \<noteq> []" by code_simp
  ultimately show ?thesis
    using mapping_from_model_exact [OF bounded_decimal_laws, of named_upstream example_pricing "''Model''"]
    by (fastforce simp: named_upstream_def example_upstream_def example_pricing_def dec_max_def)
qed

end
