(* ===== verification/Sidecar_Config.thy ===== *)
theory Sidecar_Config
  imports Registry
begin

text \<open>
  Compiling the registry into the sidecar's configuration (\<open>src/sidecar_config.rs\<close>). Rendering
  the configuration as YAML is \<open>serde_yaml\<close>'s work and an argument; socket addresses are their
  text.
\<close>

section \<open>The configuration\<close>

type_synonym u16 = "16 word"
type_synonym u32 = "32 word"

record sidecar_config_options =
  so_llm_port :: u16
  so_admin_addr :: "string option"
  so_stats_addr :: "string option"
  so_readiness_addr :: string
  so_enable_ipv6 :: bool

definition default_options :: sidecar_config_options where
  "default_options =
     \<lparr>so_llm_port = 4000, so_admin_addr = None, so_stats_addr = None,
      so_readiness_addr = ''127.0.0.1:19001'', so_enable_ipv6 = False\<rparr>"

record runtime_config =
  rt_admin_addr :: "string option"
  rt_stats_addr :: "string option"
  rt_readiness_addr :: string
  rt_enable_ipv6 :: bool

record header_modifier =
  hm_set :: "(string, string) bmap"

record model_params =
  mp_base_url :: string
  mp_model :: string
  mp_api_key :: string

record model_overrides =
  mo_model :: string

record eviction =
  ev_consecutive_failures :: u32
  ev_duration :: string

record health =
  h_eviction :: eviction

record model_route =
  mr_name :: string
  mr_provider :: string
  mr_params :: model_params
  mr_passthrough :: string
  mr_overrides :: model_overrides
  mr_response_headers :: header_modifier
  mr_health :: health

record virtual_target =
  vt_model :: string
  vt_priority :: u8

record failover =
  fo_targets :: "virtual_target list"

record virtual_routing =
  vr_failover :: failover

record virtual_model =
  vm_name :: string
  vm_routing :: virtual_routing

record llm_config =
  llm_port :: u16
  llm_models :: "model_route list"
  llm_virtual_models :: "virtual_model list"

record resource_name =
  rn_name :: string
  rn_namespace :: string

record policy_target =
  pt_route :: resource_name

record retry_policy =
  rp_attempts :: u8
  rp_codes :: "u16 list"
  rp_condition :: string

record route_policy =
  rop_retry :: retry_policy

record targeted_route_policy =
  tp_name :: resource_name
  tp_target :: policy_target
  tp_policy :: route_policy

record agent_gateway_config =
  ag_config :: runtime_config
  ag_llm :: llm_config
  ag_policies :: "targeted_route_policy list"

datatype ('d, 'y) sidecar_config_error = RegistryError "'d registry_validation_error" | SerializeError 'y

section \<open>Compiling\<close>

definition llm_retry :: targeted_route_policy where
  "llm_retry =
     \<lparr>tp_name = \<lparr>rn_name = ''llm-retry'', rn_namespace = ''internal''\<rparr>,
      tp_target = \<lparr>pt_route = \<lparr>rn_name = ''llm:request'', rn_namespace = ''internal''\<rparr>\<rparr>,
      tp_policy = \<lparr>rop_retry = \<lparr>rp_attempts = 2, rp_codes = [429],
        rp_condition = ''response.code >= 500 && response.code < 600''\<rparr>\<rparr>\<rparr>"

definition route_name :: "string \<Rightarrow> string \<Rightarrow> string" where
  "route_name provider_id slug = provider_id @ ''/'' @ slug"

definition model_route_new :: "'d provider \<Rightarrow> 'd model_mapping \<Rightarrow> model_route" where
  "model_route_new p m =
     \<lparr>mr_name = route_name (p_id p) (m_slug m),
      mr_provider = ''openAI'',
      mr_params = \<lparr>mp_base_url = p_base_url p, mp_model = m_provider_model_id m,
                   mp_api_key = ''$'' @ p_secret_env p\<rparr>,
      mr_passthrough = ''detect'',
      mr_overrides = \<lparr>mo_model = m_provider_model_id m\<rparr>,
      mr_response_headers = \<lparr>hm_set = [(served_provider_header, p_id p)]\<rparr>,
      mr_health = \<lparr>h_eviction = \<lparr>ev_consecutive_failures = 1, ev_duration = ''60s''\<rparr>\<rparr>\<rparr>"

text \<open>One mapping pushes its route as a target of every profile of its provider.\<close>

definition add_targets ::
  "'d provider \<Rightarrow> 'd model_mapping \<Rightarrow> (routing_profile \<times> string, virtual_target list) bmap \<Rightarrow>
   (routing_profile \<times> string, virtual_target list) bmap" where
  "add_targets p m targets =
     fold (\<lambda>profile. bm_push (profile, m_slug m)
         \<lparr>vt_model = mr_name (model_route_new p m), vt_priority = p_priority p\<rparr>)
       (profile_list p) targets"

fun add_routes ::
  "('d provider \<times> 'd model_mapping) list \<Rightarrow>
   model_route list \<times> (routing_profile \<times> string, virtual_target list) bmap \<Rightarrow>
   model_route list \<times> (routing_profile \<times> string, virtual_target list) bmap" where
  "add_routes [] acc = acc"
| "add_routes ((p, m) # rest) (models, targets) =
     add_routes rest (models @ [model_route_new p m], add_targets p m targets)"

definition deployed_mappings :: "'d registry \<Rightarrow> ('d provider \<times> 'd model_mapping) list" where
  "deployed_mappings r = concat (map (\<lambda>p. map (Pair p) (p_models p)) (enabled_providers r))"

definition virtual_model_of :: "(routing_profile \<times> string) \<times> virtual_target list \<Rightarrow> virtual_model" where
  "virtual_model_of entry =
     (case entry of ((profile, slug), targets) \<Rightarrow>
        \<lparr>vm_name = sidecar_alias profile slug,
         vm_routing = \<lparr>vr_failover = \<lparr>fo_targets =
           sort_by (\<lambda>a b. cmp_of (vt_priority a) (vt_priority b)) targets\<rparr>\<rparr>\<rparr>)"

definition build_config ::
  "'d decimal_ops \<Rightarrow> 'd registry \<Rightarrow> sidecar_config_options \<Rightarrow>
   (agent_gateway_config, 'd registry_validation_error) result" where
  "build_config D r options =
     result_bind (registry_validate D r) (\<lambda>_.
       let (models, targets) = add_routes (deployed_mappings r) ([], []) in
       Ok \<lparr>ag_config = \<lparr>rt_admin_addr = so_admin_addr options, rt_stats_addr = so_stats_addr options,
                        rt_readiness_addr = so_readiness_addr options,
                        rt_enable_ipv6 = so_enable_ipv6 options\<rparr>,
           ag_llm = \<lparr>llm_port = so_llm_port options, llm_models = models,
                     llm_virtual_models = map virtual_model_of targets\<rparr>,
           ag_policies = [llm_retry]\<rparr>)"

definition compile ::
  "'d decimal_ops \<Rightarrow> (agent_gateway_config \<Rightarrow> (bytes, 'y) result) \<Rightarrow> 'd registry \<Rightarrow>
   sidecar_config_options \<Rightarrow> (bytes, ('d, 'y) sidecar_config_error) result" where
  "compile D to_yaml r options =
     result_bind (map_err RegistryError (build_config D r options))
       (\<lambda>config. map_err SerializeError (to_yaml config))"

section \<open>Targets of an alias\<close>

definition target_of :: "'d provider \<times> 'd model_mapping \<Rightarrow> virtual_target" where
  "target_of pm = \<lparr>vt_model = route_name (p_id (fst pm)) (m_slug (snd pm)), vt_priority = p_priority (fst pm)\<rparr>"

text \<open>The deployed mappings behind one alias, in registry order.\<close>

definition alias_mappings :: "'d registry \<Rightarrow> routing_profile \<times> string \<Rightarrow> ('d provider \<times> 'd model_mapping) list" where
  "alias_mappings r key =
     filter (\<lambda>(p, m). supports p (fst key) \<and> m_slug m = snd key) (deployed_mappings r)"

definition keyed_targets :: "('d provider \<times> 'd model_mapping) list \<Rightarrow> ((routing_profile \<times> string) \<times> virtual_target) list" where
  "keyed_targets pms =
     concat (map (\<lambda>pm. map (\<lambda>profile. ((profile, m_slug (snd pm)), target_of pm)) (profile_list (fst pm))) pms)"

lemma add_targets_fold:
  "add_targets p m targets = fold (\<lambda>(k, x). bm_push k x) (keyed_targets [(p, m)]) targets"
  unfolding add_targets_def keyed_targets_def
  by (induction "profile_list p" arbitrary: targets) (simp_all add: fold_map comp_def target_of_def model_route_new_def)

lemma add_routes_eq:
  "add_routes pms (models, targets) =
   (models @ map (\<lambda>(p, m). model_route_new p m) pms, fold (\<lambda>(k, x). bm_push k x) (keyed_targets pms) targets)"
  by (induction pms arbitrary: models targets) (auto simp: add_targets_fold keyed_targets_def)

lemma keyed_targets_group:
  "map snd (filter (\<lambda>(k, _). k = key) (keyed_targets pms)) =
   map target_of (filter (\<lambda>(p, m). supports p (fst key) \<and> m_slug m = snd key) pms)"
proof (induction pms)
  case (Cons pm pms)
  obtain p m where pm: "pm = (p, m)" by (cases pm)
  have "filter (\<lambda>profile. (profile, m_slug m) = key) (profile_list p) =
      (if supports p (fst key) \<and> m_slug m = snd key then [fst key] else [])"
    by (cases key; cases "fst key") (auto simp: profile_list_def profiles_all_def supports_def)
  with Cons show ?case
    by (simp add: pm keyed_targets_def filter_map comp_def split_def)
qed (simp add: keyed_targets_def)

lemma keyed_targets_keys:
  "fst ` set (keyed_targets pms) = {(q, m_slug m) | q p m. (p, m) \<in> set pms \<and> supports p q}"
  by (force simp: keyed_targets_def supports_def)

section \<open>What the configuration promises\<close>

lemma bm_wf_targets: "bm_wf (fold (\<lambda>(k, x). bm_push k x) (keyed_targets pms) [])"
  by (rule bgroup.wf_fold_push) simp

lemma targets_get:
  "bm_get key (fold (\<lambda>(k, x). bm_push k x) (keyed_targets (deployed_mappings r)) []) =
   (if alias_mappings r key = [] then None else Some (map target_of (alias_mappings r key)))"
proof -
  have "key \<in> fst ` set (keyed_targets (deployed_mappings r)) \<longleftrightarrow> alias_mappings r key \<noteq> []"
    by (cases key) (auto simp: keyed_targets_keys alias_mappings_def filter_empty_conv)
  then show ?thesis
    using bgroup.lookup_fold_push_empty [of key "keyed_targets (deployed_mappings r)"]
    by (simp add: keyed_targets_group alias_mappings_def)
qed

lemma build_config_Ok:
  assumes "build_config D r options = Ok config"
  shows "registry_validate D r = Ok ()"
    and "llm_models (ag_llm config) = map (\<lambda>(p, m). model_route_new p m) (deployed_mappings r)"
    and "llm_virtual_models (ag_llm config) =
      map virtual_model_of (fold (\<lambda>(k, x). bm_push k x) (keyed_targets (deployed_mappings r)) [])"
    and "ag_policies config = [llm_retry]"
  using assms by (auto simp: build_config_def result_bind_Ok add_routes_eq)

interpretation target_priority: cmp_order "\<lambda>a b. cmp_of (vt_priority a) (vt_priority b)"
  by (rule cmp_order_key)

definition failover_of :: "agent_gateway_config \<Rightarrow> string \<Rightarrow> virtual_target list option" where
  "failover_of config alias =
     map_option (\<lambda>vm. fo_targets (vr_failover (vm_routing vm)))
       (find (\<lambda>vm. vm_name vm = alias) (llm_virtual_models (ag_llm config)))"

lemma failover_of_alias:
  assumes "build_config D r options = Ok config"
  shows "failover_of config (sidecar_alias profile slug) =
    (if alias_mappings r (profile, slug) = [] then None
     else Some (sort_by (\<lambda>a b. cmp_of (vt_priority a) (vt_priority b))
       (map target_of (alias_mappings r (profile, slug)))))"
proof -
  let ?m = "fold (\<lambda>(k, x). bm_push k x) (keyed_targets (deployed_mappings r)) []"
  have name: "vm_name (virtual_model_of kv) = sidecar_alias profile slug \<longleftrightarrow> fst kv = (profile, slug)" for kv
    by (cases kv) (auto simp: virtual_model_of_def sidecar_alias_inj)
  have "find (\<lambda>vm. vm_name vm = sidecar_alias profile slug) (map virtual_model_of kvs) =
      map_option (\<lambda>v. virtual_model_of ((profile, slug), v)) (bm_get (profile, slug) kvs)" for kvs
    by (induction kvs) (auto simp: bm_get_def name)
  then show ?thesis
    using targets_get [of "(profile, slug)" r]
    by (simp add: failover_of_def build_config_Ok(3) [OF assms] virtual_model_of_def)
qed

text \<open>C26: In a compiled configuration an alias of a profile and a slug exists exactly when an
  enabled provider that allows the profile maps the slug; its failover targets are then exactly
  those providers' routes of that slug in ascending priority, none of another profile's
  providers among them, and every target names a generated route that overrides the model with
  the provider's own, resolves its key from the environment and marks its responses with the
  provider's id.\<close>

theorem sidecar_alias_targets:
  assumes "build_config D r options = Ok config"
  shows "case failover_of config (sidecar_alias profile slug) of
      None \<Rightarrow> alias_mappings r (profile, slug) = []
    | Some targets \<Rightarrow> alias_mappings r (profile, slug) \<noteq> [] \<and>
        mset targets = mset (map target_of (alias_mappings r (profile, slug))) \<and>
        sorted_wrt (\<lambda>a b. vt_priority a \<le> vt_priority b) targets \<and>
        (\<forall>t \<in> set targets. \<exists>(p, m) \<in> set (deployed_mappings r). supports p profile \<and> m_slug m = slug \<and>
           vt_model t = route_name (p_id p) slug \<and>
           (\<exists>route \<in> set (llm_models (ag_llm config)). mr_name route = vt_model t \<and>
              mr_overrides route = \<lparr>mo_model = m_provider_model_id m\<rparr> \<and>
              mp_api_key (mr_params route) = ''$'' @ p_secret_env p \<and>
              bm_get served_provider_header (hm_set (mr_response_headers route)) = Some (p_id p)))"
proof (cases "alias_mappings r (profile, slug) = []")
  case True
  then show ?thesis by (simp add: failover_of_alias [OF assms])
next
  case False
  let ?targets = "sort_by (\<lambda>a b. cmp_of (vt_priority a) (vt_priority b)) (map target_of (alias_mappings r (profile, slug)))"
  have "sorted_wrt (\<lambda>a b. vt_priority a \<le> vt_priority b) ?targets"
    using target_priority.sorted_sort_by by (simp add: not_less)
  moreover have "\<exists>(p, m) \<in> set (deployed_mappings r). supports p profile \<and> m_slug m = slug \<and>
      vt_model t = route_name (p_id p) slug \<and>
      (\<exists>route \<in> set (llm_models (ag_llm config)). mr_name route = vt_model t \<and>
         mr_overrides route = \<lparr>mo_model = m_provider_model_id m\<rparr> \<and>
         mp_api_key (mr_params route) = ''$'' @ p_secret_env p \<and>
         bm_get served_provider_header (hm_set (mr_response_headers route)) = Some (p_id p))"
    if "t \<in> set ?targets" for t
  proof -
    from that obtain p m where pm: "(p, m) \<in> set (deployed_mappings r)" "supports p profile" "m_slug m = slug"
      and t: "t = target_of (p, m)"
      by (auto simp: alias_mappings_def)
    moreover have "model_route_new p m \<in> set (llm_models (ag_llm config))"
      using pm(1) by (force simp: build_config_Ok(2) [OF assms])
    ultimately show ?thesis
      by (intro bexI [of _ "(p, m)"])
        (auto simp: target_of_def model_route_new_def bm_get_def intro!: bexI [of _ "model_route_new p m"])
  qed
  ultimately show ?thesis
    using False by (simp add: failover_of_alias [OF assms] del: set_sort_by)
qed

lemma build_config_succeeds:
  assumes "decimal_laws D" and "registry_ok D r"
  shows "\<exists>config. build_config D r options = Ok config"
  using validate_providers_Ok [OF assms(1), of "{}" "r_providers r"] assms(2)
  by (simp add: build_config_def registry_validate_def registry_ok_def split: prod.split)

definition example_sidecar_registry :: "rat registry" where
  "example_sidecar_registry = \<lparr>r_providers =
     [example_provider ''a'' 1 [example_mapping ''m'' 1 2], example_provider ''b'' 0 [example_mapping ''m'' 1 2]]\<rparr>"

lemma example_sidecar_config:
  "\<exists>config. build_config bounded_decimal example_sidecar_registry default_options = Ok config"
proof -
  have "trim ''Model'' \<noteq> []" by code_simp
  then have "registry_ok bounded_decimal example_sidecar_registry"
    by (simp add: example_sidecar_registry_def registry_ok_def provider_ok_def example_provider_def mapping_ok_def
        example_mapping_def d_lt_def bounded_decimal_def cmp_of_def default_constraints_def default_completion_endpoints_def)
  then show ?thesis by (rule build_config_succeeds [OF bounded_decimal_laws])
qed

theorem sidecar_alias_targets_witness:
  "\<exists>config. build_config bounded_decimal example_sidecar_registry default_options = Ok config \<and>
     failover_of config (sidecar_alias Production ''m'') =
       Some [\<lparr>vt_model = ''b/m'', vt_priority = 0\<rparr>, \<lparr>vt_model = ''a/m'', vt_priority = 1\<rparr>]"
proof -
  obtain config where c: "build_config bounded_decimal example_sidecar_registry default_options = Ok config"
    using example_sidecar_config by blast
  have aliased: "alias_mappings example_sidecar_registry (Production, ''m'') =
      [(example_provider ''a'' 1 [example_mapping ''m'' 1 2], example_mapping ''m'' 1 2),
       (example_provider ''b'' 0 [example_mapping ''m'' 1 2], example_mapping ''m'' 1 2)]"
    by (simp add: alias_mappings_def deployed_mappings_def enabled_providers_def example_sidecar_registry_def
        example_provider_def example_mapping_def supports_def)
  from sidecar_alias_targets [OF c, of Production "''m''"] aliased obtain targets where
    t: "failover_of config (sidecar_alias Production ''m'') = Some targets"
    and m: "mset targets = {#\<lparr>vt_model = ''a/m'', vt_priority = 1\<rparr>, \<lparr>vt_model = ''b/m'', vt_priority = 0\<rparr>#}"
    and sorted: "sorted_wrt (\<lambda>a b. vt_priority a \<le> vt_priority b) targets"
    by (auto simp: target_of_def route_name_def example_provider_def example_mapping_def split: option.splits)
  have "length targets = 2" using arg_cong [OF m, of size] by simp
  then obtain x y where xy: "targets = [x, y]" by (auto simp: numeral_2_eq_2 length_Suc_conv)
  have "x = \<lparr>vt_model = ''b/m'', vt_priority = 0\<rparr> \<and> y = \<lparr>vt_model = ''a/m'', vt_priority = 1\<rparr>"
    using sorted arg_cong [OF m, of set_mset] unfolding xy by (auto simp: doubleton_eq_iff)
  with c t xy show ?thesis by blast
qed

lemma append_sep_inject:
  "x \<notin> set a \<Longrightarrow> x \<notin> set a' \<Longrightarrow> a @ x # b = a' @ x # b' \<longleftrightarrow> a = a' \<and> b = b'"
  by (induction a arbitrary: a') (case_tac a', auto)+

lemma route_name_inject:
  "CHR ''/'' \<notin> set i \<Longrightarrow> CHR ''/'' \<notin> set j \<Longrightarrow> route_name i s = route_name j t \<longleftrightarrow> i = j \<and> s = t"
  by (simp add: route_name_def append_sep_inject)

lemma distinct_concat_map:
  assumes "distinct xs" and "\<And>x. x \<in> set xs \<Longrightarrow> distinct (f x)"
    and "\<And>x y. x \<in> set xs \<Longrightarrow> y \<in> set xs \<Longrightarrow> x \<noteq> y \<Longrightarrow> set (f x) \<inter> set (f y) = {}"
  shows "distinct (concat (map f xs))"
  using assms by (induction xs) (auto simp: disjoint_iff)

text \<open>C33: When no provider id contains a slash and no enabled provider repeats a slug, every
  generated route has a name of its own and every alias a name of its own, and every route is
  subject to eviction on its first failure.\<close>

theorem sidecar_names_unambiguous:
  assumes "decimal_laws D" and config: "build_config D r options = Ok config"
    and ids: "\<forall>p \<in> set (enabled_providers r). CHR ''/'' \<notin> set (p_id p)"
    and slugs: "\<forall>p \<in> set (enabled_providers r). distinct (map m_slug (p_models p))"
  shows "distinct (map mr_name (llm_models (ag_llm config))) \<and>
    distinct (map vm_name (llm_virtual_models (ag_llm config))) \<and>
    (\<forall>route \<in> set (llm_models (ag_llm config)).
       ev_consecutive_failures (h_eviction (mr_health route)) = 1 \<and> mr_passthrough route = ''detect'')"
proof (intro conjI)
  have "registry_ok D r"
    using build_config_Ok(1) [OF config] validate_providers_Ok [OF assms(1), of "{}"]
    by (simp add: registry_validate_def registry_ok_def)
  then have d: "distinct (map p_id (enabled_providers r))"
    by (simp add: registry_ok_def enabled_providers_def distinct_map_filter)
  have "map mr_name (llm_models (ag_llm config)) =
      concat (map (\<lambda>p. map (\<lambda>m. route_name (p_id p) (m_slug m)) (p_models p)) (enabled_providers r))"
    unfolding build_config_Ok(2) [OF config] deployed_mappings_def
    by (simp add: map_concat comp_def model_route_new_def)
  moreover have "distinct (concat (map (\<lambda>p. map (\<lambda>m. route_name (p_id p) (m_slug m)) (p_models p)) (enabled_providers r)))"
  proof (rule distinct_concat_map)
    show "distinct (enabled_providers r)" using d by (simp add: distinct_map)
    show "distinct (map (\<lambda>m. route_name (p_id p) (m_slug m)) (p_models p))" if "p \<in> set (enabled_providers r)" for p
      using slugs that by (auto simp: distinct_map inj_on_def route_name_def)
    show "set (map (\<lambda>m. route_name (p_id p) (m_slug m)) (p_models p)) \<inter>
        set (map (\<lambda>m. route_name (p_id q) (m_slug m)) (p_models q)) = {}"
      if "p \<in> set (enabled_providers r)" "q \<in> set (enabled_providers r)" "p \<noteq> q" for p q
    proof -
      have "p_id p \<noteq> p_id q" using d that by (auto simp: distinct_map dest: inj_onD)
      then show ?thesis using ids that route_name_inject [of "p_id p" "p_id q"] by auto
    qed
  qed
  ultimately show "distinct (map mr_name (llm_models (ag_llm config)))" by simp
next
  let ?m = "fold (\<lambda>(k, x). bm_push k x) (keyed_targets (deployed_mappings r)) []"
  have "map vm_name (llm_virtual_models (ag_llm config)) = map (\<lambda>k. sidecar_alias (fst k) (snd k)) (map fst ?m)"
    by (simp add: build_config_Ok(3) [OF config] virtual_model_of_def comp_def split_def)
  moreover have "inj_on (\<lambda>k. sidecar_alias (fst k) (snd k)) A" for A
    by (auto simp: inj_on_def sidecar_alias_inj)
  ultimately show "distinct (map vm_name (llm_virtual_models (ag_llm config)))"
    using bm_wf_distinct [OF bm_wf_targets, of "deployed_mappings r"] by (simp only: distinct_map)
next
  show "\<forall>route \<in> set (llm_models (ag_llm config)).
      ev_consecutive_failures (h_eviction (mr_health route)) = 1 \<and> mr_passthrough route = ''detect''"
    by (auto simp: build_config_Ok(2) [OF config] model_route_new_def)
qed

theorem sidecar_names_unambiguous_witness:
  "\<exists>config. build_config bounded_decimal example_sidecar_registry default_options = Ok config \<and>
     distinct (map vm_name (llm_virtual_models (ag_llm config)))"
proof -
  obtain config where c: "build_config bounded_decimal example_sidecar_registry default_options = Ok config"
    using example_sidecar_config by blast
  from sidecar_names_unambiguous [OF bounded_decimal_laws c] c show ?thesis
    by (auto simp: enabled_providers_def example_sidecar_registry_def example_provider_def)
qed

end
