(* ===== verification/Deployment.thy ===== *)
theory Deployment
  imports Sidecar_Config
begin

text \<open>
  Writing the compiled sidecar configuration (\<open>src/deployment.rs\<close>): a temporary file beside the
  output, written, synchronized and renamed over it. The file system is a map from paths to
  contents; which of its operations fail, and how much of a failed write reaches the file, is
  the environment's choice. A path is its list of components, which is how \<open>std::path\<close>
  compares paths.
\<close>

section \<open>Paths and files\<close>

datatype path_component = RootDir | CurDir | ParentDir | Normal string

type_synonym path = "path_component list"

text \<open>\<open>Path::components\<close>: repeated separators and inner \<open>.\<close> components vanish.\<close>

fun split_slash :: "string \<Rightarrow> string list" where
  "split_slash [] = [[]]"
| "split_slash (c # cs) =
     (case split_slash cs of
        [] \<Rightarrow> [[c]]
      | part # parts \<Rightarrow> if c = CHR ''/'' then [] # part # parts else (c # part) # parts)"

definition path_component :: "string \<Rightarrow> path_component" where
  "path_component s = (if s = ''..'' then ParentDir else Normal s)"

definition path_of :: "string \<Rightarrow> path" where
  "path_of s =
     (if starts_with ''/'' s then [RootDir]
      else if s = ''.'' \<or> starts_with ''./'' s then [CurDir] else []) @
     map path_component (filter (\<lambda>part. part \<noteq> [] \<and> part \<noteq> ''.'') (split_slash s))"

definition path_file_name :: "path \<Rightarrow> string option" where
  "path_file_name p = (if p = [] then None else case last p of Normal s \<Rightarrow> Some s | _ \<Rightarrow> None)"

definition path_parent :: "path \<Rightarrow> path option" where
  "path_parent p = (if p = [] \<or> last p = RootDir then None else Some (butlast p))"

type_synonym fs = "path \<Rightarrow> bytes option"

record 'e file_env =
  fe_read_error :: "'e option"
  fe_missing_error :: 'e
  fe_exists_error :: 'e
  fe_create_error :: "'e option"
  fe_written :: "bytes \<Rightarrow> bytes"
  fe_write_error :: "'e option"
  fe_rename_error :: "'e option"
  fe_remove_fails :: bool

datatype ('d, 'y, 'e) render_error =
    InvalidOutputPath
  | ReadRegistry path 'e
  | ParseRegistry path 'y
  | Compile "('d, 'y) sidecar_config_error"
  | CreateOutput path 'e
  | WriteOutput path 'e
  | PersistOutput path 'e

section \<open>The temporary output\<close>

record temporary_output =
  to_path :: path
  to_file :: bool

definition create_temporary ::
  "'e file_env \<Rightarrow> path \<Rightarrow> path \<Rightarrow> fs \<Rightarrow> fs \<times> (temporary_output, ('d, 'y, 'e) render_error) result" where
  "create_temporary E path output_path fs =
     (case (if fs path \<noteq> None then Some (fe_exists_error E) else fe_create_error E) of
        Some e \<Rightarrow> (fs, Err (CreateOutput output_path e))
      | None \<Rightarrow> (fs(path := Some []), Ok \<lparr>to_path = path, to_file = True\<rparr>))"

definition write_temporary ::
  "'e file_env \<Rightarrow> temporary_output \<Rightarrow> bytes \<Rightarrow> path \<Rightarrow> fs \<Rightarrow> fs \<times> (unit, ('d, 'y, 'e) render_error) result" where
  "write_temporary E t rendered output_path fs =
     (case fe_write_error E of
        Some e \<Rightarrow> (fs(to_path t := Some (fe_written E rendered)), Err (WriteOutput output_path e))
      | None \<Rightarrow> (fs(to_path t := Some rendered), Ok ()))"

definition drop_temporary :: "'e file_env \<Rightarrow> temporary_output \<Rightarrow> fs \<Rightarrow> fs" where
  "drop_temporary E t fs =
     (if (to_file t \<or> fs (to_path t) \<noteq> None) \<and> \<not> fe_remove_fails E then fs(to_path t := None) else fs)"

definition persist_temporary ::
  "'e file_env \<Rightarrow> temporary_output \<Rightarrow> path \<Rightarrow> fs \<Rightarrow> fs \<times> (unit, ('d, 'y, 'e) render_error) result" where
  "persist_temporary E t output_path fs =
     (let t' = t\<lparr>to_file := False\<rparr> in
      case fe_rename_error E of
        Some e \<Rightarrow> (drop_temporary E t' fs, Err (PersistOutput output_path e))
      | None \<Rightarrow>
          let renamed = (if to_path t' = output_path then fs
                         else fs(output_path := fs (to_path t'), to_path t' := None))
          in (drop_temporary E t' renamed, Ok ()))"

section \<open>Rendering\<close>

definition temporary_name :: "string \<Rightarrow> string" where
  "temporary_name uuid = ''.seren-router-sidecar-'' @ uuid @ ''.tmp''"

definition output_directory :: "path \<Rightarrow> path" where
  "output_directory output_path =
     unwrap_or [CurDir] (option_filter (\<lambda>p. p \<noteq> []) (path_parent output_path))"

definition write_sidecar_config ::
  "'d decimal_ops \<Rightarrow> (agent_gateway_config \<Rightarrow> (bytes, 'y) result) \<Rightarrow> 'e file_env \<Rightarrow> string \<Rightarrow>
   'd registry \<Rightarrow> path \<Rightarrow> fs \<Rightarrow> fs \<times> (unit, ('d, 'y, 'e) render_error) result" where
  "write_sidecar_config D to_yaml E uuid r output_path fs =
     (if output_path = [] \<or> path_file_name output_path = None then (fs, Err InvalidOutputPath)
      else case compile D to_yaml r default_options of
        Err e \<Rightarrow> (fs, Err (Compile e))
      | Ok rendered \<Rightarrow>
          (case create_temporary E (output_directory output_path @ [Normal (temporary_name uuid)]) output_path fs of
             (fs1, Err e) \<Rightarrow> (fs1, Err e)
           | (fs1, Ok t) \<Rightarrow>
               (case write_temporary E t rendered output_path fs1 of
                  (fs2, Err e) \<Rightarrow> (drop_temporary E t fs2, Err e)
                | (fs2, Ok _) \<Rightarrow> persist_temporary E t output_path fs2)))"

definition render_sidecar_config ::
  "'d decimal_ops \<Rightarrow> (bytes \<Rightarrow> ('d registry, 'y) result) \<Rightarrow> (agent_gateway_config \<Rightarrow> (bytes, 'y) result) \<Rightarrow>
   'e file_env \<Rightarrow> string \<Rightarrow> path \<Rightarrow> path \<Rightarrow> fs \<Rightarrow> fs \<times> (unit, ('d, 'y, 'e) render_error) result" where
  "render_sidecar_config D from_yaml to_yaml E uuid registry_path output_path fs =
     (if output_path = [] \<or> path_file_name output_path = None then (fs, Err InvalidOutputPath)
      else case (case fe_read_error E of Some e \<Rightarrow> Err e | None \<Rightarrow> ok_or (fe_missing_error E) (fs registry_path)) of
        Err e \<Rightarrow> (fs, Err (ReadRegistry registry_path e))
      | Ok content \<Rightarrow>
          (case from_yaml content of
             Err e \<Rightarrow> (fs, Err (ParseRegistry registry_path e))
           | Ok r \<Rightarrow> write_sidecar_config D to_yaml E uuid r output_path fs))"

section \<open>The output is replaced atomically\<close>

lemma temporary_beside_output:
  assumes "path_file_name output_path \<noteq> None" and "path_file_name output_path \<noteq> Some (temporary_name uuid)"
  shows "output_directory output_path @ [Normal (temporary_name uuid)] \<noteq> output_path"
proof
  assume "output_directory output_path @ [Normal (temporary_name uuid)] = output_path"
  then have "path_file_name output_path = path_file_name (output_directory output_path @ [Normal (temporary_name uuid)])"
    by simp
  with assms(2) show False by (simp add: path_file_name_def)
qed

text \<open>From the creation of a fresh temporary file on.\<close>

lemma replace_through_temporary:
  assumes "fs temporary = None" and "temporary \<noteq> output_path"
    and run: "(case create_temporary E temporary output_path fs of
        (fs1, Err e) \<Rightarrow> (fs1, Err e)
      | (fs1, Ok t) \<Rightarrow>
          (case write_temporary E t rendered output_path fs1 of
             (fs2, Err e) \<Rightarrow> (drop_temporary E t fs2, Err e)
           | (fs2, Ok _) \<Rightarrow> persist_temporary E t output_path fs2)) = (fs', answer)"
  shows "case answer of
      Ok _ \<Rightarrow> fs' = fs(output_path := Some rendered)
    | Err _ \<Rightarrow> (\<forall>p. p \<noteq> temporary \<longrightarrow> fs' p = fs p) \<and> fs' output_path = fs output_path \<and>
               (\<not> fe_remove_fails E \<longrightarrow> fs' = fs)"
proof -
  have restored: "fs(temporary := None) = fs"
    using assms(1) by (simp add: fun_eq_iff)
  have written: "(fs(temporary := c))(output_path := d, temporary := None) = fs(output_path := d)" for c d
    using assms(1,2) by (auto simp: fun_eq_iff)
  show ?thesis
    using run assms(1,2)
    by (cases "fe_create_error E"; cases "fe_write_error E"; cases "fe_rename_error E")
      (auto simp: create_temporary_def write_temporary_def drop_temporary_def persist_temporary_def
        Let_def restored written split: if_splits)
qed

text \<open>C22: Rendering replaces the output atomically: after a success the output holds the complete
  rendering, every other file is as it was and no temporary file is left; after a failure the
  output and every file but the temporary one are as they were, and when removing files works the
  temporary one is gone too.\<close>

theorem write_sidecar_config_atomic:
  assumes "write_sidecar_config D to_yaml E uuid r output_path fs = (fs', answer)"
    and "path_file_name output_path \<noteq> Some (temporary_name uuid)"
  defines "temporary \<equiv> output_directory output_path @ [Normal (temporary_name uuid)]"
  shows "case answer of
      Ok _ \<Rightarrow> (\<exists>rendered. compile D to_yaml r default_options = Ok rendered \<and>
                fs' = fs(output_path := Some rendered) \<and> fs temporary = None)
    | Err _ \<Rightarrow> (\<forall>p. p \<noteq> temporary \<longrightarrow> fs' p = fs p) \<and> fs' output_path = fs output_path \<and>
               (\<not> fe_remove_fails E \<longrightarrow> fs' = fs)"
proof (cases "output_path = [] \<or> path_file_name output_path = None")
  case True
  with assms(1) show ?thesis by (auto simp: write_sidecar_config_def)
next
  case named: False
  then have other: "temporary \<noteq> output_path"
    using temporary_beside_output [of output_path uuid] assms(2) by (simp add: temporary_def)
  show ?thesis
  proof (cases "compile D to_yaml r default_options")
    case (Err e)
    with assms(1) named show ?thesis by (auto simp: write_sidecar_config_def)
  next
    case (Ok rendered)
    show ?thesis
    proof (cases "fs temporary")
      case (Some old)
      with assms(1) named Ok show ?thesis
        by (auto simp: write_sidecar_config_def create_temporary_def temporary_def)
    next
      case None
      have "(case create_temporary E temporary output_path fs of
          (fs1, Err e) \<Rightarrow> (fs1, Err e)
        | (fs1, Ok t) \<Rightarrow>
            (case write_temporary E t rendered output_path fs1 of
               (fs2, Err e) \<Rightarrow> (drop_temporary E t fs2, Err e)
             | (fs2, Ok _) \<Rightarrow> persist_temporary E t output_path fs2)) = (fs', answer)"
        using assms(1) named Ok by (simp add: write_sidecar_config_def temporary_def)
      from replace_through_temporary [OF None other this] show ?thesis
        using Ok None by (simp split: result.splits)
    qed
  qed
qed

definition example_file_env :: "string file_env" where
  "example_file_env =
     \<lparr>fe_read_error = None, fe_missing_error = ''missing'', fe_exists_error = ''exists'',
      fe_create_error = None, fe_written = take 1, fe_write_error = Some ''disk full'',
      fe_rename_error = None, fe_remove_fails = False\<rparr>"

theorem write_sidecar_config_atomic_witness:
  "fst (write_sidecar_config bounded_decimal (\<lambda>_. Ok ''config'' :: (bytes, unit) result) example_file_env ''u''
     example_sidecar_registry [Normal ''out''] [[Normal ''out''] \<mapsto> ''old'']) [Normal ''out''] = Some ''old''"
proof -
  let ?run = "write_sidecar_config bounded_decimal (\<lambda>_. Ok ''config'' :: (bytes, unit) result) example_file_env ''u''
     example_sidecar_registry [Normal ''out''] [[Normal ''out''] \<mapsto> ''old'']"
  have "snd ?run \<noteq> Ok ()"
    by (auto simp: write_sidecar_config_def example_file_env_def create_temporary_def write_temporary_def
        path_file_name_def output_directory_def path_parent_def option_filter_def temporary_name_def
        split: result.splits)
  then obtain e where "?run = (fst ?run, Err e)"
    by (cases "snd ?run") (auto simp: prod_eq_iff)
  from write_sidecar_config_atomic [OF this] show ?thesis
    by (simp add: path_file_name_def temporary_name_def)
qed

end
