(* ===== verification/Service.thy ===== *)
theory Service
  imports Server Proxy Gateway_Auth Config Catalog Upstream_Catalog Deployment
begin

text \<open>
  The service put together: start-up and command dispatch (\<open>src/main.rs\<close>), the route table
  (\<open>src/routes.rs\<close>) and what happens to a request. Code that is not this repository's is the
  record \<open>outside\<close>, except what changes from request to request (the sidecar's answers, the
  clock, the readiness probe), which is a \<open>moment\<close>. axum chooses the route of a request among
  the registered ones and answers itself when there is none.
\<close>

section \<open>Routes\<close>

definition hello :: response where
  "hello = \<lparr>resp_status = 200, resp_content_type = Some ''text/plain; charset=utf-8'', resp_generation_id = None,
            resp_body = RawBody ''Hello from Seren!'', resp_served = None\<rparr>"

definition public_router :: "features \<Rightarrow> route list panics" where
  "public_router ft = standard_route_policies ft [route_at ''/'' GET Hello]"

definition catalog_router :: "route list" where
  "catalog_router =
     [route_at ''/api/v1/models'' GET GetModels,
      route_at ''/api/v1/models/{author}/{slug}/endpoints'' GET GetModelEndpointsByAuthor,
      route_at ''/api/v1/models/{model}/endpoints'' GET GetModelEndpoints]"

definition protect :: "route list \<Rightarrow> route list" where
  "protect router = layered Authorize router"

definition protected_router :: "features \<Rightarrow> route list panics" where
  "protected_router ft =
     (let inference = [route_at ''/api/v1/chat/completions'' POST ChatCompletions,
                       route_at ''/api/v1/completions'' POST LegacyCompletions];
          generation = [route_at ''/api/v1/generation'' GET GetGeneration];
          models = catalog_router;
          compatibility = [route_at ''/api/v1/auth/key'' GET GetAuthKey, route_at ''/api/v1/credits'' GET GetCredits]
      in do { inference \<leftarrow> inference_route_policies ft inference;
              generation \<leftarrow> standard_route_policies ft generation;
              models \<leftarrow> standard_route_policies ft models;
              compatibility \<leftarrow> standard_route_policies ft compatibility;
              Some (protect (inference @ generation @ models @ compatibility)) })"

text \<open>\<open>public_router().merge(protected_router(..))\<close>, as \<open>serve\<close> listens with it.\<close>

definition app_routes :: "features \<Rightarrow> route list panics" where
  "app_routes ft =
     do { public \<leftarrow> public_router ft; protected \<leftarrow> protected_router ft; serve_routes ft (public @ protected) }"

text \<open>The same routes class by class, with their layers.\<close>

definition inference_routes :: "route list" where
  "inference_routes =
     [route_at ''/api/v1/chat/completions'' POST ChatCompletions, route_at ''/api/v1/completions'' POST LegacyCompletions]"

definition account_routes :: "route list" where
  "account_routes =
     [route_at ''/api/v1/generation'' GET GetGeneration] @ catalog_router @
     [route_at ''/api/v1/auth/key'' GET GetAuthKey, route_at ''/api/v1/credits'' GET GetCredits]"

definition probe_routes :: "route list" where
  "probe_routes = [route_at ''/livez'' GET Livez, route_at ''/readyz'' GET Readyz]"

abbreviation standard_layers :: "features \<Rightarrow> layer list" where
  "standard_layers ft \<equiv> policy_layers ft STANDARD_REQUEST_TIMEOUT STANDARD_PAYLOAD_SIZE_BYTES"

abbreviation inference_layers :: "features \<Rightarrow> layer list" where
  "inference_layers ft \<equiv> policy_layers ft INFERENCE_REQUEST_TIMEOUT INFERENCE_PAYLOAD_SIZE_BYTES"

lemma health_router_eq: "health_router ft = Some (wrapped (standard_layers ft) probe_routes)"
  by (simp add: health_router_def standard_route_policies_eq probe_routes_def)

lemma app_routes_eq:
  "app_routes ft = Some
     (wrapped (outer_layers ft @ inner_layers ft)
        (wrapped (standard_layers ft) [route_at ''/'' GET Hello] @
         wrapped (Authorize # inference_layers ft) inference_routes @
         wrapped (Authorize # standard_layers ft) account_routes @
         wrapped (standard_layers ft) probe_routes) @
      (if ft_metrics ft then wrapped (outer_layers ft) [route_at METRICS_ROUTE GET Metrics] else []))"
  unfolding app_routes_def public_router_def protected_router_def protect_def Let_def
    standard_route_policies_eq inference_route_policies_eq bind.bind_lunit
    serve_routes_eq [OF health_router_eq]
  by (simp add: inference_routes_def account_routes_def catalog_router_def layered_wrapped)

text \<open>What guards a route: panics are caught outside everything else; the credential is checked
  exactly on the API's routes, before anything that reads the body; each class has its timeout
  and, with \<open>payload-limit\<close>, its size.\<close>

definition guarded :: "features \<Rightarrow> route \<Rightarrow> bool" where
  "guarded ft r \<longleftrightarrow>
     (\<exists>outer inner. ro_layers r = CatchPanic # outer @ inner \<and>
        (if ro_handler r \<in> {Hello, Livez, Readyz, Metrics} then Authorize \<notin> set outer
         else last outer = Authorize \<and> outer \<noteq> []) \<and>
        Authorize \<notin> set inner \<and> (\<forall>n. RequestBodyLimit n \<notin> set outer) \<and>
        inner = (if ro_handler r = Metrics then []
          else let inference = ro_handler r \<in> {ChatCompletions, LegacyCompletions}
               in (if ft_payload_limit ft
                   then [RequestBodyLimit (if inference then 20 * 1048576 else 1048576), DisableDefaultBodyLimit]
                   else []) @
                  [Timeout 408 ((if inference then 600 else 30) * 10 ^ 9)]))"

lemma guarded_wrapped:
  assumes "\<forall>q \<in> set rs. ro_layers q = [] \<and> (ro_handler q \<in> {Hello, Livez, Readyz} \<longleftrightarrow> auth = []) \<and>
      (ro_handler q \<in> {ChatCompletions, LegacyCompletions} \<longleftrightarrow> inference) \<and> ro_handler q \<noteq> Metrics"
    and "auth \<in> {[], [Authorize]}"
    and "layers = (if inference then inference_layers ft else standard_layers ft)"
    and "r \<in> set (wrapped ((outer_layers ft @ inner_layers ft) @ auth @ layers) rs)"
  shows "guarded ft r \<and> (Authorize \<notin> set (ro_layers r) \<longleftrightarrow> auth = [])"
proof -
  from assms(1,4) have layers: "ro_layers r = outer_layers ft @ inner_layers ft @ auth @ layers"
    and h: "ro_handler r \<in> {Hello, Livez, Readyz} \<longleftrightarrow> auth = []" "ro_handler r \<noteq> Metrics"
      "ro_handler r \<in> {ChatCompletions, LegacyCompletions} \<longleftrightarrow> inference"
    by (auto simp: wrapped_def)
  have inner: "layers = (if ft_payload_limit ft
        then [RequestBodyLimit (if inference then 20 * 1048576 else 1048576), DisableDefaultBodyLimit] else []) @
      [Timeout 408 ((if inference then 600 else 30) * 10 ^ 9)]"
    by (simp add: assms(3) policy_layers_def STANDARD_REQUEST_TIMEOUT_def INFERENCE_REQUEST_TIMEOUT_def
        nanos_per_sec_def INFERENCE_PAYLOAD_SIZE_BYTES_def STANDARD_PAYLOAD_SIZE_BYTES_def)
  let ?outer = "tl (outer_layers ft) @ inner_layers ft @ auth"
  have outer: "ro_layers r = CatchPanic # ?outer @ layers"
    "set (outer_layers ft) \<inter> {Authorize} = {}" "set (inner_layers ft) \<inter> {Authorize} = {}"
    "\<forall>n. RequestBodyLimit n \<notin> set (tl (outer_layers ft) @ inner_layers ft)" "Authorize \<notin> set (tl (outer_layers ft))"
    by (auto simp: layers outer_layers_def inner_layers_def)
  have "Authorize \<notin> set layers" by (simp add: inner)
  moreover have "if ro_handler r \<in> {Hello, Livez, Readyz, Metrics} then Authorize \<notin> set ?outer
      else last ?outer = Authorize \<and> ?outer \<noteq> []"
    using h assms(2) outer by auto
  moreover have "\<forall>n. RequestBodyLimit n \<notin> set ?outer" using outer(4) assms(2) by auto
  ultimately have "guarded ft r"
    unfolding guarded_def using outer(1) h inner
    by (intro exI [of _ ?outer] exI [of _ layers]) (simp add: Let_def)
  with \<open>Authorize \<notin> set layers\<close> outer layers assms(2) show ?thesis by auto
qed

lemma served_routes_cases:
  assumes "app_routes ft = Some routes" and "r \<in> set routes"
  shows "guarded ft r \<and> (Authorize \<notin> set (ro_layers r) \<longleftrightarrow>
    ro_path r \<in> {''/'', ''/livez'', ''/readyz''} \<union> (if ft_metrics ft then {''/metrics''} else {}))"
proof -
  let ?around = "outer_layers ft @ inner_layers ft"
  note routes = inference_routes_def account_routes_def catalog_router_def probe_routes_def METRICS_ROUTE_def
  consider (public) "r \<in> set (wrapped (?around @ [] @ standard_layers ft) (route_at ''/'' GET Hello # probe_routes))"
    | (inference) "r \<in> set (wrapped (?around @ [Authorize] @ inference_layers ft) inference_routes)"
    | (account) "r \<in> set (wrapped (?around @ [Authorize] @ standard_layers ft) account_routes)"
    | (metrics) "ft_metrics ft" "r \<in> set (wrapped (outer_layers ft) [route_at METRICS_ROUTE GET Metrics])"
    using assms by (auto simp: app_routes_eq split: if_splits)
  then show ?thesis
  proof cases
    case public
    then have "ro_path r \<in> {''/'', ''/livez'', ''/readyz''}" by (auto simp: probe_routes_def)
    with guarded_wrapped [OF _ _ _ public, of False] show ?thesis by (auto simp: probe_routes_def)
  next
    case inference
    then have "ro_path r \<notin> {''/'', ''/livez'', ''/readyz'', ''/metrics''}" by (auto simp: routes)
    with guarded_wrapped [OF _ _ _ inference, of True] show ?thesis by (auto simp: routes)
  next
    case account
    then have "ro_path r \<notin> {''/'', ''/livez'', ''/readyz'', ''/metrics''}" by (auto simp: routes)
    with guarded_wrapped [OF _ _ _ account, of False] show ?thesis by (auto simp: routes)
  next
    case metrics
    then have r: "ro_layers r = outer_layers ft" "ro_handler r = Metrics" "ro_path r = ''/metrics''"
      by (simp_all add: METRICS_ROUTE_def)
    have "guarded ft r"
      unfolding guarded_def using r
      by (intro exI [of _ "tl (outer_layers ft)"] exI [of _ "[]"]) (auto simp: outer_layers_def)
    with r metrics(1) show ?thesis by (simp add: outer_layers_def)
  qed
qed

text \<open>C10: The service registers each path once, and every route it listens on is guarded, whatever
  features it is built with: panics are caught outside every other layer, every API route checks
  the credential before its body is read and no other route does, and each class has its timeout
  and, when payloads are limited, its size.\<close>

theorem served_routes_guarded:
  "\<exists>routes. app_routes ft = Some routes \<and> distinct (map ro_path routes) \<and>
     (\<forall>r \<in> set routes. guarded ft r \<and> (Authorize \<notin> set (ro_layers r) \<longleftrightarrow>
        ro_path r \<in> {''/'', ''/livez'', ''/readyz''} \<union> (if ft_metrics ft then {''/metrics''} else {})))"
proof -
  obtain routes where routes: "app_routes ft = Some routes" by (simp add: app_routes_eq)
  moreover have "distinct (map ro_path routes)"
    using routes by (auto simp: app_routes_eq inference_routes_def account_routes_def catalog_router_def
        probe_routes_def METRICS_ROUTE_def)
  ultimately show ?thesis using served_routes_cases by blast
qed

theorem served_routes_guarded_witness:
  "\<forall>ft. \<exists>routes r. app_routes ft = Some routes \<and> r \<in> set routes \<and> ro_handler r = ChatCompletions \<and> guarded ft r \<and>
     Authorize \<in> set (ro_layers r)"
proof
  fix ft
  obtain routes where routes: "app_routes ft = Some routes"
    and all: "\<forall>r \<in> set routes. guarded ft r \<and> (Authorize \<notin> set (ro_layers r) \<longleftrightarrow>
        ro_path r \<in> {''/'', ''/livez'', ''/readyz''} \<union> (if ft_metrics ft then {''/metrics''} else {}))"
    using served_routes_guarded by blast
  let ?r = "route_at ''/api/v1/chat/completions'' POST ChatCompletions"
  let ?layers = "outer_layers ft @ inner_layers ft @ Authorize # inference_layers ft"
  have "?r\<lparr>ro_layers := ?layers\<rparr> \<in> set routes"
    using routes by (auto simp: app_routes_eq inference_routes_def)
  with routes all show "\<exists>routes r. app_routes ft = Some routes \<and> r \<in> set routes \<and> ro_handler r = ChatCompletions \<and>
      guarded ft r \<and> Authorize \<in> set (ro_layers r)"
    by (intro exI [of _ routes] exI [of _ "?r\<lparr>ro_layers := ?layers\<rparr>"]) auto
qed

section \<open>Start-up\<close>

text \<open>What axum makes of a method and a path: a registered route with the path's parameters, the
  method fallback of a route registered for the path, which its layers wrap like its handler
  (\<open>Router::layer\<close>), or the answer of no route.\<close>

datatype routed = Matched route "string list" | WrongMethod route response | NoRoute response

record ('d, 'u, 'r, 'db, 'ts, 'pe) outside =
  os_decimal :: "'d decimal_ops"
  os_url :: "'u url_ops"
  os_join :: "'u \<Rightarrow> string \<Rightarrow> 'u option"
  os_rand :: "'r rand_ops"
  os_json :: json_ops
  os_to_str :: "bytes \<Rightarrow> string option"
  os_ct_eq :: "bytes \<Rightarrow> bytes \<Rightarrow> bool"
  os_pg :: "('db, 'd, 'ts, 'pe) pg_ops"
  os_ts_text :: "'ts \<Rightarrow> string"
  os_router :: "route list \<Rightarrow> http_method \<Rightarrow> string \<Rightarrow> routed"
  os_rejection :: response
  os_too_large :: response
  os_default_body_limit :: nat
  os_header_value :: "string \<Rightarrow> bytes option"
  os_metrics :: response
  os_features :: features

record ('d, 'u) service =
  sv_auth :: gateway_auth
  sv_catalog :: catalog
  sv_proxy :: "('d, 'u) proxy_state"
  sv_readiness_url :: 'u

record ('d, 'r, 'db) service_state =
  ss_shared :: "('d, 'r) shared_state"
  ss_ledger :: "'db ledger"

datatype database_url_error = DatabaseUrlRequired | DatabaseUrlEmpty

datatype ('d, 'ce, 'y, 'e) startup_error =
    CommandRejected command_error
  | InvalidConfiguration config_error
  | InvalidRegistryPath config_error
  | InvalidRegistry "'d load_error"
  | InvalidPricing "'d price_table_error"
  | DatabaseUrlRejected database_url_error
  | InvalidDatabaseUrl 'ce
  | InvalidProxy proxy_config_error
  | RenderFailed "('d, 'y, 'e) render_error"

definition gateway_auth_of :: "('d, 'u) router_config \<Rightarrow> gateway_auth" where
  "gateway_auth_of config =
     (case beta_gateway_key config of
        Some key \<Rightarrow> with_beta_key (auth_new (gateway_key config)) key
      | None \<Rightarrow> auth_new (gateway_key config))"

definition database_url :: "(string \<Rightarrow> env_var) \<Rightarrow> (string, database_url_error) result" where
  "database_url env =
     (case env ''DATABASE_URL'' of
        EnvValue url \<Rightarrow> if trim url = [] then Err DatabaseUrlEmpty else Ok (trim url)
      | _ \<Rightarrow> Err DatabaseUrlRequired)"

definition run_service ::
  "('d, 'u, 'r, 'db, 'ts, 'pe) outside \<Rightarrow> (string \<Rightarrow> ('opts, 'ce) result) \<Rightarrow> ('opts \<times> pool_options \<Rightarrow> 'db) \<Rightarrow>
   (string \<Rightarrow> env_var) \<Rightarrow> (string \<Rightarrow> bytes option) \<Rightarrow> (bytes \<Rightarrow> 'd registry option) \<Rightarrow> (nat \<Rightarrow> string \<Rightarrow> 's fetched) \<Rightarrow>
   'r \<Rightarrow> (('d, 'u) service \<times> ('d, 'r, 'db) service_state, ('d, 'ce, 'y, 'e) startup_error) result panics" where
  "run_service S from_str pool_of env read_file from_yaml send rng =
     (let D = os_decimal S in
      case config_from_env D (os_url S) (os_ct_eq S) env of
        Err e \<Rightarrow> Some (Err (InvalidConfiguration e))
      | Ok config \<Rightarrow>
     (case load_registry D read_file from_yaml send (registry_path config) of
        Err e \<Rightarrow> Some (Err (InvalidRegistry e))
      | Ok r \<Rightarrow>
          do { models \<leftarrow> catalog_from_registry D r;
               case price_table_from_registry D r of
                 Err e \<Rightarrow> Some (Err (InvalidPricing e))
               | Ok table \<Rightarrow>
              (case database_url env of
                 Err e \<Rightarrow> Some (Err (DatabaseUrlRejected e))
               | Ok url \<Rightarrow>
              (case connect_lazy from_str url of
                 Err e \<Rightarrow> Some (Err (InvalidDatabaseUrl e))
               | Ok connection \<Rightarrow>
                   do { let ledger = with_public_provider_aliases
                          (ledger_with_health (pool_of connection) health_starting) r;
                        started \<leftarrow> proxy_new D (os_url S) (os_join S) (sidecar_url config) table r (routing config) rng;
                        Some (case started of
                            Err e \<Rightarrow> Err (InvalidProxy e)
                          | Ok (proxy, routes) \<Rightarrow>
                              Ok (\<lparr>sv_auth = gateway_auth_of config, sv_catalog = models, sv_proxy = proxy,
                                   sv_readiness_url = sidecar_readiness_url config\<rparr>,
                                  \<lparr>ss_shared = \<lparr>sh_routing = routes, sh_recorder = empty_recorder\<rparr>,
                                   ss_ledger = ledger\<rparr>)) })) }))"

text \<open>The \<open>render-sidecar-config\<close> command.\<close>

definition render_command ::
  "'d decimal_ops \<Rightarrow> (agent_gateway_config \<Rightarrow> (bytes, 'y) result) \<Rightarrow> 'e file_env \<Rightarrow> string \<Rightarrow>
   (string \<Rightarrow> env_var) \<Rightarrow> (string \<Rightarrow> bytes option) \<Rightarrow> (bytes \<Rightarrow> 'd registry option) \<Rightarrow> (nat \<Rightarrow> string \<Rightarrow> 's fetched) \<Rightarrow>
   string \<Rightarrow> fs \<Rightarrow> fs \<times> (unit, ('d, 'ce, 'y, 'e) startup_error) result" where
  "render_command D to_yaml E uuid env read_file from_yaml send output_path fs =
     (case registry_path_from_env env of
        Err e \<Rightarrow> (fs, Err (InvalidRegistryPath e))
      | Ok path \<Rightarrow>
     (case load_registry D read_file from_yaml send path of
        Err e \<Rightarrow> (fs, Err (InvalidRegistry e))
      | Ok r \<Rightarrow>
     (case write_sidecar_config D to_yaml E uuid r (path_of output_path) fs of
        (fs', Err e) \<Rightarrow> (fs', Err (RenderFailed e))
      | (fs', Ok _) \<Rightarrow> (fs', Ok ()))))"

datatype ('sv, 'st, 'err) dispatched = Serving 'sv 'st | Finished fs | Failed fs 'err

definition dispatch ::
  "('d, 'u, 'r, 'db, 'ts, 'pe) outside \<Rightarrow> (string \<Rightarrow> ('opts, 'ce) result) \<Rightarrow> ('opts \<times> pool_options \<Rightarrow> 'db) \<Rightarrow>
   (agent_gateway_config \<Rightarrow> (bytes, 'y) result) \<Rightarrow> 'e file_env \<Rightarrow> string \<Rightarrow>
   (string \<Rightarrow> env_var) \<Rightarrow> (string \<Rightarrow> bytes option) \<Rightarrow> (bytes \<Rightarrow> 'd registry option) \<Rightarrow> (nat \<Rightarrow> string \<Rightarrow> 's fetched) \<Rightarrow>
   'r \<Rightarrow> string list \<Rightarrow> fs \<Rightarrow>
   (('d, 'u) service, ('d, 'r, 'db) service_state, ('d, 'ce, 'y, 'e) startup_error) dispatched panics" where
  "dispatch S from_str pool_of to_yaml E uuid env read_file from_yaml send rng args fs =
     (case parse_command args of
        Err e \<Rightarrow> Some (Failed fs (CommandRejected e))
      | Ok Serve \<Rightarrow>
          do { outcome \<leftarrow> run_service S from_str pool_of env read_file from_yaml send rng;
               Some (case outcome of Err e \<Rightarrow> Failed fs e | Ok (sv, st) \<Rightarrow> Serving sv st) }
      | Ok (RenderSidecarConfig output_path) \<Rightarrow>
          (case render_command (os_decimal S) to_yaml E uuid env read_file from_yaml send output_path fs of
             (fs', Err e) \<Rightarrow> Some (Failed fs' e)
           | (fs', Ok _) \<Rightarrow> Some (Finished fs')))"

section \<open>Requests\<close>

text \<open>\<open>mo_layer\<close> is what a layer of tower answers itself instead of passing the request on (a rate
  limit, an expired timeout).\<close>

record http_request =
  hq_method :: http_method
  hq_path :: string
  hq_headers :: headers
  hq_body :: bytes
  hq_id :: "string option"

record ('u, 'e) moment =
  mo_sidecar :: "('u, 'e) sidecar"
  mo_clock :: clock
  mo_probe :: "(nat, 'e) result"
  mo_layer :: "layer \<Rightarrow> http_request \<Rightarrow> response option"
  mo_uuid :: string
  mo_panic :: panic_payload

definition serve_completion ::
  "('d, 'u, 'r, 'db, 'ts, 'pe) outside \<Rightarrow> ('d, 'u) service \<Rightarrow> ('u, 'e) moment \<Rightarrow> ('d, 'r, 'db) service_state \<Rightarrow>
   completion_endpoint \<Rightarrow> routing_profile \<Rightarrow> bytes \<Rightarrow>
   (('d, 'r, 'db) service_state \<times> 'u upstream_request list \<times> response) panics" where
  "serve_completion S sv now st endpoint profile body =
     do { (shared, sent, answer) \<leftarrow>
            (case endpoint of Chat \<Rightarrow> chat_completions | Legacy \<Rightarrow> legacy_completions)
              (os_decimal S) (os_rand S) (os_json S) (os_to_str S) (sv_proxy sv) (mo_sidecar now) (mo_clock now)
              (ss_shared st) profile body;
          Some (st\<lparr>ss_shared := shared\<rparr>, sent, answer) }"

text \<open>A handler behind its layers: its extractors need the profile, and where the path has
  parameters those; axum refuses a request that lacks them, and a body over its default limit
  unless that was disabled.\<close>

definition run_handler ::
  "('d, 'u, 'r, 'db, 'ts, 'pe) outside \<Rightarrow> ('d, 'u) service \<Rightarrow> ('u, 'e) moment \<Rightarrow> ('d, 'r, 'db) service_state \<Rightarrow>
   route \<Rightarrow> routing_profile option \<Rightarrow> string list \<Rightarrow> http_request \<Rightarrow>
   (('d, 'r, 'db) service_state \<times> 'u upstream_request list \<times> response) panics" where
  "run_handler S sv now st r profile params request =
     (let answer = map_option (\<lambda>response. (st, [], response));
          with_profile = (\<lambda>serve. case profile of Some p \<Rightarrow> serve p | None \<Rightarrow> Some (st, [], os_rejection S));
          with_body = (\<lambda>serve. with_profile (\<lambda>p.
            if DisableDefaultBodyLimit \<notin> set (ro_layers r) \<and> os_default_body_limit S < length (hq_body request)
            then Some (st, [], os_too_large S) else serve p))
      in case ro_handler r of
        Hello \<Rightarrow> answer (Some hello)
      | Livez \<Rightarrow> answer (Some livez)
      | Readyz \<Rightarrow> answer (readyz (l_database_health (ss_ledger st)) (mo_probe now))
      | GetAuthKey \<Rightarrow> answer (Some get_auth_key)
      | GetCredits \<Rightarrow> answer (Some get_credits)
      | GetModels \<Rightarrow> with_profile (\<lambda>p. answer (get_models (sv_catalog sv) p))
      | GetModelEndpoints \<Rightarrow> with_profile (\<lambda>p. case params of
            [model] \<Rightarrow> answer (get_model_endpoints (sv_catalog sv) p model)
          | _ \<Rightarrow> answer (Some (os_rejection S)))
      | GetModelEndpointsByAuthor \<Rightarrow> with_profile (\<lambda>p. case params of
            [author, slug] \<Rightarrow> answer (get_model_endpoints_by_author (sv_catalog sv) p author slug)
          | _ \<Rightarrow> answer (Some (os_rejection S)))
      | GetGeneration \<Rightarrow> with_profile (\<lambda>p.
            do { (ledger, response) \<leftarrow> get_generation (os_decimal S) (os_json S) (os_pg S) (os_ts_text S)
                   (ss_ledger st) p (hq_id request);
                 Some (st\<lparr>ss_ledger := ledger\<rparr>, [], response) })
      | ChatCompletions \<Rightarrow> with_body (\<lambda>p. serve_completion S sv now st Chat p (hq_body request))
      | LegacyCompletions \<Rightarrow> with_body (\<lambda>p. serve_completion S sv now st Legacy p (hq_body request))
      | Metrics \<Rightarrow> answer (Some (os_metrics S)))"

text \<open>What a layer answers itself: the middleware of \<open>gateway_auth.rs\<close>, the body limit, and what the
  moment says of the others. The first layer to answer, from the outside in, does.\<close>

definition layer_answer ::
  "('d, 'u, 'r, 'db, 'ts, 'pe) outside \<Rightarrow> ('d, 'u) service \<Rightarrow> ('u, 'e) moment \<Rightarrow> http_request \<Rightarrow> layer \<Rightarrow>
   response option" where
  "layer_answer S sv now request l =
     (case l of
        Authorize \<Rightarrow>
          if authorized_profile (os_ct_eq S) (os_to_str S) (sv_auth sv) (hq_headers request) = None
          then Some unauthorized else None
      | RequestBodyLimit limit \<Rightarrow> if limit < length (hq_body request) then Some (os_too_large S) else None
      | _ \<Rightarrow> mo_layer now l request)"

fun first_answer :: "('l \<Rightarrow> 'a option) \<Rightarrow> 'l list \<Rightarrow> 'a option" where
  "first_answer f [] = None"
| "first_answer f (l # ls) = or_else (f l) (first_answer f ls)"

text \<open>Where the layers let a request through to: the route, the caller's profile and the path's
  parameters, or the answer it gets before.\<close>

definition admitted ::
  "('d, 'u, 'r, 'db, 'ts, 'pe) outside \<Rightarrow> ('d, 'u) service \<Rightarrow> ('u, 'e) moment \<Rightarrow> http_request \<Rightarrow>
   (route \<times> routing_profile option \<times> string list, response) result panics" where
  "admitted S sv now request =
     do { routes \<leftarrow> app_routes (os_features S);
          Some (case os_router S routes (hq_method request) (hq_path request) of
              NoRoute response \<Rightarrow> Err response
            | WrongMethod r response \<Rightarrow>
                Err (unwrap_or response (first_answer (layer_answer S sv now request) (ro_layers r)))
            | Matched r params \<Rightarrow>
                (case first_answer (layer_answer S sv now request) (ro_layers r) of
                   Some response \<Rightarrow> Err response
                 | None \<Rightarrow> Ok (r, if Authorize \<in> set (ro_layers r)
                     then authorized_profile (os_ct_eq S) (os_to_str S) (sv_auth sv) (hq_headers request) else None,
                     params))) }"

definition handle_request ::
  "('d, 'u, 'r, 'db, 'ts, 'pe) outside \<Rightarrow> ('d, 'u) service \<Rightarrow> ('u, 'e) moment \<Rightarrow> ('d, 'r, 'db) service_state \<Rightarrow>
   http_request \<Rightarrow> (('d, 'r, 'db) service_state \<times> 'u upstream_request list \<times> response) panics" where
  "handle_request S sv now st request =
     do { found \<leftarrow> admitted S sv now request;
          case found of
            Err response \<Rightarrow> Some (st, [], response)
          | Ok (r, profile, params) \<Rightarrow> run_handler S sv now st r profile params request }"

text \<open>What the client gets: the answer under the request's id, or the answer to a panic, which is
  outside the layer that copies the id.\<close>

datatype ('st, 'u) served = Served 'st "'u upstream_request list" response "bytes option" | PanicCaught response

definition serve_http ::
  "('d, 'u, 'r, 'db, 'ts, 'pe) outside \<Rightarrow> ('d, 'u) service \<Rightarrow> ('u, 'e) moment \<Rightarrow> ('d, 'r, 'db) service_state \<Rightarrow>
   http_request \<Rightarrow> (('d, 'r, 'db) service_state, 'u) served" where
  "serve_http S sv now st request =
     (case handle_request S sv now st request of
        Some (st', sent, response) \<Rightarrow>
          Served st' sent response (make_request_id (os_header_value S) (mo_uuid now) (hq_headers request))
      | None \<Rightarrow> PanicCaught (snd (handle_panic (mo_panic now))))"

section \<open>What a started service is made of\<close>

lemma run_service_Ok:
  assumes "run_service S from_str pool_of env read_file from_yaml send rng = Some (Ok (sv, st))"
  obtains config r routes where
    "config_from_env (os_decimal S) (os_url S) (os_ct_eq S) env = Ok config"
    "load_registry (os_decimal S) read_file from_yaml send (registry_path config) = Ok r"
    "catalog_from_registry (os_decimal S) r = Some (sv_catalog sv)"
    "sv_auth sv = gateway_auth_of config"
    "proxy_new (os_decimal S) (os_url S) (os_join S) (sidecar_url config) (px_price_table (sv_proxy sv)) r
       (routing config) rng = Some (Ok (sv_proxy sv, sh_routing (ss_shared st)))"
    "price_table_from_registry (os_decimal S) r = Ok (px_price_table (sv_proxy sv))"
    "sh_recorder (ss_shared st) = empty_recorder" "l_database_health (ss_ledger st) = health_starting"
proof -
  let ?D = "os_decimal S"
  obtain config where config: "config_from_env ?D (os_url S) (os_ct_eq S) env = Ok config"
    using assms by (cases "config_from_env ?D (os_url S) (os_ct_eq S) env") (auto simp: run_service_def)
  obtain r where r: "load_registry ?D read_file from_yaml send (registry_path config) = Ok r"
    using assms by (cases "load_registry ?D read_file from_yaml send (registry_path config)")
      (auto simp: run_service_def config)
  obtain models where models: "catalog_from_registry ?D r = Some models"
    using assms by (cases "catalog_from_registry ?D r") (auto simp: run_service_def config r Let_def)
  obtain table where table: "price_table_from_registry ?D r = Ok table"
    using assms by (cases "price_table_from_registry ?D r") (auto simp: run_service_def config r models Let_def)
  note known = run_service_def config r models table Let_def
  obtain url where url: "database_url env = Ok url"
    using assms by (cases "database_url env") (auto simp: known)
  obtain connection where connection: "connect_lazy from_str url = Ok connection"
    using assms by (cases "connect_lazy from_str url") (auto simp: known url)
  obtain outcome where outcome: "proxy_new ?D (os_url S) (os_join S) (sidecar_url config) table r (routing config) rng
      = Some outcome"
    using assms by (cases "proxy_new ?D (os_url S) (os_join S) (sidecar_url config) table r (routing config) rng")
      (auto simp: known url connection)
  then obtain proxy routes where started: "proxy_new ?D (os_url S) (os_join S) (sidecar_url config) table r
      (routing config) rng = Some (Ok (proxy, routes))"
    and sv: "sv = \<lparr>sv_auth = gateway_auth_of config, sv_catalog = models, sv_proxy = proxy,
        sv_readiness_url = sidecar_readiness_url config\<rparr>"
    and st: "st = \<lparr>ss_shared = \<lparr>sh_routing = routes, sh_recorder = empty_recorder\<rparr>,
        ss_ledger = with_public_provider_aliases (ledger_with_health (pool_of connection) health_starting) r\<rparr>"
    using assms by (cases outcome) (auto simp: known url connection)
  show thesis
    by (rule that [of config r])
      (use config r models table started proxy_new_Ok [OF started] sv st in
        \<open>simp_all add: with_public_provider_aliases_def ledger_with_health_def\<close>)
qed

section \<open>What a request can do\<close>

text \<open>Only an authorized completion changes the shared state or sends anything to the sidecar.\<close>

lemma first_answer_None: "first_answer f ls = None \<longleftrightarrow> (\<forall>l \<in> set ls. f l = None)"
  by (induction ls) (auto simp: or_else_def split: option.splits)

lemma first_answer_Some: "first_answer f ls = Some a \<Longrightarrow> \<exists>l. f l = Some a"
  by (induction ls) (auto simp: or_else_def split: option.splits)

lemma admitted_total: "admitted S sv now request \<noteq> None"
  by (simp add: admitted_def app_routes_eq)

lemma admitted_cases:
  obtains (panics) "admitted S sv now request = None"
  | (refused) response where "admitted S sv now request = Some (Err response)"
      "(\<exists>routes r. os_router S routes (hq_method request) (hq_path request) \<in> {NoRoute response, WrongMethod r response}) \<or>
       (\<exists>l. layer_answer S sv now request l = Some response)"
  | (reached) routes r params profile where "admitted S sv now request = Some (Ok (r, profile, params))"
      "app_routes (os_features S) = Some routes"
      "os_router S routes (hq_method request) (hq_path request) = Matched r params"
      "profile = (if Authorize \<in> set (ro_layers r)
         then authorized_profile (os_ct_eq S) (os_to_str S) (sv_auth sv) (hq_headers request) else None)"
      "Authorize \<in> set (ro_layers r) \<Longrightarrow> profile \<noteq> None"
proof -
  let ?auth = "authorized_profile (os_ct_eq S) (os_to_str S) (sv_auth sv) (hq_headers request)"
  obtain routes where routes: "app_routes (os_features S) = Some routes" by (simp add: app_routes_eq)
  show thesis
  proof (cases "os_router S routes (hq_method request) (hq_path request)")
    case (NoRoute response)
    with routes refused [of response] show thesis by (auto simp: admitted_def)
  next
    case (WrongMethod r response)
    note known = admitted_def routes WrongMethod
    show thesis
    proof (cases "first_answer (layer_answer S sv now request) (ro_layers r)")
      case None
      then have "admitted S sv now request = Some (Err response)" by (simp add: known)
      then show thesis using WrongMethod by (intro refused [of response]) blast+
    next
      case (Some answer)
      with refused [of answer] first_answer_Some [OF Some] show thesis by (simp add: known)
    qed
  next
    case (Matched r params)
    note known = admitted_def routes Matched
    show thesis
    proof (cases "first_answer (layer_answer S sv now request) (ro_layers r)")
      case (Some response)
      with refused first_answer_Some [OF Some] show thesis by (simp add: known)
    next
      case None
      have "?auth \<noteq> None" if "Authorize \<in> set (ro_layers r)"
      proof -
        have "layer_answer S sv now request Authorize = None" using None that by (simp add: first_answer_None)
        then show ?thesis by (auto simp: layer_answer_def split: if_splits)
      qed
      with routes Matched None show thesis
        by (intro reached [of r "if Authorize \<in> set (ro_layers r) then ?auth else None" params routes])
          (simp_all add: known)
    qed
  qed
qed

lemma handle_request_run:
  assumes "handle_request S sv now st request = Some (st', sent, answer)"
  obtains (answered) "st' = st" "sent = []"
      "(\<exists>routes r. os_router S routes (hq_method request) (hq_path request) \<in> {NoRoute answer, WrongMethod r answer}) \<or>
       (\<exists>l. layer_answer S sv now request l = Some answer)"
  | (run) routes r params profile where "app_routes (os_features S) = Some routes"
      "os_router S routes (hq_method request) (hq_path request) = Matched r params"
      "profile = (if Authorize \<in> set (ro_layers r)
         then authorized_profile (os_ct_eq S) (os_to_str S) (sv_auth sv) (hq_headers request) else None)"
      "Authorize \<in> set (ro_layers r) \<Longrightarrow> profile \<noteq> None"
      "run_handler S sv now st r profile params request = Some (st', sent, answer)"
proof (cases rule: admitted_cases [of S sv now request, case_names panics refused reached])
  case panics
  with assms show thesis by (simp add: handle_request_def)
next
  case (refused response)
  with assms answered show thesis by (simp add: handle_request_def)
next
  case (reached routes r params profile)
  with assms run show thesis by (simp add: handle_request_def)
qed

lemma handle_request_cases:
  assumes "handle_request S sv now st request = Some (st', sent, answer)"
  obtains (elsewhere) "sent = []" "ss_shared st' = ss_shared st"
      "ss_ledger st' = ss_ledger st \<or>
       (\<exists>p response. get_generation (os_decimal S) (os_json S) (os_pg S) (os_ts_text S) (ss_ledger st) p (hq_id request)
          = Some (ss_ledger st', response))"
  | (completion) profile endpoint where
      "authorized_profile (os_ct_eq S) (os_to_str S) (sv_auth sv) (hq_headers request) = Some profile"
      "forward (os_decimal S) (os_rand S) (os_json S) (os_to_str S) (sv_proxy sv) (mo_sidecar now) (mo_clock now)
         (ss_shared st) profile endpoint (hq_body request) = Some (ss_shared st', sent, answer)"
      "ss_ledger st' = ss_ledger st"
  using assms
proof (cases rule: handle_request_run)
  case answered
  with elsewhere show thesis by simp
next
  case (run routes r params profile)
  show thesis
  proof (cases "ro_handler r \<in> {ChatCompletions, LegacyCompletions} \<and> profile \<noteq> None \<and>
      \<not> (DisableDefaultBodyLimit \<notin> set (ro_layers r) \<and> os_default_body_limit S < length (hq_body request))")
    case False
    then have "sent = [] \<and> ss_shared st' = ss_shared st \<and> (ss_ledger st' = ss_ledger st \<or>
       (\<exists>p response. get_generation (os_decimal S) (os_json S) (os_pg S) (os_ts_text S) (ss_ledger st) p (hq_id request)
          = Some (ss_ledger st', response)))"
      using run(5) by (cases "ro_handler r"; cases profile)
        (auto simp: run_handler_def Let_def bind_eq_Some_conv split: list.splits if_splits)
    then show thesis by (intro elsewhere) simp_all
  next
    case True
    then obtain p endpoint where p: "profile = Some p"
      and "serve_completion S sv now st endpoint p (hq_body request) = Some (st', sent, answer)"
      using run(5) by (cases "ro_handler r"; cases profile) (auto simp: run_handler_def)
    moreover from p run(3) have
      "authorized_profile (os_ct_eq S) (os_to_str S) (sv_auth sv) (hq_headers request) = Some p"
      by (simp split: if_splits)
    ultimately show thesis
      by (intro completion [of p endpoint]; cases endpoint)
        (auto simp: serve_completion_def chat_completions_def legacy_completions_def bind_eq_Some_conv)
  qed
qed

lemma forward_keeps_shares:
  assumes "forward D R J to_str proxy sidecar clk sh profile endpoint body = Some (sh', requests, answer)"
    and "pol_config (px_routing proxy) = config" "0 < rg_share_window config" "shares_ok config (sh_routing sh)"
  shows "shares_ok config (sh_routing sh')"
  using assms(1)
proof (cases rule: forward_cases)
  case refused
  then show ?thesis using assms(2-4) route_shares by metis
next
  case sent
  then show ?thesis using assms(2-4) route_shares by metis
qed

end
