(* ===== verification/Panic_Freedom.thy ===== *)
theory Panic_Freedom
  imports Service
begin

text \<open>
  No request makes the service panic. Every \<open>expect\<close>, decimal operator and index of the modelled
  code is a \<open>None\<close> of a \<open>panics\<close> type; here each component's operations are shown to have a value,
  and what they need of the service's state is shown to be kept by every request: progress and
  preservation, as for a type system. Interleaving carries both over to requests in flight.
\<close>

section \<open>What is assumed of the outside\<close>

text \<open>serde_json writes every value, and reads the text of every decimal as a number.\<close>

definition json_total :: "'d decimal_ops \<Rightarrow> json_ops \<Rightarrow> bool" where
  "json_total D J \<longleftrightarrow> (\<forall>v. to_vec J v \<noteq> None) \<and> (\<forall>c. number_from_str J (d_to_string D c) \<noteq> None)"

definition priced :: "'d decimal_ops \<Rightarrow> 'd provider_prices \<Rightarrow> bool" where
  "priced D prices \<longleftrightarrow> (\<exists>s \<le> 22. prices_digits D s prices)"

definition tick_ok :: "tick \<Rightarrow> bool" where
  "tick_ok t \<longleftrightarrow> duration_ok (tk_observed t) \<and> duration_ok (tk_recorded t)"

definition item_ok :: "'e upstream_item \<Rightarrow> bool" where
  "item_ok i \<longleftrightarrow> (case i of Chunk _ t \<Rightarrow> tick_ok t | Broken _ \<Rightarrow> True)"

text \<open>An HTTP status has three digits, and an instant 64-bit seconds.\<close>

definition upstream_ok :: "'e upstream_response \<Rightarrow> bool" where
  "upstream_ok u \<longleftrightarrow>
     us_status u < 1000 \<and> list_all item_ok (us_items u) \<and> tick_ok (us_last_tick u) \<and>
     duration_ok (us_headers_received_at u)"

definition moment_ok :: "('u, 'e) moment \<Rightarrow> bool" where
  "moment_ok now \<longleftrightarrow>
     (\<forall>n request u. mo_sidecar now n request = Ok u \<longrightarrow> upstream_ok u) \<and>
     duration_ok (ck_response_completed_at (mo_clock now))"

lemma json_totalD:
  assumes "json_total D J"
  shows "to_vec J v \<noteq> None" "number_from_str J (d_to_string D c) \<noteq> None"
  using assms by (simp_all add: json_total_def)

section \<open>Costing\<close>

lemma usage_cost_total:
  assumes "decimal_laws D" "priced D prices"
  shows "usage_cost D u prices policy tokens cached \<noteq> None"
proof -
  obtain s where "s \<le> 22" "prices_digits D s prices" using assms(2) by (auto simp: priced_def)
  from provider_cost_reference [OF assms(1) this(2,1), of tokens cached]
  have "provider_cost_usd D prices tokens cached \<noteq> None" by auto
  then show ?thesis
    by (auto simp: usage_cost_def split: result.splits option.splits)
qed

lemma inject_total:
  assumes "decimal_laws D" "json_total D J" "priced D prices"
  shows "inject_usage_cost_value_with_policy D J v prices policy \<noteq> None"
  using usage_cost_total [OF assms(1,3)] json_totalD(2) [OF assms(2)]
  by (simp add: inject_usage_cost_value_with_policy_def Let_def bind_eq_None_conv split: option.split result.split del: not_None_eq)

lemma inject_usage_cost_total:
  assumes "decimal_laws D" "json_total D J"
    and "\<And>provider slug prices. price_table_get table provider slug = Some prices \<Longrightarrow> priced D prices"
  shows "inject_usage_cost D J body model served table \<noteq> None"
proof -
  have "priced D prices" if "prices_for_request model served table = Ok prices" for prices
    using that assms(3) by (auto simp: prices_for_request_def ok_or_def split: option.splits)
  with inject_total [OF assms(1,2)] show ?thesis
    by (simp add: inject_usage_cost_def Let_def bind_eq_None_conv split: option.split result.split del: not_None_eq)
qed

section \<open>Streams\<close>

text \<open>A transformer as the proxy makes it: public, and with usable prices.\<close>

definition costing :: "'d decimal_ops \<Rightarrow> string \<Rightarrow> 'd transformer \<Rightarrow> bool" where
  "costing D m st \<longleftrightarrow> ut_response_model st = Some m \<and> (\<exists>prices. ut_prices st = Some prices \<and> priced D prices)"

lemma error_event_total:
  assumes "json_total D J"
  shows "generic_upstream_error_event J m \<noteq> None" "close_with_generic_error J st m \<noteq> None"
  using json_totalD(1) [OF assms]
  by (simp_all add: generic_upstream_error_event_def close_with_generic_error_def bind_eq_None_conv)

lemma defer_sanitized:
  assumes "sanitize_public_completion_value parsed m = Ok sanitized"
  shows "defer_event_usage withhold sanitized \<noteq> None"
proof -
  obtain entries where "sanitized = JObject entries"
    using sanitize_public_object [OF assms] by (auto simp: public_object_def)
  then show ?thesis by (simp add: defer_event_usage_def)
qed

lemma public_event_total:
  assumes D: "decimal_laws D" and J: "json_total D J" and "costing D m st"
  shows "transform_public_event D J st event m \<noteq> None"
proof -
  obtain prices where "ut_prices st = Some prices" "priced D prices"
    using assms(3) by (auto simp: costing_def)
  then show ?thesis
    using inject_total [OF D J, of prices] defer_sanitized
    by (simp add: transform_public_event_def Let_def split_beta bind_eq_None_conv error_event_total(2) [OF J]
        json_totalD(1) [OF J] split: option.split result.split del: not_None_eq)
qed

lemma drain_total:
  assumes D: "decimal_laws D" and J: "json_total D J" and "costing D m st"
  shows "drain_events D J st emitted completed \<noteq> None"
  using assms(3)
proof (induction "length (ut_pending st)" arbitrary: st emitted completed rule: less_induct)
  case less
  show ?case
  proof (cases "next_event_end (ut_pending st)")
    case None
    then show ?thesis by (simp add: drain_events.simps [of D J st])
  next
    case (Some e)
    let ?st = "st\<lparr>ut_pending := drop e (ut_pending st)\<rparr>"
    have "costing D m ?st" "ut_response_model ?st = Some m" using less.prems by (simp_all add: costing_def)
    with public_event_total [OF D J] have "transform_event D J ?st (take e (ut_pending st)) \<noteq> None"
      by (simp add: transform_event_def)
    then obtain st1 out c where step: "transform_event D J ?st (take e (ut_pending st)) = Some (st1, out, c)"
      by (auto simp: prod_eq_iff)
    note keeps = transform_event_keeps [OF step]
    have "length (ut_pending st1) < length (ut_pending st)" "costing D m st1"
      using keeps less.prems drain_measure [OF Some] by (simp_all add: costing_def)
    from less.hyps [OF this] Some step show ?thesis
      by (simp add: drain_events.simps [of D J st])
  qed
qed

lemma transform_total:
  assumes "decimal_laws D" "json_total D J" "costing D m st"
  shows "transform D J st b \<noteq> None"
  using drain_total [OF assms(1,2), of m "st\<lparr>ut_pending := ut_pending st @ b\<rparr>"] assms(3)
  by (simp add: transform_def costing_def)

lemma finish_total:
  assumes "json_total D J" "costing D m st"
  shows "finish J st \<noteq> None"
  using error_event_total(1) [OF assms(1), of m] assms(2)
  by (auto simp: finish_def Let_def costing_def bind_eq_None_conv simp del: not_None_eq)

text \<open>A generation that can be recorded: a status the ledger's SMALLINT holds, and an instant.\<close>

definition recordable :: "generation_context \<Rightarrow> bool" where
  "recordable g \<longleftrightarrow> gx_status g < 1000 \<and> is_none_or duration_ok (gx_first_output_at g)"

lemma duration_ok_mono: "duration_ok b \<Longrightarrow> a \<le> b \<Longrightarrow> duration_ok a"
  unfolding duration_ok_def using div_le_mono [of a b "10 ^ 9"] by linarith

lemma recordable_observed:
  assumes "recordable g" "duration_ok t"
  shows "recordable (observe_processing d (if b then observe_first_output t g else g))"
  using assms by (cases "gx_first_output_at g") (auto simp: recordable_def observe_processing_def observe_first_output_def)

lemma record_measurement_store_ok:
  assumes "store_ok (rc_measurements rc)" "recordable g" "duration_ok now"
  shows "store_ok (rc_measurements (record_measurement g costed now rc))"
proof (cases "gx_first_output_at g")
  case (Some first)
  then have "duration_ok first" using assms(2) by (simp add: recordable_def)
  with Some assms(1,3) show ?thesis
    by (auto simp: record_measurement_def Let_def saturating_duration_since_def
        intro!: observe_for_store_ok intro: duration_ok_mono)
qed (simp add: record_measurement_def assms(1))

lemma record_at_total:
  assumes "recordable g" "duration_ok now" "store_ok (rc_measurements rc)"
  shows "\<exists>rc'. record_at g costed now rc = Some rc' \<and> store_ok (rc_measurements rc')"
proof -
  have "i16_try_from (gx_status g) \<noteq> None" using assms(1) by (simp add: i16_try_from_def recordable_def)
  then have "generation_write_of g costed now \<noteq> None"
    by (simp add: generation_write_of_def bind_eq_None_conv split: option.split del: not_None_eq)
  then show ?thesis
    using record_measurement_store_ok [OF assms(3,1,2)]
    by (auto simp: record_at_def Let_def warn_incomplete_def record_proxy_segments_def split: result.split)
qed

lemma on_chunk_total:
  assumes D: "decimal_laws D" and J: "json_total D J" and st: "costing D m st" "serving m st"
    and g: "recordable g" and t: "tick_ok t" and rc: "store_ok (rc_measurements rc)"
  obtains (open_stream) st' g' sent where "on_chunk D J st (Some g) rc chunk t = Some (Some st', Some g', rc, sent)"
      "costing D m st'" "serving m st'" "recordable g'"
    | (shut) rc' gen' sent where "on_chunk D J st (Some g) rc chunk t = Some (None, gen', rc', sent)" "sent \<noteq> []"
      "store_ok (rc_measurements rc')"
proof -
  let ?g = "observe_processing (tk_elapsed t) (if chunk \<noteq> [] then observe_first_output (tk_observed t) g else g)"
  have gen: "map_option (observe_processing (tk_elapsed t))
      (if chunk \<noteq> [] then map_option (observe_first_output (tk_observed t)) (Some g) else Some g) = Some ?g"
    by simp
  have g': "recordable ?g" using recordable_observed [OF g] t by (simp add: tick_ok_def)
  obtain next_st sent completed where step: "transform D J st chunk = Some (next_st, sent, completed)"
    using transform_total [OF D J st(1), of chunk] by auto
  have "feed_all (transform D J) st [chunk] = Some (next_st, sent, completed)" using step by simp
  from feed_all_public [OF this] st(2) have keeps: "ut_response_model next_st = Some m" "ut_prices next_st = ut_prices st"
    by (auto simp: serving_def)
  have recorded: "\<exists>gen rc'. (case (completed, Some ?g) of
      (Some costed, Some g) \<Rightarrow> do { rc' \<leftarrow> record_at g costed (tk_recorded t) rc; Some (None, rc') }
    | _ \<Rightarrow> Some (Some ?g, rc)) = Some (gen, rc') \<and> store_ok (rc_measurements rc') \<and> is_none_or recordable gen"
  proof (cases completed)
    case (Some costed)
    with record_at_total [OF g' _ rc, of "tk_recorded t" costed] t show ?thesis by (auto simp: tick_ok_def)
  qed (use rc g' in simp)
  then obtain gen1 rc1 where "on_chunk D J st (Some g) rc chunk t =
      Some (if is_closed next_st then None else Some next_st, if is_closed next_st \<and> completed = None \<and> gen1 \<noteq> None then None else gen1,
        if is_closed next_st \<and> completed = None \<and> gen1 \<noteq> None
        then warn_incomplete ''stream was closed before a costed terminal usage event'' rc1 else rc1, sent)"
    and store: "store_ok (rc_measurements rc1)" "is_none_or recordable gen1"
    unfolding on_chunk_def step gen Let_def by (auto simp: step gen)
  then obtain tr' gen' rc' where run: "on_chunk D J st (Some g) rc chunk t = Some (tr', gen', rc', sent)"
    and tr: "tr' = None \<or> tr' = Some next_st" and gen': "is_none_or recordable gen'" "store_ok (rc_measurements rc')"
    by (simp add: warn_incomplete_def split: if_splits)
  from run st(2) show thesis
  proof (cases rule: on_chunk_cases)
    case (open_stream st' g'')
    with run tr gen' st(1) keeps show thesis
      by (intro that(1) [of st' g'' sent]) (auto simp: costing_def)
  next
    case shut
    with run gen'(2) show thesis using that(2) by metis
  qed
qed

lemma on_end_total:
  assumes J: "json_total D J" and st: "costing D m st" and g: "recordable g" and t: "tick_ok t"
    and rc: "store_ok (rc_measurements rc)"
  shows "\<exists>rc' sent. on_end J st (Some g) rc t = Some (rc', sent) \<and> store_ok (rc_measurements rc')"
proof -
  obtain sent completed where step: "finish J st = Some (sent, completed)"
    using finish_total [OF J st] by auto
  have g': "recordable (observe_processing (tk_elapsed t) g)"
    using recordable_observed [OF g, of 0 "tk_elapsed t" False] by (simp add: duration_ok_def)
  show ?thesis
  proof (cases completed)
    case None
    with step rc show ?thesis by (simp add: on_end_def warn_incomplete_def)
  next
    case (Some costed)
    with step record_at_total [OF g' _ rc, of "tk_recorded t" costed] t show ?thesis
      by (auto simp: on_end_def tick_ok_def warn_incomplete_def)
  qed
qed

lemma response_stream_total:
  assumes "decimal_laws D" "json_total D J" "costing D m st" "serving m st" "recordable g"
    and "list_all item_ok items" "tick_ok last_tick" "store_ok (rc_measurements rc)"
  shows "\<exists>out rc'. response_stream D J (Some st) (Some g) rc items last_tick = Some (out, rc') \<and>
    store_ok (rc_measurements rc')"
  using assms(3-)
proof (induction items arbitrary: st g rc)
  case Nil
  with on_end_total [OF assms(2) Nil.prems(1,3,5,6)] show ?case by fastforce
next
  case (Cons item items)
  show ?case
  proof (cases item)
    case (Broken e)
    with Cons.prems show ?thesis by (simp add: warn_incomplete_def)
  next
    case (Chunk chunk t)
    with Cons.prems(4) have t: "tick_ok t" by (simp add: item_ok_def)
    show ?thesis
    proof (rule on_chunk_total [OF assms(1,2) Cons.prems(1-3) t Cons.prems(6), of chunk])
      fix st' g' sent
      assume step: "on_chunk D J st (Some g) rc chunk t = Some (Some st', Some g', rc, sent)"
        and "costing D m st'" "serving m st'" "recordable g'"
      with Cons.IH [of st' g' rc] Cons.prems(4-6) obtain out rc' where
        "response_stream D J (Some st') (Some g') rc items last_tick = Some (out, rc')" "store_ok (rc_measurements rc')"
        by auto
      with step Chunk show ?thesis by simp
    next
      fix rc' gen' sent
      assume "on_chunk D J st (Some g) rc chunk t = Some (None, gen', rc', sent)" "sent \<noteq> []"
        "store_ok (rc_measurements rc')"
      with Chunk show ?thesis by simp
    qed
  qed
qed

section \<open>Forwarding\<close>

text \<open>What the proxy needs of its price table.\<close>

definition table_priced :: "'d decimal_ops \<Rightarrow> 'd price_table \<Rightarrow> bool" where
  "table_priced D table \<longleftrightarrow>
     (\<forall>provider slug prices. price_table_get table provider slug = Some prices \<longrightarrow> priced D prices)"

lemma aliased_error_total: "json_total D J \<Longrightarrow> aliased_upstream_error J status model served \<noteq> None"
  by (simp add: aliased_upstream_error_def bind_eq_None_conv json_total_def del: not_None_eq)

lemma forward_stream_total:
  assumes D: "decimal_laws D" and J: "json_total D J" and "table_priced D (px_price_table proxy)"
    and u: "upstream_ok upstream" and rc: "store_ok (rc_measurements rc)"
  shows "\<exists>rc' answer. forward_stream D J proxy clk profile endpoint decision upstream served rc = Some (rc', answer) \<and>
    store_ok (rc_measurements rc')"
proof (cases "prices_for_request (dec_canonical_model decision) served (px_price_table proxy)")
  case (Err e)
  obtain answer where "aliased_upstream_error J 502 (dec_canonical_model decision) (Some served) = Some answer"
    using aliased_error_total [OF J] by blast
  with Err rc show ?thesis by (simp add: forward_stream_def)
next
  case (Ok prices)
  let ?m = "dec_canonical_model decision"
  let ?st = "with_response_model (with_provider_cost_policy (transformer_new prices) (cost_policy served)) ?m"
  let ?g = "generation_new ?m served (us_status upstream)
      (timing_streaming (ck_request_started_at clk) (us_attempt_started_at upstream)
         (us_headers_received_at upstream) profile) (endpoint_label endpoint)"
  have "priced D prices"
    using Ok assms(3) by (auto simp: prices_for_request_def ok_or_def table_priced_def split: option.splits)
  then have "costing D ?m ?st"
    by (simp add: costing_def with_response_model_def with_provider_cost_policy_def transformer_new_def)
  moreover have "recordable ?g" using u
    by (simp add: recordable_def generation_new_def timing_streaming_def upstream_ok_def)
  ultimately obtain items rc' where
    "response_stream D J (Some ?st) (Some ?g) rc (us_items upstream) (us_last_tick upstream) = Some (items, rc')"
    "store_ok (rc_measurements rc')"
    using response_stream_total [OF D J _ serving_new _ _ _ rc] u by (metis upstream_ok_def)
  with Ok show ?thesis by (simp add: forward_stream_def stream_with_response_transformer_def Let_def)
qed

lemma forward_buffered_total:
  assumes D: "decimal_laws D" and J: "json_total D J" and "table_priced D (px_price_table proxy)"
    and u: "upstream_ok upstream" and clk: "duration_ok (ck_response_completed_at clk)" and rc: "store_ok (rc_measurements rc)"
  shows "\<exists>rc' answer. forward_buffered D J proxy clk profile endpoint decision upstream served uses_alias rc
      = Some (rc', answer) \<and> store_ok (rc_measurements rc')"
proof -
  let ?m = "dec_canonical_model decision"
  obtain refused where refused: "aliased_upstream_error J 502 ?m served = Some refused"
    using aliased_error_total [OF J] by blast
  show ?thesis
  proof (cases "collected_body (us_items upstream)")
    case (Ok upstream_body)
    note body = Ok
    show ?thesis
    proof (cases "if uses_alias then sanitize_aliased_json_response J upstream_body ?m else Ok upstream_body")
      case (Ok public_body)
      note public = Ok
      show ?thesis
      proof (cases served)
        case None
        with body public rc show ?thesis by (simp add: forward_buffered_def Let_def)
      next
        case (Some provider)
        obtain costed where costed: "inject_usage_cost D J public_body ?m provider (px_price_table proxy) = Some costed"
          using inject_usage_cost_total [OF D J] assms(3) unfolding table_priced_def by (metis not_None_eq)
        let ?g = "generation_new ?m provider (us_status upstream)
            (timing_non_streaming (ck_request_started_at clk) (us_attempt_started_at upstream)
               (us_headers_received_at upstream) (ck_processing_elapsed clk) profile) (endpoint_label endpoint)"
        have "recordable ?g"
          using u by (simp add: recordable_def generation_new_def timing_non_streaming_def upstream_ok_def)
        note recorded = record_at_total [OF this clk rc]
        show ?thesis
        proof (cases costed)
          case (Ok costed_body)
          from recorded [of "cr_usage costed_body"] obtain rc' where
            "record_at ?g (cr_usage costed_body) (ck_response_completed_at clk) rc = Some rc'"
            "store_ok (rc_measurements rc')" by blast
          with body public Some costed Ok show ?thesis by (simp add: forward_buffered_def Let_def)
        qed (use body public Some costed refused rc in \<open>simp add: forward_buffered_def Let_def\<close>)
      qed
    qed (use body refused rc in \<open>simp add: forward_buffered_def Let_def\<close>)
  qed (use refused rc in \<open>simp add: forward_buffered_def Let_def\<close>)
qed

lemma forward_response_total:
  assumes D: "decimal_laws D" and J: "json_total D J" and "table_priced D (px_price_table proxy)"
    and u: "upstream_ok upstream" and clk: "duration_ok (ck_response_completed_at clk)" and rc: "store_ok (rc_measurements rc)"
  shows "\<exists>rc' answer. forward_response D J to_str proxy clk profile endpoint stream decision upstream rc
      = Some (rc', answer) \<and> store_ok (rc_measurements rc')"
proof -
  obtain refused where refused: "aliased_upstream_error J 502 (dec_canonical_model decision) None = Some refused"
    using aliased_error_total [OF J] by blast
  obtain failed where failed: "aliased_upstream_error J (us_status upstream) (dec_canonical_model decision)
      (from_headers to_str (us_headers upstream)) = Some failed"
    using aliased_error_total [OF J] by blast
  show ?thesis
  proof (cases "is_success (us_status upstream)")
    case False
    with failed rc show ?thesis by (simp add: forward_response_def Let_def)
  next
    case True
    show ?thesis
    proof (cases "from_headers to_str (us_headers upstream)")
      case None
      with True refused rc show ?thesis by (simp add: forward_response_def Let_def)
    next
      case (Some provider)
      with True forward_stream_total [OF assms(1-4) rc] forward_buffered_total [OF assms] show ?thesis
        by (simp add: forward_response_def Let_def)
    qed
  qed
qed

lemma send_fallbacks_total:
  assumes "json_total D J"
  shows "send_fallbacks J sidecar url n (JObject entries) upstream models \<noteq> None"
proof (induction models arbitrary: n entries upstream)
  case (Cons model models)
  obtain b where "to_vec J (JObject (bm_insert ''model'' (JString model) entries)) = Some b"
    using json_totalD(1) [OF assms] by blast
  moreover obtain rest where "send_fallbacks J sidecar url (Suc n) (JObject (bm_insert ''model'' (JString model) entries))
      (send_attempt sidecar (Suc n) url b) models = Some rest"
    using Cons.IH by blast
  ultimately show ?case by (cases rest) simp
qed simp

lemma send_fallbacks_origin:
  assumes "send_fallbacks J sidecar url n request upstream models = Some (answer, requests)"
  shows "answer = upstream \<or> (\<exists>k sent. answer = sidecar k sent)"
  using send_fallbacks_plan [OF assms] by auto

lemma forward_total:
  assumes D: "decimal_laws D" and J: "json_total D J" and "table_priced D (px_price_table proxy)"
    and routes: "routing_from_registry D r config rng = Ok (px_routing proxy, st0)" and config: "routing_config_ok D config"
    and sidecar: "\<And>n request u. sidecar n request = Ok u \<Longrightarrow> upstream_ok u"
    and clk: "duration_ok (ck_response_completed_at clk)"
    and sh: "shares_ok config (sh_routing sh)" "store_ok (rc_measurements (sh_recorder sh))"
  shows "\<exists>sh' requests answer. forward D R J to_str proxy sidecar clk sh profile endpoint body = Some (sh', requests, answer) \<and>
    store_ok (rc_measurements (sh_recorder sh'))"
proof (cases "from_slice J body")
  case None
  then show ?thesis using sh by (simp add: forward_def)
next
  case (Some request)
  obtain routing' request' decided where routed: "route_for_endpoint D R (px_routing proxy)
      (rc_measurements (sh_recorder sh)) (sh_routing sh) profile endpoint request = Some (routing', request', decided)"
    using route_never_panics [OF D routes config sh(2,1)] by (metis surj_pair)
  show ?thesis
  proof (cases decided)
    case (Err e)
    with Some routed sh show ?thesis by (simp add: forward_def Let_def)
  next
    case (Ok decision)
    with routed obtain entries where request': "request' = JObject entries" by (auto elim: route_OkE)
    obtain selected_body where body: "to_vec J request' = Some selected_body" using json_totalD(1) [OF J] by blast
    let ?url = "endpoint_url proxy endpoint"
    let ?first = "send_attempt sidecar 0 ?url selected_body"
    obtain upstream requests where plan: "send_fallbacks J sidecar ?url 0 request' ?first (dec_fallback_models decision)
        = Some (upstream, requests)"
      using send_fallbacks_total [OF J] request' by fastforce
    note simps = forward_def Let_def Some routed Ok body send_selected_then_fallback_def plan
    show ?thesis
    proof (cases upstream)
      case (Err e)
      then show ?thesis using sh by (simp add: simps)
    next
      case (Ok response)
      with send_fallbacks_origin [OF plan] sidecar have "upstream_ok response"
        by (auto simp: send_attempt_def)
      from forward_response_total [OF D J assms(3) this clk sh(2)] obtain rc' answer where
        "forward_response D J to_str proxy clk profile endpoint
           (unwrap_or False (Option.bind (json_get ''stream'' request) as_bool)) decision response (sh_recorder sh)
         = Some (rc', answer)" "store_ok (rc_measurements rc')" by blast
      with \<open>upstream = Ok response\<close> show ?thesis by (simp add: simps)
    qed
  qed
qed

section \<open>The service\<close>

text \<open>What every reached state satisfies, and what the started service provides.\<close>

definition state_ok :: "('d, 'u) service \<Rightarrow> ('d, 'r, 'db) service_state \<Rightarrow> bool" where
  "state_ok sv st \<longleftrightarrow>
     shares_ok (pol_config (px_routing (sv_proxy sv))) (sh_routing (ss_shared st)) \<and>
     store_ok (rc_measurements (sh_recorder (ss_shared st))) \<and>
     status_of (l_database_health (ss_ledger st)) \<noteq> None"

definition service_ok :: "'d decimal_ops \<Rightarrow> ('d, 'u) service \<Rightarrow> bool" where
  "service_ok D sv \<longleftrightarrow>
     table_priced D (px_price_table (sv_proxy sv)) \<and>
     (\<exists>r config rng (st0 :: nat routing_state). routing_from_registry D r config rng = Ok (px_routing (sv_proxy sv), st0) \<and>
        routing_config_ok D config) \<and>
     (\<forall>profile. catalog_snapshot_of (sv_catalog sv) profile \<noteq> None)"

lemma routing_table_any_generator:
  "routing_from_registry D r config rng = Ok (policy, st0) \<Longrightarrow>
   routing_from_registry D r config rng' = Ok (policy, \<lparr>st_shares = [], st_rng = rng'\<rparr>)"
  by (auto simp: routing_from_registry_def result_bind_Ok)

lemma catalog_complete:
  assumes "catalog_from_registry D r = Some c"
  shows "catalog_snapshot_of c profile \<noteq> None"
proof -
  from assms obtain a b where "c = \<lparr>snapshots = bm_collect [(Production, a), (Beta, b)]\<rparr>"
    by (auto simp: catalog_from_registry_def profiles_all_def bind_eq_Some_conv)
  then show ?thesis by (cases profile) (simp_all add: catalog_snapshot_of_def bm_get_collect)
qed

lemma settle_health:
  "settle P l attempt = (l', outcome) \<Longrightarrow> status_of (l_database_health l') \<noteq> None"
  by (auto simp: settle_def status_of_def health_defs report_failure_def split: prod.splits result.splits)

lemma fetch_health:
  assumes "ledger_fetch P l i profile = (l', outcome)"
  shows "status_of (l_database_health l') \<noteq> None"
proof -
  obtain l1 found where settled: "settle P l (pg_select P (l_pool l) (select_matches i profile)) = (l1, found)"
    by fastforce
  with assms have "l' = l1" by (auto simp: ledger_fetch_def split: result.splits list.splits)
  with settle_health [OF settled] show ?thesis by simp
qed

lemma generation_health:
  assumes "get_generation D J P to_text l profile query = Some (l', response)"
    and "status_of (l_database_health l) \<noteq> None"
  shows "status_of (l_database_health l') \<noteq> None"
proof (cases "option_filter (\<lambda>i. trim i \<noteq> []) query")
  case None
  with assms show ?thesis by (simp add: get_generation_def)
next
  case (Some i)
  obtain l1 outcome where fetched: "ledger_fetch P l i profile = (l1, outcome)" by fastforce
  with assms(1) Some have "l' = l1"
    by (auto simp: get_generation_def bind_eq_Some_conv split: result.splits option.splits)
  with fetch_health [OF fetched] show ?thesis by simp
qed

lemma get_generation_total:
  assumes "json_total D J"
  shows "get_generation D J P to_text l profile query \<noteq> None"
proof -
  have "generation_response D J to_text g name \<noteq> None" for g name
    using assms by (auto simp: generation_response_def decimal_value_def json_total_def bind_eq_None_conv
        split: option.splits simp del: not_None_eq)
  then show ?thesis
    by (simp add: get_generation_def bind_eq_None_conv split_beta split: option.split result.split prod.split
        del: not_None_eq)
qed

lemma handlers_total:
  assumes "service_ok D sv"
  shows "get_models (sv_catalog sv) profile \<noteq> None" "get_model_endpoints (sv_catalog sv) profile slug \<noteq> None"
    "get_model_endpoints_by_author (sv_catalog sv) profile author slug \<noteq> None"
  using assms by (simp_all add: service_ok_def get_models_def get_model_endpoints_def
      get_model_endpoints_by_author_def endpoint_response_def bind_eq_None_conv del: not_None_eq)

lemma serve_completion_total:
  assumes D: "decimal_laws (os_decimal S)" and J: "json_total (os_decimal S) (os_json S)"
    and sv: "service_ok (os_decimal S) sv" and st: "state_ok sv st" and now: "moment_ok now"
  shows "serve_completion S sv now st endpoint profile body \<noteq> None"
proof -
  obtain r config rng and st0 :: "nat routing_state" where
    routes: "routing_from_registry (os_decimal S) r config rng = Ok (px_routing (sv_proxy sv), st0)"
    and config: "routing_config_ok (os_decimal S) config"
    using sv by (auto simp: service_ok_def)
  have same: "pol_config (px_routing (sv_proxy sv)) = config" by (rule routes_lookup(5) [OF routes])
  have "\<exists>sh' requests answer. forward (os_decimal S) (os_rand S) (os_json S) (os_to_str S) (sv_proxy sv) (mo_sidecar now)
      (mo_clock now) (ss_shared st) profile endpoint body = Some (sh', requests, answer)"
    using forward_total [OF D J _ routing_table_any_generator [OF routes] config, of "mo_sidecar now" "mo_clock now"
        "ss_shared st" "os_rand S" "os_to_str S" profile endpoint body] sv st now
    unfolding service_ok_def state_ok_def moment_ok_def same by blast
  then show ?thesis
    by (cases endpoint) (auto simp: serve_completion_def chat_completions_def legacy_completions_def)
qed

text \<open>Progress: no handler panics in such a state.\<close>

lemma run_handler_total:
  assumes D: "decimal_laws (os_decimal S)" and J: "json_total (os_decimal S) (os_json S)"
    and sv: "service_ok (os_decimal S) sv" and st: "state_ok sv st" and now: "moment_ok now"
  shows "run_handler S sv now st r profile params request \<noteq> None"
proof -
  have "readyz (l_database_health (ss_ledger st)) (mo_probe now) \<noteq> None"
    using readyz_total st by (auto simp: state_ok_def)
  then show ?thesis
    using get_generation_total [OF J, of "os_pg S" "os_ts_text S" "ss_ledger st"] handlers_total [OF sv]
      serve_completion_total [OF assms]
    by (cases "ro_handler r"; cases profile)
      (simp_all add: run_handler_def Let_def bind_eq_None_conv split_beta split: list.split del: not_None_eq)
qed

lemma handle_request_total:
  assumes "decimal_laws (os_decimal S)" "json_total (os_decimal S) (os_json S)"
    and "service_ok (os_decimal S) sv" "state_ok sv st" "moment_ok now"
  shows "handle_request S sv now st request \<noteq> None"
  using run_handler_total [OF assms]
  by (cases rule: admitted_cases [of S sv now request, case_names panics refused reached])
    (simp_all add: handle_request_def admitted_total del: not_None_eq)

text \<open>Preservation: whatever the service does leads to such a state again.\<close>

lemma handle_request_preserves:
  assumes D: "decimal_laws (os_decimal S)" and J: "json_total (os_decimal S) (os_json S)"
    and sv: "service_ok (os_decimal S) sv" and st: "state_ok sv st" and now: "moment_ok now"
    and handled: "handle_request S sv now st request = Some (st', sent, answer)"
  shows "state_ok sv st'"
  using handled
proof (cases rule: handle_request_cases)
  case elsewhere
  then have "status_of (l_database_health (ss_ledger st')) \<noteq> None"
    using st generation_health by (fastforce simp: state_ok_def)
  with elsewhere st show ?thesis by (simp add: state_ok_def)
next
  case (completion profile endpoint)
  obtain r config rng and st0 :: "nat routing_state" where
    routes: "routing_from_registry (os_decimal S) r config rng = Ok (px_routing (sv_proxy sv), st0)"
    and config: "routing_config_ok (os_decimal S) config"
    using sv by (auto simp: service_ok_def)
  have same: "pol_config (px_routing (sv_proxy sv)) = config" by (rule routes_lookup(5) [OF routes])
  have "store_ok (rc_measurements (sh_recorder (ss_shared st')))"
    using forward_total [OF D J _ routing_table_any_generator [OF routes] config, of "mo_sidecar now" "mo_clock now"
        "ss_shared st" "os_rand S" "os_to_str S" profile endpoint "hq_body request"] sv st now completion(2)
    unfolding service_ok_def state_ok_def moment_ok_def same by auto
  moreover have "shares_ok config (sh_routing (ss_shared st'))"
    using forward_keeps_shares [OF completion(2) same] config st
    by (simp add: routing_config_ok_def state_ok_def same)
  ultimately show ?thesis using completion(3) st by (simp add: state_ok_def same)
qed

lemma supervisor_step_status:
  assumes "supervisor_step i m w w'" and "status_of (w_health w) \<noteq> None"
  shows "status_of (w_health w') \<noteq> None"
  using assms by (cases rule: supervisor_step.cases) (auto simp: health_defs status_of_def split: if_splits)

end
