(* ===== verification/Stream_Turns.thy ===== *)
theory Stream_Turns
  imports Panic_Freedom
begin

text \<open>
  A streamed answer turn by turn (\<open>src/proxy.rs\<close>, the loop of \<open>stream_with_response_transformer\<close>):
  the head of the response goes out first, and each poll of its body awaits the next chunk of the
  upstream, so between two turns other requests run and the client may leave. A turn that does not
  end the stream records nothing, and the one that ends it settles it.
\<close>

section \<open>One turn\<close>

datatype ('d, 'e) turn =
    GoesOn "'d transformer option" "generation_context option" "'e upstream_item list" "(bytes, 'e) result list"
  | Ends "(bytes, 'e) result list"

fun stream_turn ::
  "'d decimal_ops \<Rightarrow> json_ops \<Rightarrow> 'd transformer option \<Rightarrow> generation_context option \<Rightarrow> 'd recorder \<Rightarrow>
   'e upstream_item list \<Rightarrow> tick \<Rightarrow> (('d, 'e) turn \<times> 'd recorder) panics" where
  "stream_turn D J tr gen rc (Chunk chunk t # rest) last_tick =
     do { current \<leftarrow> tr;
          (tr', gen', rc', sent) \<leftarrow> on_chunk D J current gen rc chunk t;
          Some (if sent = [] then GoesOn tr' gen' rest []
                else case tr' of None \<Rightarrow> Ends [Ok sent] | Some _ \<Rightarrow> GoesOn tr' gen' rest [Ok sent], rc') }"
| "stream_turn D J tr gen rc (Broken e # rest) last_tick =
     Some (Ends [Err e], if gen \<noteq> None then warn_incomplete ''upstream stream returned an error'' rc else rc)"
| "stream_turn D J tr gen rc [] last_tick =
     do { current \<leftarrow> tr;
          (rc', sent) \<leftarrow> on_end J current gen rc last_tick;
          Some (Ends (if sent = [] then [] else [Ok sent]), rc') }"

lemma response_stream_turn:
  "response_stream D J tr gen rc items last_tick =
     do { (turn, rc') \<leftarrow> stream_turn D J tr gen rc items last_tick;
          case turn of
            Ends out \<Rightarrow> Some (out, rc')
          | GoesOn tr' gen' rest out \<Rightarrow>
              do { (later, rc'') \<leftarrow> response_stream D J tr' gen' rc' rest last_tick; Some (out @ later, rc'') } }"
proof (cases items)
  case (Cons item rest)
  show ?thesis
  proof (cases item)
    case (Chunk chunk t)
    show ?thesis
    proof (cases tr)
      case (Some current)
      show ?thesis
        by (cases "on_chunk D J current gen rc chunk t")
          (auto simp: Cons Chunk Some bind_eq_Some_conv split: option.split bind_split)
    qed (simp add: Cons Chunk)
  qed (simp add: Cons)
qed (cases tr, auto simp: bind_eq_Some_conv split: bind_split)

lemma stream_turn_shortens:
  "stream_turn D J tr gen rc items last_tick = Some (GoesOn tr' gen' rest out, rc') \<Longrightarrow> length rest < length items"
  by (induction D J tr gen rc items last_tick rule: stream_turn.induct)
    (auto simp: bind_eq_Some_conv split: if_splits option.splits)

section \<open>The head of a streamed answer\<close>

text \<open>When \<open>forward\<close> answers with a stream: the provider, the transformer and the generation it
  starts with.\<close>

definition opens_stream ::
  "(bytes \<Rightarrow> string option) \<Rightarrow> ('d, 'u) proxy_state \<Rightarrow> clock \<Rightarrow> routing_profile \<Rightarrow> completion_endpoint \<Rightarrow> bool \<Rightarrow>
   route_decision \<Rightarrow> 'e upstream_response \<Rightarrow> (served_provider \<times> 'd transformer \<times> generation_context) option" where
  "opens_stream to_str proxy clk profile endpoint stream decision upstream =
     (if is_success (us_status upstream) \<and> stream \<and> is_event_stream to_str (us_headers upstream ''content-type'')
      then do { served \<leftarrow> from_headers to_str (us_headers upstream);
                case prices_for_request (dec_canonical_model decision) served (px_price_table proxy) of
                  Err _ \<Rightarrow> None
                | Ok prices \<Rightarrow> Some (served,
                    with_response_model (with_provider_cost_policy (transformer_new prices) (cost_policy served))
                      (dec_canonical_model decision),
                    generation_new (dec_canonical_model decision) served (us_status upstream)
                      (timing_streaming (ck_request_started_at clk) (us_attempt_started_at upstream)
                         (us_headers_received_at upstream) profile) (endpoint_label endpoint)) }
      else None)"

definition streamed_answer :: "'e upstream_response \<Rightarrow> served_provider \<Rightarrow> (bytes, 'e) result list \<Rightarrow> response" where
  "streamed_answer upstream served items =
     downstream_response (us_status upstream) (us_headers upstream ''content-type'')
       (us_headers upstream GENERATION_ID_HEADER) (stream_body items) (Some served)"

lemma opens_streamE:
  assumes "opens_stream to_str proxy clk profile endpoint stream decision upstream = Some (served, st, g)"
  obtains prices where "is_success (us_status upstream)" "stream"
    "is_event_stream to_str (us_headers upstream ''content-type'')"
    "from_headers to_str (us_headers upstream) = Some served"
    "prices_for_request (dec_canonical_model decision) served (px_price_table proxy) = Ok prices"
    "st = with_response_model (with_provider_cost_policy (transformer_new prices) (cost_policy served))
       (dec_canonical_model decision)"
    "g = generation_new (dec_canonical_model decision) served (us_status upstream)
       (timing_streaming (ck_request_started_at clk) (us_attempt_started_at upstream)
          (us_headers_received_at upstream) profile) (endpoint_label endpoint)"
proof -
  obtain s where s: "from_headers to_str (us_headers upstream) = Some s"
    using assms by (auto simp: opens_stream_def bind_eq_Some_conv split: if_splits)
  with assms that show thesis
    by (cases "prices_for_request (dec_canonical_model decision) s (px_price_table proxy)")
      (auto simp: opens_stream_def split: if_splits)
qed

lemma forward_response_streams:
  assumes "opens_stream to_str proxy clk profile endpoint stream decision upstream = Some (served, st, g)"
  shows "forward_response D J to_str proxy clk profile endpoint stream decision upstream rc =
    do { (items, rc') \<leftarrow> response_stream D J (Some st) (Some g) rc (us_items upstream) (us_last_tick upstream);
         Some (rc', streamed_answer upstream served items) }"
  using assms
  by (rule opens_streamE) (simp add: forward_response_def forward_stream_def stream_with_response_transformer_def
      streamed_answer_def Let_def)

section \<open>A stream under way\<close>

text \<open>Of a stream that has not ended nothing is recorded, and its client has public frames only; the
  charge it has been shown is the one the transformer holds.\<close>

definition under_way ::
  "'d decimal_ops \<Rightarrow> json_ops \<Rightarrow> string \<Rightarrow> routing_profile \<Rightarrow> served_provider \<Rightarrow> nat \<Rightarrow> 'd transformer option \<Rightarrow>
   generation_context option \<Rightarrow> (bytes, 'e) result list \<Rightarrow> bool" where
  "under_way D J m profile served status tr gen out \<longleftrightarrow>
     all_delivered out \<and>
     (\<exists>st g frames. tr = Some st \<and> gen = Some g \<and> serving m st \<and> gx_profile g = profile \<and>
        gx_provider_id g = provider_str served \<and> gx_canonical_slug g = m \<and> gx_status g = status \<and>
        delivered out = concat frames \<and> (\<forall>frame \<in> set frames. public_frame J m frame) \<and>
        carries D J m frames None (ut_costed_usage st))"

lemma delivered_append [simp]:
  "delivered (xs @ ys) = delivered xs @ delivered ys" "all_delivered (xs @ ys) \<longleftrightarrow> all_delivered xs \<and> all_delivered ys"
  by (simp_all add: delivered_def all_delivered_def)

lemma opens_under_way:
  assumes "opens_stream to_str proxy clk profile endpoint stream decision upstream = Some (served, st, g)"
  shows "under_way D J (dec_canonical_model decision) profile served (us_status upstream) (Some st) (Some g) [] \<and>
    is_success (us_status upstream)"
  using assms
  by (rule opens_streamE) (auto simp: under_way_def generation_new_def timing_streaming_def all_delivered_def
      serving_new intro!: exI [of _ "[]"])

text \<open>A turn that goes on leaves the recorder alone; the turn that ends the stream settles it.\<close>

lemma turn_goes_on:
  assumes "under_way D J m profile served status tr gen out"
    and "stream_turn D J tr gen rc items last_tick = Some (GoesOn tr' gen' rest new, rc')"
  shows "rc' = rc \<and> under_way D J m profile served status tr' gen' (out @ new)"
proof -
  obtain st g frames where tr: "tr = Some st" "gen = Some g" "serving m st"
    and g: "gx_profile g = profile" "gx_provider_id g = provider_str served" "gx_canonical_slug g = m"
      "gx_status g = status"
    and out: "all_delivered out" "delivered out = concat frames" "\<forall>frame \<in> set frames. public_frame J m frame"
    and charge: "carries D J m frames None (ut_costed_usage st)"
    using assms(1) by (auto simp: under_way_def)
  obtain chunk t rest' where items: "items = Chunk chunk t # rest'"
    using assms(2) by (cases "(D, J, tr, gen, rc, items, last_tick)" rule: stream_turn.cases)
      (auto simp: bind_eq_Some_conv)
  obtain tr1 gen1 rc1 sent where run: "on_chunk D J st (Some g) rc chunk t = Some (tr1, gen1, rc1, sent)"
    using assms(2) by (auto simp: items tr bind_eq_Some_conv)
  then have turn: "tr' = tr1" "gen' = gen1" "rc' = rc1" "new = (if sent = [] then [] else [Ok sent])"
    "sent = [] \<or> tr1 \<noteq> None"
    using assms(2) by (auto simp: items tr split: if_splits option.splits)
  from run tr(3) show ?thesis
  proof (cases rule: on_chunk_cases)
    case (open_stream st' g' frames')
    have "delivered (out @ new) = concat (frames @ frames')" using out(2) open_stream(6) by (simp add: turn(4))
    moreover have "\<forall>frame \<in> set (frames @ frames'). public_frame J m frame" using out(3) open_stream(7) by auto
    moreover have "all_delivered (out @ new)" using out(1) by (simp add: turn(4) all_delivered_def)
    moreover have "gx_profile g' = profile \<and> gx_provider_id g' = provider_str served \<and> gx_canonical_slug g' = m \<and>
        gx_status g' = status"
      using open_stream(4) g by (cases g; cases g') (simp add: same_generation_def)
    moreover have "carries D J m (frames @ frames') None (ut_costed_usage st')"
      by (rule carries_trans [OF charge open_stream(8)])
    ultimately show ?thesis using open_stream(1-3,5) turn(1-3) unfolding under_way_def by blast
  next
    case shut
    with turn show ?thesis by simp
  qed
qed

lemma turn_ends:
  assumes way: "under_way D J m profile served (us_status upstream) tr gen out" and ok: "is_success (us_status upstream)"
    and turn: "stream_turn D J tr gen rc items last_tick = Some (Ends new, rc')"
  shows "accounted D J profile m rc rc' (streamed_answer upstream served (out @ new))"
proof -
  obtain st g frames where tr: "tr = Some st" "gen = Some g" "serving m st"
    and g: "gx_profile g = profile" "gx_provider_id g = provider_str served" "gx_canonical_slug g = m"
      "gx_status g = us_status upstream"
    and out: "all_delivered out" "delivered out = concat frames" "\<forall>frame \<in> set frames. public_frame J m frame"
    and charge: "carries D J m frames None (ut_costed_usage st)"
    using way by (auto simp: under_way_def)
  have "response_stream D J (Some st) (Some g) rc items last_tick = Some (new, rc')"
    using response_stream_turn [of D J tr gen rc items last_tick] turn by (simp add: tr)
  from response_stream_outcome [OF this tr(3)] obtain frames' tail where
    bytes: "delivered new = concat frames' @ tail" "\<forall>frame \<in> set frames'. public_frame J m frame" "end_marker tail"
    and ends: "billed D J m (ut_costed_usage st) frames' g rc rc' \<and> all_delivered new \<and> ends_done (delivered new) \<or>
     unbilled rc rc' \<and> (all_delivered new \<and> ends_error J m (delivered new) \<or>
       (\<exists>e. new \<noteq> [] \<and> last new = Err e))" by blast
  have whole: "delivered (out @ new) = concat (frames @ frames') @ tail"
    "\<forall>frame \<in> set (frames @ frames'). public_frame J m frame"
    using out(2,3) bytes(1,2) by auto
  have same: "same_generation g g" by (simp add: same_generation_def)
  have "billed D J m None (frames @ frames') g rc rc' \<and> all_delivered (out @ new) \<and> ends_done (delivered (out @ new)) \<or>
     unbilled rc rc' \<and> (all_delivered (out @ new) \<and> ends_error J m (delivered (out @ new)) \<or>
       (\<exists>e. out @ new \<noteq> [] \<and> last (out @ new) = Err e))"
    using ends out(1) ends_append billed_later [OF same charge] by auto
  then show ?thesis
    by (intro stream_accounted [OF g(1-3) _ whole bytes(3)])
      (simp_all add: streamed_answer_def downstream_response_def ok g(4))
qed

section \<open>No turn panics\<close>

definition flowing ::
  "'d decimal_ops \<Rightarrow> string \<Rightarrow> 'd transformer option \<Rightarrow> generation_context option \<Rightarrow> 'e upstream_item list \<Rightarrow> tick \<Rightarrow> bool" where
  "flowing D m tr gen items last_tick \<longleftrightarrow>
     (\<exists>st g. tr = Some st \<and> gen = Some g \<and> costing D m st \<and> serving m st \<and> recordable g) \<and>
     list_all item_ok items \<and> tick_ok last_tick"

lemma flowing_turn:
  assumes D: "decimal_laws D" and J: "json_total D J" and flow: "flowing D m tr gen items last_tick"
    and rc: "store_ok (rc_measurements rc)"
  shows "\<exists>turn rc'. stream_turn D J tr gen rc items last_tick = Some (turn, rc') \<and> store_ok (rc_measurements rc') \<and>
    (\<forall>tr' gen' rest new. turn = GoesOn tr' gen' rest new \<longrightarrow> flowing D m tr' gen' rest last_tick)"
proof -
  obtain st g where tr: "tr = Some st" "gen = Some g" and st: "costing D m st" "serving m st" "recordable g"
    and items: "list_all item_ok items" "tick_ok last_tick"
    using flow by (auto simp: flowing_def)
  show ?thesis
  proof (cases items)
    case Nil
    with on_end_total [OF J st(1,3) items(2) rc] show ?thesis by (fastforce simp: tr)
  next
    case (Cons item rest)
    show ?thesis
    proof (cases item)
      case (Broken e)
      with rc show ?thesis by (simp add: Cons tr warn_incomplete_def)
    next
      case (Chunk chunk t)
      have t: "tick_ok t" using items(1) by (simp add: Cons Chunk item_ok_def)
      show ?thesis
        by (rule on_chunk_total [OF D J st t rc, of chunk])
          (use items rc in \<open>auto simp: Cons Chunk tr flowing_def\<close>)
    qed
  qed
qed

lemma opens_flowing:
  assumes "opens_stream to_str proxy clk profile endpoint stream decision upstream = Some (served, st, g)"
    and "table_priced D (px_price_table proxy)" "upstream_ok upstream"
  shows "flowing D (dec_canonical_model decision) (Some st) (Some g) (us_items upstream) (us_last_tick upstream)"
proof -
  obtain prices policy where prices: "prices_for_request (dec_canonical_model decision) served (px_price_table proxy) = Ok prices"
    and st: "st = with_response_model (with_provider_cost_policy (transformer_new prices) policy) (dec_canonical_model decision)"
    and g: "gx_status g = us_status upstream" "gx_first_output_at g = None"
    using assms(1) by (rule opens_streamE) (simp add: generation_new_def timing_streaming_def)
  have "priced D prices"
    using prices assms(2) by (auto simp: prices_for_request_def ok_or_def table_priced_def split: option.splits)
  then show ?thesis
    using assms(3) serving_new g unfolding st
    by (auto simp: flowing_def costing_def with_response_model_def with_provider_cost_policy_def transformer_new_def
        recordable_def upstream_ok_def)
qed

end
