(* ===== verification/Interleaving.thy ===== *)
theory Interleaving
  imports Stream_Turns
begin

text \<open>
  Requests in flight. A completion's handler touches the state it shares with the others in two
  places, when it is routed (\<open>routing.rs\<close>, under the lock of the routing state) and when it is
  recorded (\<open>record_at\<close>); in between it waits for the sidecar, once per attempt and then once per
  chunk of a streamed answer, and where it waits it can be dropped, because the client went away
  or the timeout of its route expired. Here \<open>forward\<close> is taken apart at its waits, and a run of
  the service is any interleaving of these steps with new requests, the ledger writes and the
  database supervisor.
\<close>

section \<open>A completion in steps\<close>

text \<open>What \<open>forward\<close> holds once the request is routed.\<close>

record plan =
  pl_profile :: routing_profile
  pl_endpoint :: completion_endpoint
  pl_stream :: bool
  pl_request :: json
  pl_body :: bytes
  pl_decision :: route_decision

text \<open>\<open>forward\<close> up to the first request to the sidecar, under the measurements its candidates read.\<close>

definition plan_completion ::
  "'d decimal_ops \<Rightarrow> 'r rand_ops \<Rightarrow> json_ops \<Rightarrow> ('d, 'u) proxy_state \<Rightarrow> measurement_store \<Rightarrow> 'r routing_state \<Rightarrow>
   routing_profile \<Rightarrow> completion_endpoint \<Rightarrow> bytes \<Rightarrow> ('r routing_state \<times> (plan, response) result) panics" where
  "plan_completion D R J proxy measurements st profile endpoint body =
     (case from_slice J body of
        None \<Rightarrow> Some (st, Err invalid_json_request)
      | Some request \<Rightarrow>
          do { let stream = unwrap_or False (Option.bind (json_get ''stream'' request) as_bool);
               (st', request', decided) \<leftarrow> route_for_endpoint D R (px_routing proxy) measurements st profile endpoint request;
               case decided of
                 Err e \<Rightarrow> Some (st', Err (route_error_response e))
               | Ok decision \<Rightarrow>
                   do { selected_body \<leftarrow> to_vec J request';
                        Some (st', Ok \<lparr>pl_profile = profile, pl_endpoint = endpoint, pl_stream = stream,
                          pl_request = request', pl_body = selected_body, pl_decision = decision\<rparr>) } })"

text \<open>\<open>forward\<close> from the answer of the last attempt.\<close>

definition conclude ::
  "'d decimal_ops \<Rightarrow> json_ops \<Rightarrow> (bytes \<Rightarrow> string option) \<Rightarrow> ('d, 'u) proxy_state \<Rightarrow> clock \<Rightarrow> plan \<Rightarrow>
   ('e upstream_response, 'e) result \<Rightarrow> 'd recorder \<Rightarrow> ('d recorder \<times> response) panics" where
  "conclude D J to_str proxy clk plan upstream rc =
     (case upstream of
        Err _ \<Rightarrow> Some (rc, upstream_unavailable)
      | Ok response \<Rightarrow> forward_response D J to_str proxy clk (pl_profile plan) (pl_endpoint plan) (pl_stream plan)
          (pl_decision plan) response rc)"

lemma forward_in_steps:
  "forward D R J to_str proxy sidecar clk sh profile endpoint body =
     do { (routing', planned) \<leftarrow> plan_completion D R J proxy (rc_measurements (sh_recorder sh)) (sh_routing sh) profile
            endpoint body;
          case planned of
            Err answer \<Rightarrow> Some (sh\<lparr>sh_routing := routing'\<rparr>, [], answer)
          | Ok plan \<Rightarrow>
              do { (upstream, requests) \<leftarrow> send_selected_then_fallback J sidecar (endpoint_url proxy endpoint)
                     (pl_request plan) (pl_body plan) (pl_decision plan);
                   (rc', answer) \<leftarrow> conclude D J to_str proxy clk plan upstream (sh_recorder sh);
                   Some (sh\<lparr>sh_routing := routing', sh_recorder := rc'\<rparr>, requests, answer) } }"
proof (cases "from_slice J body")
  case (Some request)
  note known = forward_def plan_completion_def Let_def Some
  show ?thesis
  proof (cases "route_for_endpoint D R (px_routing proxy) (rc_measurements (sh_recorder sh)) (sh_routing sh)
      profile endpoint request")
    case (Some routed)
    obtain routing' request' decided where "routed = (routing', request', decided)" by (cases routed)
    with Some show ?thesis
      by (cases decided; cases "to_vec J request'")
        (auto simp: known conclude_def intro!: Option.bind_cong split: result.split prod.split)
  qed (simp add: known)
qed (simp add: forward_def plan_completion_def)

text \<open>The stream an answer of the sidecar opens, if it does.\<close>

definition opened ::
  "(bytes \<Rightarrow> string option) \<Rightarrow> ('d, 'u) proxy_state \<Rightarrow> clock \<Rightarrow> plan \<Rightarrow> ('e upstream_response, 'e) result \<Rightarrow>
   ('e upstream_response \<times> served_provider \<times> 'd transformer \<times> generation_context) option" where
  "opened to_str proxy clk plan upstream =
     (case upstream of
        Err _ \<Rightarrow> None
      | Ok u \<Rightarrow> map_option (Pair u) (opens_stream to_str proxy clk (pl_profile plan) (pl_endpoint plan) (pl_stream plan)
          (pl_decision plan) u))"

text \<open>A completion in flight: let through to its handler, when \<open>n\<close> measurement stores had been seen;
  routed; after the answer of attempt \<open>n\<close>, with the fallbacks that are left; or being streamed,
  with the chunks still to come and what its client has.\<close>

datatype ('d, 'e) flight =
    Arrived http_request routing_profile completion_endpoint nat
  | Planned http_request plan
  | Waiting http_request plan nat json "('e upstream_response, 'e) result" "string list"
  | Streaming http_request plan "'e upstream_response" served_provider "'d transformer option"
      "generation_context option" "'e upstream_item list" "(bytes, 'e) result list"

text \<open>The service with its completions in flight, and what has happened: the measurement stores there
  have been, the routes decided, the requests sent for each caller, the completions answered (with
  their plan, if they had one) and which of the recorded writes were run.\<close>

record ('d, 'r, 'db, 'u, 'e) run =
  rn_state :: "('d, 'r, 'db) service_state"
  rn_flights :: "nat \<Rightarrow> ('d, 'e) flight option"
  rn_stores :: "measurement_store list"
  rn_decided :: "(route_key \<times> string) list"
  rn_sent :: "(http_request \<times> 'u upstream_request) list"
  rn_answered :: "(plan option \<times> response) list"
  rn_written :: "nat set"

abbreviation rn_routing :: "('d, 'r, 'db, 'u, 'e) run \<Rightarrow> 'r routing_state" where
  "rn_routing r \<equiv> sh_routing (ss_shared (rn_state r))"

abbreviation rn_recorder :: "('d, 'r, 'db, 'u, 'e) run \<Rightarrow> 'd recorder" where
  "rn_recorder r \<equiv> sh_recorder (ss_shared (rn_state r))"

definition with_routing :: "'r routing_state \<Rightarrow> ('d, 'r, 'db) service_state \<Rightarrow> ('d, 'r, 'db) service_state" where
  "with_routing routing' st = st\<lparr>ss_shared := (ss_shared st)\<lparr>sh_routing := routing'\<rparr>\<rparr>"

definition with_recorder :: "'d recorder \<Rightarrow> ('d, 'r, 'db) service_state \<Rightarrow> ('d, 'r, 'db) service_state" where
  "with_recorder rc st = st\<lparr>ss_shared := (ss_shared st)\<lparr>sh_recorder := rc\<rparr>\<rparr>"

definition run_start :: "('d, 'r, 'db) service_state \<Rightarrow> ('d, 'r, 'db, 'u, 'e) run" where
  "run_start st =
     \<lparr>rn_state = st, rn_flights = Map.empty, rn_stores = [rc_measurements (sh_recorder (ss_shared st))],
      rn_decided = [], rn_sent = [], rn_answered = [], rn_written = {}\<rparr>"

definition decided_route :: "plan \<Rightarrow> route_key \<times> string" where
  "decided_route plan =
     ((pl_profile plan, dec_canonical_model (pl_decision plan)), dec_selected_provider (pl_decision plan))"

text \<open>Each candidate's measurements are read under a lock of their own, so a request may see values
  of different moments since it arrived.\<close>

definition readable :: "measurement_store list \<Rightarrow> measurement_store \<Rightarrow> bool" where
  "readable stores seen \<longleftrightarrow> (\<forall>p i s. \<exists>m \<in> set stores. get_for seen p i s = get_for m p i s)"

text \<open>The steps of completion \<open>i\<close>.\<close>

inductive flight_step ::
  "('d, 'u, 'r, 'db, 'ts, 'pe) outside \<Rightarrow> ('d, 'u) service \<Rightarrow> (('u, 'e) moment \<Rightarrow> bool) \<Rightarrow> nat \<Rightarrow>
   ('d, 'r, 'db, 'u, 'e) run \<Rightarrow> ('d, 'r, 'db, 'u, 'e) run \<Rightarrow> bool"
  for S :: "('d, 'u, 'r, 'db, 'ts, 'pe) outside" and sv and allowed :: "('u, 'e) moment \<Rightarrow> bool" and i where
  refused: "rn_flights r i = Some (Arrived request profile endpoint k) \<Longrightarrow> readable (drop k (rn_stores r)) seen \<Longrightarrow>
     plan_completion (os_decimal S) (os_rand S) (os_json S) (sv_proxy sv) seen (rn_routing r) profile endpoint
       (hq_body request) = Some (routing', Err answer) \<Longrightarrow>
     flight_step S sv allowed i r
       (r\<lparr>rn_state := with_routing routing' (rn_state r), rn_flights := (rn_flights r)(i := None),
          rn_answered := rn_answered r @ [(None, answer)]\<rparr>)"
| planned: "rn_flights r i = Some (Arrived request profile endpoint k) \<Longrightarrow> readable (drop k (rn_stores r)) seen \<Longrightarrow>
     plan_completion (os_decimal S) (os_rand S) (os_json S) (sv_proxy sv) seen (rn_routing r) profile endpoint
       (hq_body request) = Some (routing', Ok plan) \<Longrightarrow>
     flight_step S sv allowed i r
       (r\<lparr>rn_state := with_routing routing' (rn_state r), rn_flights := (rn_flights r)(i := Some (Planned request plan)),
          rn_decided := rn_decided r @ [decided_route plan]\<rparr>)"
| sent_first: "rn_flights r i = Some (Planned request plan) \<Longrightarrow> allowed now \<Longrightarrow>
     url = endpoint_url (sv_proxy sv) (pl_endpoint plan) \<Longrightarrow>
     flight_step S sv allowed i r
       (r\<lparr>rn_flights := (rn_flights r)(i := Some (Waiting request plan 0 (pl_request plan)
            (send_attempt (mo_sidecar now) 0 url (pl_body plan)) (dec_fallback_models (pl_decision plan)))),
          rn_sent := rn_sent r @ [(request, upstream_request_of url (pl_body plan))]\<rparr>)"
| retried: "rn_flights r i = Some (Waiting request plan n current upstream (fallback_model # models)) \<Longrightarrow> allowed now \<Longrightarrow>
     should_fallback upstream \<Longrightarrow> json_set ''model'' (JString fallback_model) current = Some next_request \<Longrightarrow>
     to_vec (os_json S) next_request = Some fallback_body \<Longrightarrow>
     url = endpoint_url (sv_proxy sv) (pl_endpoint plan) \<Longrightarrow>
     flight_step S sv allowed i r
       (r\<lparr>rn_flights := (rn_flights r)(i := Some (Waiting request plan (Suc n) next_request
            (send_attempt (mo_sidecar now) (Suc n) url fallback_body) models)),
          rn_sent := rn_sent r @ [(request, upstream_request_of url fallback_body)]\<rparr>)"
| concluded: "rn_flights r i = Some (Waiting request plan n current upstream models) \<Longrightarrow> allowed now \<Longrightarrow>
     models = [] \<or> \<not> should_fallback upstream \<Longrightarrow>
     opened (os_to_str S) (sv_proxy sv) (mo_clock now) plan upstream = None \<Longrightarrow>
     conclude (os_decimal S) (os_json S) (os_to_str S) (sv_proxy sv) (mo_clock now) plan upstream (rn_recorder r)
       = Some (rc', answer) \<Longrightarrow>
     flight_step S sv allowed i r
       (r\<lparr>rn_state := with_recorder rc' (rn_state r), rn_flights := (rn_flights r)(i := None),
          rn_stores := rn_stores r @ [rc_measurements rc'],
          rn_answered := rn_answered r @ [(Some plan, answer)]\<rparr>)"
| stream_started: "rn_flights r i = Some (Waiting request plan n current upstream models) \<Longrightarrow> allowed now \<Longrightarrow>
     models = [] \<or> \<not> should_fallback upstream \<Longrightarrow>
     opened (os_to_str S) (sv_proxy sv) (mo_clock now) plan upstream = Some (u, served, st, g) \<Longrightarrow>
     flight_step S sv allowed i r
       (r\<lparr>rn_flights := (rn_flights r)(i := Some (Streaming request plan u served (Some st) (Some g) (us_items u) []))\<rparr>)"
| polled: "rn_flights r i = Some (Streaming request plan u served tr gen items out) \<Longrightarrow>
     stream_turn (os_decimal S) (os_json S) tr gen (rn_recorder r) items (us_last_tick u)
       = Some (GoesOn tr' gen' rest new, rc') \<Longrightarrow>
     flight_step S sv allowed i r
       (r\<lparr>rn_state := with_recorder rc' (rn_state r),
          rn_flights := (rn_flights r)(i := Some (Streaming request plan u served tr' gen' rest (out @ new))),
          rn_stores := rn_stores r @ [rc_measurements rc']\<rparr>)"
| stream_ended: "rn_flights r i = Some (Streaming request plan u served tr gen items out) \<Longrightarrow>
     stream_turn (os_decimal S) (os_json S) tr gen (rn_recorder r) items (us_last_tick u) = Some (Ends new, rc') \<Longrightarrow>
     flight_step S sv allowed i r
       (r\<lparr>rn_state := with_recorder rc' (rn_state r), rn_flights := (rn_flights r)(i := None),
          rn_stores := rn_stores r @ [rc_measurements rc'],
          rn_answered := rn_answered r @ [(Some plan, streamed_answer u served (out @ new))]\<rparr>)"

text \<open>The completion a request is let through to, if it is one; axum reads its body first.\<close>

definition completion_of ::
  "('d, 'u, 'r, 'db, 'ts, 'pe) outside \<Rightarrow> ('d, 'u) service \<Rightarrow> ('u, 'e) moment \<Rightarrow> http_request \<Rightarrow>
   (routing_profile \<times> completion_endpoint) option" where
  "completion_of S sv now request =
     (case admitted S sv now request of
        Some (Ok (found, Some profile, _)) \<Rightarrow>
          if DisableDefaultBodyLimit \<notin> set (ro_layers found) \<and> os_default_body_limit S < length (hq_body request)
          then None
          else (case ro_handler found of
              ChatCompletions \<Rightarrow> Some (profile, Chat)
            | LegacyCompletions \<Rightarrow> Some (profile, Legacy)
            | _ \<Rightarrow> None)
      | _ \<Rightarrow> None)"

text \<open>A request comes in: a completion takes off, any other request is answered at once.\<close>

inductive incoming_step ::
  "('d, 'u, 'r, 'db, 'ts, 'pe) outside \<Rightarrow> ('d, 'u) service \<Rightarrow> (('u, 'e) moment \<Rightarrow> bool) \<Rightarrow>
   ('d, 'r, 'db, 'u, 'e) run \<Rightarrow> ('d, 'r, 'db, 'u, 'e) run \<Rightarrow> bool"
  for S :: "('d, 'u, 'r, 'db, 'ts, 'pe) outside" and sv and allowed :: "('u, 'e) moment \<Rightarrow> bool" where
  arrived: "rn_flights r i = None \<Longrightarrow> allowed now \<Longrightarrow> completion_of S sv now request = Some (profile, endpoint) \<Longrightarrow>
     incoming_step S sv allowed r
       (r\<lparr>rn_flights := (rn_flights r)(i := Some (Arrived request profile endpoint (length (rn_stores r) - 1)))\<rparr>)"
| answered: "allowed now \<Longrightarrow> completion_of S sv now request = None \<Longrightarrow>
     handle_request S sv now (rn_state r) request = Some (st', sent, answer) \<Longrightarrow>
     incoming_step S sv allowed r (r\<lparr>rn_state := st'\<rparr>)"

text \<open>Without a request: a completion is dropped, a spawned write runs, the supervisor takes a step.\<close>

inductive background_step ::
  "('d, 'u, 'r, 'db, 'ts, 'pe) outside \<Rightarrow> ('d, 'r, 'db, 'u, 'e) run \<Rightarrow> ('d, 'r, 'db, 'u, 'e) run \<Rightarrow> bool"
  for S :: "('d, 'u, 'r, 'db, 'ts, 'pe) outside" where
  dropped: "background_step S r (r\<lparr>rn_flights := (rn_flights r)(i := None)\<rparr>)"
| written: "k < length (rc_writes (rn_recorder r)) \<Longrightarrow> k \<notin> rn_written r \<Longrightarrow>
     ledger_insert (os_pg S) (ss_ledger (rn_state r)) (rc_writes (rn_recorder r) ! k) = (ledger', outcome) \<Longrightarrow>
     background_step S r
       (r\<lparr>rn_state := (rn_state r)\<lparr>ss_ledger := ledger'\<rparr>, rn_written := insert k (rn_written r)\<rparr>)"
| supervised: "w_health w = l_database_health (ss_ledger (rn_state r)) \<Longrightarrow>
     supervisor_step INITIAL_RECOVERY_BACKOFF MAX_RECOVERY_BACKOFF w w' \<Longrightarrow>
     background_step S r
       (r\<lparr>rn_state := (rn_state r)\<lparr>ss_ledger := (ss_ledger (rn_state r))\<lparr>l_database_health := w_health w'\<rparr>\<rparr>\<rparr>)"

inductive environment_step ::
  "('d, 'u, 'r, 'db, 'ts, 'pe) outside \<Rightarrow> ('d, 'u) service \<Rightarrow> (('u, 'e) moment \<Rightarrow> bool) \<Rightarrow>
   ('d, 'r, 'db, 'u, 'e) run \<Rightarrow> ('d, 'r, 'db, 'u, 'e) run \<Rightarrow> bool"
  for S :: "('d, 'u, 'r, 'db, 'ts, 'pe) outside" and sv and allowed :: "('u, 'e) moment \<Rightarrow> bool" where
  incoming: "incoming_step S sv allowed r r' \<Longrightarrow> environment_step S sv allowed r r'"
| background: "background_step S r r' \<Longrightarrow> environment_step S sv allowed r r'"

inductive run_step ::
  "('d, 'u, 'r, 'db, 'ts, 'pe) outside \<Rightarrow> ('d, 'u) service \<Rightarrow> (('u, 'e) moment \<Rightarrow> bool) \<Rightarrow>
   ('d, 'r, 'db, 'u, 'e) run \<Rightarrow> ('d, 'r, 'db, 'u, 'e) run \<Rightarrow> bool"
  for S :: "('d, 'u, 'r, 'db, 'ts, 'pe) outside" and sv and allowed :: "('u, 'e) moment \<Rightarrow> bool" where
  own: "flight_step S sv allowed i r r' \<Longrightarrow> run_step S sv allowed r r'"
| other: "environment_step S sv allowed r r' \<Longrightarrow> run_step S sv allowed r r'"

text \<open>The runs of a service started in a state.\<close>

definition runs ::
  "('d, 'u, 'r, 'db, 'ts, 'pe) outside \<Rightarrow> ('d, 'u) service \<Rightarrow> (('u, 'e) moment \<Rightarrow> bool) \<Rightarrow>
   ('d, 'r, 'db) service_state \<Rightarrow> ('d, 'r, 'db, 'u, 'e) run \<Rightarrow> bool" where
  "runs S sv allowed st0 r \<longleftrightarrow> (run_step S sv allowed)\<^sup>*\<^sup>* (run_start st0) r"

section \<open>What the other steps leave alone\<close>

lemma completion_of_handled:
  assumes "completion_of S sv now request = Some (profile, endpoint)"
  shows "authorized_profile (os_ct_eq S) (os_to_str S) (sv_auth sv) (hq_headers request) = Some profile"
    and "handle_request S sv now st request = serve_completion S sv now st endpoint profile (hq_body request)"
proof -
  obtain r params where reached: "admitted S sv now request = Some (Ok (r, Some profile, params))"
    and r: "\<not> (DisableDefaultBodyLimit \<notin> set (ro_layers r) \<and> os_default_body_limit S < length (hq_body request))"
      "(ro_handler r, endpoint) \<in> {(ChatCompletions, Chat), (LegacyCompletions, Legacy)}"
    using assms by (auto simp: completion_of_def split: option.splits result.splits if_splits handler.splits)
  then show "handle_request S sv now st request = serve_completion S sv now st endpoint profile (hq_body request)"
    by (auto simp: handle_request_def run_handler_def)
  show "authorized_profile (os_ct_eq S) (os_to_str S) (sv_auth sv) (hq_headers request) = Some profile"
    using reached by (cases rule: admitted_cases [of S sv now request, case_names panics refused reached])
      (auto split: if_splits)
qed

lemma completion_of_None:
  assumes "completion_of S sv now request = None"
    and "handle_request S sv now st request = Some (st', sent, answer)"
  shows "sent = [] \<and> ss_shared st' = ss_shared st"
proof (cases rule: admitted_cases [of S sv now request, case_names panics refused reached])
  case (reached routes r params profile)
  then show ?thesis using assms
    by (cases "ro_handler r"; cases profile)
      (auto simp: completion_of_def handle_request_def run_handler_def Let_def bind_eq_Some_conv
        split: list.splits if_splits)
qed (use assms in \<open>simp_all add: handle_request_def\<close>)

inductive_cases incoming_cases: "incoming_step S sv allowed r r'"
inductive_cases background_cases: "background_step S r r'"
inductive_cases environment_cases: "environment_step S sv allowed r r'"

lemmas environment_elims = environment_cases incoming_cases background_cases

lemma environment_frame:
  assumes "environment_step S sv allowed r r'"
  shows "ss_shared (rn_state r') = ss_shared (rn_state r)" "rn_stores r' = rn_stores r"
    "rn_decided r' = rn_decided r" "rn_sent r' = rn_sent r" "rn_answered r' = rn_answered r"
  using assms by (auto elim!: environment_elims dest: completion_of_None)

lemma environment_flights:
  assumes "environment_step S sv allowed r r'" and "rn_flights r' i = Some f"
  obtains (kept) "rn_flights r i = Some f"
  | (arrived) request profile endpoint where "f = Arrived request profile endpoint (length (rn_stores r) - 1)"
      "authorized_profile (os_ct_eq S) (os_to_str S) (sv_auth sv) (hq_headers request) = Some profile"
  using assms(1)
proof cases
  case incoming
  then show thesis using assms(2) that by cases (auto split: if_splits dest: completion_of_handled(1))
next
  case background
  then show thesis using assms(2) that by cases (auto split: if_splits)
qed

section \<open>The shared state of a run\<close>

text \<open>The rolling windows after a sequence of decisions.\<close>

definition windows_after :: "nat \<Rightarrow> (route_key \<times> string) list \<Rightarrow> (route_key \<Rightarrow> string list) \<Rightarrow> route_key \<Rightarrow> string list" where
  "windows_after cap = fold (\<lambda>(key, provider) w. w(key := slide cap (w key) provider))"

text \<open>The recorder after a sequence of answers, each settled as it was given.\<close>

definition settled ::
  "'d decimal_ops \<Rightarrow> json_ops \<Rightarrow> plan option \<times> response \<Rightarrow> 'd recorder \<Rightarrow> 'd recorder \<Rightarrow> bool" where
  "settled D J completed rc rc' \<longleftrightarrow>
     (case completed of
        (None, answer) \<Rightarrow> \<not> is_success (resp_status answer) \<and> rc' = rc
      | (Some plan, answer) \<Rightarrow>
          accounted D J (pl_profile plan) (dec_canonical_model (pl_decision plan)) rc rc' answer)"

fun settles ::
  "'d decimal_ops \<Rightarrow> json_ops \<Rightarrow> (plan option \<times> response) list \<Rightarrow> 'd recorder \<Rightarrow> 'd recorder \<Rightarrow> bool" where
  "settles D J [] rc rc' \<longleftrightarrow> rc' = rc"
| "settles D J (completed # later) rc rc' \<longleftrightarrow> (\<exists>rc1. settled D J completed rc rc1 \<and> settles D J later rc1 rc')"

lemma settles_snoc:
  "settles D J completed rc rc1 \<Longrightarrow> settled D J final rc1 rc' \<Longrightarrow> settles D J (completed @ [final]) rc rc'"
  by (induction completed arbitrary: rc) auto

lemma plan_completion_cases:
  assumes "plan_completion D R J proxy seen st profile endpoint body = Some (st', planned)"
  obtains (invalid) "st' = st" "planned = Err invalid_json_request"
  | (rejected) request request' e where
      "route_for_endpoint D R (px_routing proxy) seen st profile endpoint request = Some (st', request', Err e)"
      "planned = Err (route_error_response e)"
  | (routed) request request' decision b where "from_slice J body = Some request"
      "route_for_endpoint D R (px_routing proxy) seen st profile endpoint request = Some (st', request', Ok decision)"
      "to_vec J request' = Some b"
      "planned = Ok \<lparr>pl_profile = profile, pl_endpoint = endpoint,
         pl_stream = unwrap_or False (Option.bind (json_get ''stream'' request) as_bool),
         pl_request = request', pl_body = b, pl_decision = decision\<rparr>"
proof (cases "from_slice J body")
  case None
  with assms invalid show thesis by (simp add: plan_completion_def)
next
  case (Some request)
  with assms obtain st1 request' decided where
    "route_for_endpoint D R (px_routing proxy) seen st profile endpoint request = Some (st1, request', decided)"
    by (auto simp: plan_completion_def Let_def bind_eq_Some_conv)
  with assms Some rejected routed show thesis
    by (cases decided) (auto simp: plan_completion_def Let_def bind_eq_Some_conv)
qed

lemma plan_completion_shared:
  assumes "plan_completion D R J proxy seen st profile endpoint body = Some (st', planned)"
    and "pol_config (px_routing proxy) = config" "0 < rg_share_window config" "shares_ok config st"
  shows "shares_ok config st' \<and>
    (case planned of
       Err answer \<Rightarrow> \<not> is_success (resp_status answer) \<and> window_of st' = window_of st
     | Ok plan \<Rightarrow> window_of st' = windows_after (rg_share_window config) [decided_route plan] (window_of st))"
  using assms(1)
proof (cases rule: plan_completion_cases)
  case invalid
  then show ?thesis using assms(4) by (simp add: invalid_json_request_def json_response_def is_success_def)
next
  case (rejected request request' e)
  from route_shares [OF _ _ rejected(1)] assms(2-) rejected(2) show ?thesis by (simp add: route_error_not_success)
next
  case (routed request request' decision b)
  from route_shares [OF _ _ routed(2)] assms(2-) routed(4) show ?thesis
    by (simp add: windows_after_def decided_route_def)
qed

lemma conclude_accounted:
  assumes "conclude D J to_str proxy clk plan upstream rc = Some (rc', answer)"
  shows "settled D J (Some plan, answer) rc rc'"
proof (cases upstream)
  case (Err e)
  with assms show ?thesis
    by (auto simp: conclude_def settled_def accounted_def upstream_unavailable_def json_response_def is_success_def)
next
  case (Ok response)
  with assms show ?thesis
    by (auto simp: conclude_def settled_def intro: forward_response_accounted)
qed

lemmas run_state_defs = with_routing_def with_recorder_def

fun stream_public :: "'d decimal_ops \<Rightarrow> json_ops \<Rightarrow> ('d, 'e) flight \<Rightarrow> bool" where
  "stream_public D J (Streaming _ plan u served tr gen _ out) \<longleftrightarrow>
     under_way D J (dec_canonical_model (pl_decision plan)) (pl_profile plan) served (us_status u) tr gen out \<and>
     is_success (us_status u)"
| "stream_public D J _ \<longleftrightarrow> True"

lemma opened_under_way:
  "opened to_str proxy clk plan upstream = Some (u, served, st, g) \<Longrightarrow>
   under_way D J (dec_canonical_model (pl_decision plan)) (pl_profile plan) served (us_status u) (Some st) (Some g) [] \<and>
   is_success (us_status u)"
  by (auto simp: opened_def intro!: opens_under_way split: result.splits)

lemma runs_streams:
  assumes "runs S sv allowed st0 r" and "rn_flights r i = Some f"
  shows "stream_public (os_decimal S) (os_json S) f"
  using assms unfolding runs_def
proof (induction arbitrary: i f rule: rtranclp_induct)
  case base
  then show ?case by (simp add: run_start_def)
next
  case (step r r')
  from step.hyps(2) show ?case
  proof cases
    case (own j)
    then show ?thesis
    proof cases
      case stream_started
      with step.IH step.prems opened_under_way [where D = "os_decimal S" and J = "os_json S", OF stream_started(5)] show ?thesis by (auto split: if_splits)
    next
      case (polled request plan u served tr gen items out tr' gen' rest new rc')
      have "stream_public (os_decimal S) (os_json S) (Streaming request plan u served tr gen items out)"
        by (rule step.IH [OF polled(2)])
      with turn_goes_on [OF _ polled(3)] step.IH step.prems show ?thesis
        by (auto simp: polled(1) split: if_splits)
    qed (use step in \<open>auto split: if_splits\<close>)
  next
    case other
    from environment_flights [OF other step.prems] step.IH show ?thesis by cases auto
  qed
qed

text \<open>A step after which a completion is still in flight has recorded nothing.\<close>

lemma flight_step_records:
  assumes "runs S sv allowed st0 r" and step: "flight_step S sv allowed i r r'" and still: "rn_flights r' i \<noteq> None"
  shows "rn_recorder r' = rn_recorder r" "rn_answered r' = rn_answered r"
proof -
  from step still have "rn_recorder r' = rn_recorder r \<and> rn_answered r' = rn_answered r"
  proof cases
    case (polled request plan u served tr gen items out tr' gen' rest new rc')
    have "stream_public (os_decimal S) (os_json S) (Streaming request plan u served tr gen items out)"
      by (rule runs_streams [OF assms(1) polled(2)])
    with turn_goes_on [OF _ polled(3)] show ?thesis by (auto simp: polled(1) run_state_defs)
  qed (auto simp: run_state_defs)
  then show "rn_recorder r' = rn_recorder r" "rn_answered r' = rn_answered r" by blast+
qed

lemma runs_shared:
  assumes "runs S sv allowed st0 r"
    and config: "pol_config (px_routing (sv_proxy sv)) = config" "0 < rg_share_window config"
    and "shares_ok config (sh_routing (ss_shared st0))"
  shows "shares_ok config (rn_routing r) \<and>
    window_of (rn_routing r) =
      windows_after (rg_share_window config) (rn_decided r) (window_of (sh_routing (ss_shared st0))) \<and>
    settles (os_decimal S) (os_json S) (rn_answered r) (sh_recorder (ss_shared st0)) (rn_recorder r)"
  using assms(1) unfolding runs_def
proof (induction rule: rtranclp_induct)
  case base
  show ?case using assms(4) by (simp add: run_start_def windows_after_def)
next
  case (step r r')
  from step.hyps(2) show ?case
  proof cases
    case (own i)
    then show ?thesis
    proof cases
      case (refused request profile endpoint k seen routing' answer)
      from plan_completion_shared [OF refused(4) config] step.IH have
        "shares_ok config routing'" "\<not> is_success (resp_status answer)" "window_of routing' = window_of (rn_routing r)"
        by auto
      with step.IH show ?thesis
        by (auto simp: refused(1) run_state_defs settled_def intro: settles_snoc)
    next
      case (planned request profile endpoint k seen routing' plan)
      from plan_completion_shared [OF planned(4) config] step.IH show ?thesis
        by (auto simp: planned(1) run_state_defs windows_after_def)
    next
      case (concluded request plan n current upstream models now rc' answer)
      from conclude_accounted [OF concluded(6)] step.IH show ?thesis
        by (auto simp: concluded(1) run_state_defs intro: settles_snoc)
    next
      case (polled request plan u served tr gen items out tr' gen' rest new rc')
      have "stream_public (os_decimal S) (os_json S) (Streaming request plan u served tr gen items out)"
        using step.hyps(1) by (intro runs_streams [OF _ polled(2)]) (simp add: runs_def)
      with turn_goes_on [OF _ polled(3)] have "rc' = rn_recorder r" by auto
      with step.IH show ?thesis by (simp add: polled(1) run_state_defs)
    next
      case (stream_ended request plan u served tr gen items out new rc')
      have "stream_public (os_decimal S) (os_json S) (Streaming request plan u served tr gen items out)"
        using step.hyps(1) by (intro runs_streams [OF _ stream_ended(2)]) (simp add: runs_def)
      with turn_ends [OF _ _ stream_ended(3)] have
        "settled (os_decimal S) (os_json S) (Some plan, streamed_answer u served (out @ new)) (rn_recorder r) rc'"
        by (auto simp: settled_def)
      with step.IH show ?thesis by (auto simp: stream_ended(1) run_state_defs intro: settles_snoc)
    qed (use step.IH in simp_all)
  next
    case other
    from environment_frame [OF other] step.IH show ?thesis by simp
  qed
qed

section \<open>What a run sends\<close>

lemma routed_model:
  assumes "route_for_endpoint D R policy measurements st profile endpoint request = Some (st', request', Ok dec)"
  shows "json_get ''model'' request' =
    Some (JString (sidecar_model (dec_selected_provider dec) (dec_canonical_model dec)))"
  by (rule route_OkE [OF assms]) (simp add: bm_get_insert)

text \<open>The name of a route that the registry permits to a profile.\<close>

definition permitted_name :: "'d decimal_ops \<Rightarrow> 'd registry \<Rightarrow> routing_profile \<Rightarrow> string \<Rightarrow> bool" where
  "permitted_name D reg profile name \<longleftrightarrow>
     (\<exists>endpoint original canonical i. may_serve D reg profile endpoint original canonical i \<and>
        name = sidecar_model i canonical)"

lemma permitted_nameI:
  "may_serve D reg profile endpoint original canonical i \<Longrightarrow> permitted_name D reg profile (sidecar_model i canonical)"
  unfolding permitted_name_def by blast

definition permitted_attempt :: "'d decimal_ops \<Rightarrow> json_ops \<Rightarrow> 'd registry \<Rightarrow> routing_profile \<Rightarrow> bytes \<Rightarrow> bool" where
  "permitted_attempt D J reg profile b \<longleftrightarrow>
     (\<exists>request name. to_vec J request = Some b \<and> json_get ''model'' request = Some (JString name) \<and>
        permitted_name D reg profile name)"

fun permitted_flight :: "'d decimal_ops \<Rightarrow> json_ops \<Rightarrow> 'd registry \<Rightarrow> (http_request \<Rightarrow> routing_profile option) \<Rightarrow>
   ('d, 'e) flight \<Rightarrow> bool" where
  "permitted_flight D J reg profile_of (Arrived request profile _ _) \<longleftrightarrow> profile_of request = Some profile"
| "permitted_flight D J reg profile_of (Planned request plan) \<longleftrightarrow>
     profile_of request = Some (pl_profile plan) \<and> permitted_attempt D J reg (pl_profile plan) (pl_body plan) \<and>
     (\<forall>name \<in> set (dec_fallback_models (pl_decision plan)). permitted_name D reg (pl_profile plan) name)"
| "permitted_flight D J reg profile_of (Waiting request plan _ _ _ models) \<longleftrightarrow>
     profile_of request = Some (pl_profile plan) \<and> (\<forall>name \<in> set models. permitted_name D reg (pl_profile plan) name)"
| "permitted_flight D J reg profile_of (Streaming request plan _ _ _ _ _ _) \<longleftrightarrow> profile_of request = Some (pl_profile plan)"

lemma plan_completion_permitted:
  assumes "plan_completion D R J proxy seen st profile endpoint body = Some (st', Ok plan)"
    and "routing_from_registry D reg config rng = Ok (px_routing proxy, st0)"
    and "shares_ok config st" "0 < rg_share_window config"
  shows "pl_profile plan = profile \<and> permitted_attempt D J reg profile (pl_body plan) \<and>
    (\<forall>name \<in> set (dec_fallback_models (pl_decision plan)). permitted_name D reg profile name) \<and>
    (\<exists>entries. pl_request plan = JObject entries)"
proof -
  obtain request request' decision where
    routed: "route_for_endpoint D R (px_routing proxy) seen st profile endpoint request = Some (st', request', Ok decision)"
    and plan: "to_vec J request' = Some (pl_body plan)" "pl_profile plan = profile" "pl_request plan = request'"
      "pl_decision plan = decision"
    using assms(1) by (cases rule: plan_completion_cases) auto
  let ?name = "\<lambda>i. sidecar_model i (dec_canonical_model decision)"
  from route_plan_permitted [OF assms(2,3,4) routed] obtain fallbacks where
    fallbacks: "dec_fallback_models decision = map ?name fallbacks"
    and serve: "\<forall>i \<in> set (dec_selected_provider decision # fallbacks).
        may_serve D reg profile endpoint request (dec_canonical_model decision) i"
    by auto
  have "permitted_name D reg profile (?name i)" if "i \<in> set (dec_selected_provider decision # fallbacks)" for i
    by (rule permitted_nameI [OF bspec [OF serve that]])
  then have "permitted_name D reg profile (?name (dec_selected_provider decision))"
    "\<forall>name \<in> set (dec_fallback_models decision). permitted_name D reg profile name"
    by (simp_all add: fallbacks)
  moreover have "\<exists>entries. request' = JObject entries" using routed by (auto elim: route_OkE)
  ultimately show ?thesis
    using plan routed_model [OF routed] by (auto simp: permitted_attempt_def)
qed

lemma runs_permitted:
  assumes runs: "runs S sv allowed st0 r"
    and routes: "routing_from_registry (os_decimal S) reg config rng = Ok (px_routing (sv_proxy sv), st1)"
    and window: "0 < rg_share_window config" and shares: "shares_ok config (sh_routing (ss_shared st0))"
  defines "profile_of \<equiv> \<lambda>request. authorized_profile (os_ct_eq S) (os_to_str S) (sv_auth sv) (hq_headers request)"
  shows "(\<forall>i f. rn_flights r i = Some f \<longrightarrow> permitted_flight (os_decimal S) (os_json S) reg profile_of f) \<and>
    (\<forall>(request, attempt) \<in> set (rn_sent r). \<exists>profile. profile_of request = Some profile \<and>
       permitted_attempt (os_decimal S) (os_json S) reg profile (ur_body attempt))"
  using runs unfolding runs_def
proof (induction rule: rtranclp_induct)
  case base
  show ?case by (simp add: run_start_def)
next
  case (step r r')
  have "shares_ok config (rn_routing r)"
    using runs_shared [OF _ routes_lookup(5) [OF routes] window shares] step.hyps(1) by (auto simp: runs_def)
  note planning = plan_completion_permitted [OF _ routes this window]
  from step.hyps(2) show ?case
  proof cases
    case (own i)
    then show ?thesis
    proof cases
      case (planned request profile endpoint k seen routing' plan)
      with step.IH have "profile_of request = Some profile" by fastforce
      with planning [OF planned(4)] step.IH show ?thesis by (auto simp: planned(1))
    next
      case (sent_first request plan now url)
      note allowed_flight = step.IH [THEN conjunct1, rule_format, OF sent_first(2)]
      with step.IH show ?thesis by (auto simp: sent_first(1) upstream_request_of_def)
    next
      case (retried request plan n current upstream name models now next_request b url)
      note allowed_flight = step.IH [THEN conjunct1, rule_format, OF retried(2)]
      have "permitted_attempt (os_decimal S) (os_json S) reg (pl_profile plan) b"
        using allowed_flight retried(6) json_set_model(1) [OF retried(5)] by (auto simp: permitted_attempt_def)
      with allowed_flight step.IH show ?thesis by (auto simp: retried(1) upstream_request_of_def)
    next
      case (stream_started request plan n current upstream models now u served st g)
      note allowed_flight = step.IH [THEN conjunct1, rule_format, OF stream_started(2)]
      with step.IH show ?thesis by (auto simp: stream_started(1))
    next
      case (polled request plan u served tr gen items out tr' gen' rest new rc')
      note allowed_flight = step.IH [THEN conjunct1, rule_format, OF polled(2)]
      with step.IH show ?thesis by (auto simp: polled(1))
    qed (use step.IH in auto)
  next
    case other
    then show ?thesis
      using step.IH environment_frame(4) [OF other]
      by (auto elim!: environment_flights [OF other] simp: profile_of_def)
  qed
qed

end
