(* ===== verification/Flight_Progress.thy ===== *)
theory Flight_Progress
  imports Interleaving
begin

text \<open>
  Requests in flight make progress: in the runs of a started service no request in flight is stuck,
  each of its steps brings it nearer to its answer, and a request that is handled with nothing in
  between (\<open>handle_request\<close> of Service) is one of the schedules.
\<close>

section \<open>Nothing in flight is stuck\<close>

text \<open>What a reached run satisfies.\<close>

fun flight_ok :: "'d decimal_ops \<Rightarrow> nat \<Rightarrow> ('d, 'e) flight \<Rightarrow> bool" where
  "flight_ok D n (Arrived _ _ _ k) \<longleftrightarrow> k < n"
| "flight_ok D n (Planned _ plan) \<longleftrightarrow> (\<exists>entries. pl_request plan = JObject entries)"
| "flight_ok D n (Streaming _ plan u _ tr gen items _) \<longleftrightarrow>
     flowing D (dec_canonical_model (pl_decision plan)) tr gen items (us_last_tick u)"
| "flight_ok D n (Waiting _ plan _ current upstream _) \<longleftrightarrow>
     (\<exists>entries. current = JObject entries) \<and> (\<forall>u. upstream = Ok u \<longrightarrow> upstream_ok u)"

definition run_ok :: "'d decimal_ops \<Rightarrow> ('d, 'u) service \<Rightarrow> ('d, 'r, 'db, 'u, 'e) run \<Rightarrow> bool" where
  "run_ok D sv r \<longleftrightarrow>
     state_ok sv (rn_state r) \<and> list_all store_ok (rn_stores r) \<and>
     rn_stores r \<noteq> [] \<and> last (rn_stores r) = rc_measurements (rn_recorder r) \<and>
     (\<forall>i f. rn_flights r i = Some f \<longrightarrow> flight_ok D (length (rn_stores r)) f)"

lemma flight_ok_mono: "flight_ok D n f \<Longrightarrow> n \<le> n' \<Longrightarrow> flight_ok D n' f"
  by (cases f) auto

lemma readable_ok: "readable stores seen \<Longrightarrow> list_all store_ok stores \<Longrightarrow> store_ok seen"
  unfolding readable_def store_ok_def list_all_iff by metis

lemma list_all_drop: "list_all P xs \<Longrightarrow> list_all P (drop k xs)"
  by (auto simp: list_all_iff dest: in_set_dropD)

lemma conclude_total:
  assumes "decimal_laws D" "json_total D J" "table_priced D (px_price_table proxy)"
    and "\<And>u. upstream = Ok u \<Longrightarrow> upstream_ok u"
    and "duration_ok (ck_response_completed_at clk)" "store_ok (rc_measurements rc)"
  shows "\<exists>rc' answer. conclude D J to_str proxy clk plan upstream rc = Some (rc', answer) \<and> store_ok (rc_measurements rc')"
  using assms forward_response_total [OF assms(1-3) _ assms(5,6)]
  by (cases upstream) (simp_all add: conclude_def)

lemma environment_keeps_ok:
  assumes laws: "decimal_laws (os_decimal S)" "json_total (os_decimal S) (os_json S)"
    and sv: "service_ok (os_decimal S) sv" and step: "environment_step S sv moment_ok r r'" and ok: "run_ok (os_decimal S) sv r"
  shows "run_ok (os_decimal S) sv r'"
proof -
  have st: "state_ok sv (rn_state r)" using ok by (simp add: run_ok_def)
  have health: "state_ok sv (rn_state r\<lparr>ss_ledger := l\<rparr>)" if "status_of (l_database_health l) \<noteq> None" for l
    using st that by (simp add: state_ok_def)
  from step have "state_ok sv (rn_state r')"
  proof cases
    case incoming
    then show ?thesis
    proof cases
      case (answered now request st' sent answer)
      with handle_request_preserves [OF laws sv st] show ?thesis by auto
    qed (use st in simp)
  next
    case background
    then show ?thesis
    proof cases
      case (written k ledger' outcome)
      then have "status_of (l_database_health ledger') \<noteq> None"
        unfolding ledger_insert_def by (blast dest: settle_health)
      with written health show ?thesis by simp
    next
      case (supervised w w')
      have "status_of (w_health w') \<noteq> None"
        using supervisor_step_status [OF supervised(3)] supervised(2) st by (simp add: state_ok_def)
      with supervised health show ?thesis by simp
    qed (use st in simp)
  qed
  moreover have "flight_ok (os_decimal S) (length (rn_stores r)) f" if "rn_flights r' i = Some f" for i f
    using environment_flights [OF step that] ok by (cases; fastforce simp: run_ok_def)
  ultimately show ?thesis using environment_frame [OF step] ok by (simp add: run_ok_def)
qed

lemma planning_total:
  assumes "decimal_laws D" "json_total D J" "service_ok D sv" "store_ok seen"
    and "shares_ok (pol_config (px_routing (sv_proxy sv))) st"
  shows "\<exists>outcome. plan_completion D R J (sv_proxy sv) seen st profile endpoint body = Some outcome"
proof -
  obtain reg config rng and st0 :: "nat routing_state" where
    routes: "routing_from_registry D reg config rng = Ok (px_routing (sv_proxy sv), st0)"
    and config: "routing_config_ok D config"
    using assms(3) by (auto simp: service_ok_def)
  have "shares_ok config st" using assms(5) by (simp add: routes_lookup(5) [OF routes])
  show ?thesis
  proof (cases "from_slice J body")
    case (Some request)
    obtain st' request' decided where "route_for_endpoint D R (px_routing (sv_proxy sv)) seen st profile endpoint request
        = Some (st', request', decided)"
      using route_never_panics [OF assms(1) routing_table_any_generator [OF routes] config assms(4) \<open>shares_ok config st\<close>]
      by (metis surj_pair)
    with Some json_totalD(1) [OF assms(2), of request'] show ?thesis
      by (cases decided) (auto simp: plan_completion_def Let_def)
  qed (simp add: plan_completion_def)
qed

lemma service_window:
  assumes "service_ok D sv"
  shows "0 < rg_share_window (pol_config (px_routing (sv_proxy sv)))"
proof -
  obtain reg config rng and st0 :: "nat routing_state" where
    "routing_from_registry D reg config rng = Ok (px_routing (sv_proxy sv), st0)" "routing_config_ok D config"
    using assms by (auto simp: service_ok_def)
  then show ?thesis using routes_lookup(5) by (force simp: routing_config_ok_def)
qed

lemma planned_object:
  "plan_completion D R J proxy seen st profile endpoint body = Some (st', Ok plan) \<Longrightarrow> \<exists>entries. pl_request plan = JObject entries"
  by (erule plan_completion_cases) (auto elim: route_OkE)

lemma json_set_object: "json_set k v current = Some changed \<Longrightarrow> \<exists>entries. changed = JObject entries"
  by (cases current) auto

lemma sidecar_answer_ok:
  "moment_ok now \<Longrightarrow> send_attempt (mo_sidecar now) n url b = Ok u \<Longrightarrow> upstream_ok u"
  unfolding send_attempt_def moment_ok_def by blast

lemma concluding_total:
  assumes laws: "decimal_laws (os_decimal S)" "json_total (os_decimal S) (os_json S)"
    and "service_ok (os_decimal S) sv" "run_ok (os_decimal S) sv r" "moment_ok now"
    and "rn_flights r i = Some (Waiting request plan n current upstream models)"
  shows "\<exists>rc' answer. conclude (os_decimal S) (os_json S) (os_to_str S) (sv_proxy sv) (mo_clock now) plan upstream
      (rn_recorder r) = Some (rc', answer) \<and> store_ok (rc_measurements rc')"
proof (rule conclude_total [OF laws])
  show "upstream_ok u" if "upstream = Ok u" for u
    using assms(4,6) that by (fastforce simp: run_ok_def)
qed (use assms in \<open>simp_all add: service_ok_def moment_ok_def run_ok_def state_ok_def\<close>)

lemma streamed_total:
  assumes laws: "decimal_laws (os_decimal S)" "json_total (os_decimal S) (os_json S)"
    and "run_ok (os_decimal S) sv r" and "rn_flights r i = Some (Streaming request plan u served tr gen items out)"
  shows "\<exists>turn rc'. stream_turn (os_decimal S) (os_json S) tr gen (rn_recorder r) items (us_last_tick u) = Some (turn, rc') \<and>
    store_ok (rc_measurements rc') \<and>
    (\<forall>tr' gen' rest new. turn = GoesOn tr' gen' rest new \<longrightarrow>
       flowing (os_decimal S) (dec_canonical_model (pl_decision plan)) tr' gen' rest (us_last_tick u))"
  using assms(3,4) by (intro flowing_turn [OF laws]) (fastforce simp: run_ok_def state_ok_def)+

lemma flight_keeps_ok:
  assumes laws: "decimal_laws (os_decimal S)" "json_total (os_decimal S) (os_json S)"
    and sv: "service_ok (os_decimal S) sv" and step: "flight_step S sv moment_ok i r r'" and ok: "run_ok (os_decimal S) sv r"
  shows "run_ok (os_decimal S) sv r'"
proof -
  have st: "state_ok sv (rn_state r)" and shares: "shares_ok (pol_config (px_routing (sv_proxy sv))) (rn_routing r)"
    using ok by (simp_all add: run_ok_def state_ok_def)
  have flights: "flight_ok (os_decimal S) (length (rn_stores r)) f" if "rn_flights r j = Some f" for j f
    using ok that by (simp add: run_ok_def)
  have routed: "state_ok sv (with_routing routing' (rn_state r))"
    if "plan_completion D R J (sv_proxy sv) seen (rn_routing r) profile endpoint body = Some (routing', planned)"
    for D R J seen profile endpoint body routing' planned
    using plan_completion_shared [OF that refl service_window [OF sv] shares] st
    by (simp add: state_ok_def with_routing_def)
  from step show ?thesis
  proof cases
    case (refused request profile endpoint k seen routing' answer)
    with routed [OF refused(4)] flights ok show ?thesis by (auto simp: run_ok_def with_routing_def)
  next
    case (planned request profile endpoint k seen routing' plan)
    with routed [OF planned(4)] flights planned_object [OF planned(4)] ok show ?thesis
      by (auto simp: run_ok_def with_routing_def)
  next
    case (sent_first request plan now url)
    with flights [OF sent_first(2)] flights ok sidecar_answer_ok [OF sent_first(3)] show ?thesis
      by (auto simp: run_ok_def)
  next
    case (retried request plan n current upstream name models now next_request b url)
    with flights ok sidecar_answer_ok [OF retried(3)] json_set_object [OF retried(5)] show ?thesis
      by (auto simp: run_ok_def)
  next
    case (concluded request plan n current upstream models now rc' answer)
    note concluding_total [OF laws sv ok concluded(3,2)]
    with concluded(6) have "store_ok (rc_measurements rc')" by simp
    with concluded flights ok st show ?thesis
      by (auto simp: run_ok_def state_ok_def with_recorder_def intro: flight_ok_mono [of _ "length (rn_stores r)"])
  next
    case (stream_started request plan n current upstream models now u served st' g)
    have "upstream_ok u" using flights [OF stream_started(2)] stream_started(5) by (auto simp: opened_def split: result.splits)
    with stream_started(5) sv have "flowing (os_decimal S) (dec_canonical_model (pl_decision plan)) (Some st') (Some g)
        (us_items u) (us_last_tick u)"
      by (auto simp: opened_def service_ok_def split: result.splits intro: opens_flowing)
    with stream_started(1) flights ok show ?thesis by (auto simp: run_ok_def)
  next
    case (polled request plan u served tr gen items out tr' gen' rest new rc')
    from streamed_total [OF laws ok polled(2)] polled(3) have
      "store_ok (rc_measurements rc')" "flowing (os_decimal S) (dec_canonical_model (pl_decision plan)) tr' gen' rest (us_last_tick u)"
      by auto
    with polled(1) flights ok st show ?thesis
      by (auto simp: run_ok_def state_ok_def with_recorder_def intro: flight_ok_mono [of _ "length (rn_stores r)"])
  next
    case (stream_ended request plan u served tr gen items out new rc')
    from streamed_total [OF laws ok stream_ended(2)] stream_ended(3) have "store_ok (rc_measurements rc')" by auto
    with stream_ended(1) flights ok st show ?thesis
      by (auto simp: run_ok_def state_ok_def with_recorder_def intro: flight_ok_mono [of _ "length (rn_stores r)"])
  qed
qed

lemma runs_ok:
  assumes laws: "decimal_laws (os_decimal S)" "json_total (os_decimal S) (os_json S)"
    and sv: "service_ok (os_decimal S) sv" and "runs S sv moment_ok st0 r" and "state_ok sv st0"
  shows "run_ok (os_decimal S) sv r"
  using assms(4) unfolding runs_def
proof (induction rule: rtranclp_induct)
  case base
  show ?case using assms(5) by (simp add: run_start_def run_ok_def state_ok_def)
next
  case (step r r')
  from step.hyps(2) flight_keeps_ok [OF laws sv _ step.IH] environment_keeps_ok [OF laws sv _ step.IH]
  show ?case by (cases rule: run_step.cases) blast+
qed

text \<open>The next step of a completion, and how far it is from its answer.\<close>

lemma flight_progress:
  fixes S :: "('d, 'u, 'r, 'db, 'ts, 'pe) outside" and r :: "('d, 'r, 'db, 'u, 'e) run" and now :: "('u, 'e) moment"
  assumes laws: "decimal_laws (os_decimal S)" "json_total (os_decimal S) (os_json S)"
    and sv: "service_ok (os_decimal S) sv" and ok: "run_ok (os_decimal S) sv r" and now: "moment_ok now"
    and flight: "rn_flights r i = Some f"
  shows "\<exists>r'. flight_step S sv moment_ok i r r'"
proof (cases f)
  case (Arrived request profile endpoint k)
  note arrived = flight [unfolded Arrived]
  have k: "k < length (rn_stores r)" using ok arrived by (fastforce simp: run_ok_def)
  let ?seen = "last (rn_stores r)"
  have readable: "readable (drop k (rn_stores r)) ?seen"
    using k last_in_set [of "drop k (rn_stores r)"] by (auto simp: readable_def)
  have "store_ok ?seen" "shares_ok (pol_config (px_routing (sv_proxy sv))) (rn_routing r)"
    using ok by (simp_all add: run_ok_def state_ok_def list_all_iff)
  from planning_total [OF laws sv this] obtain routing' planned where
    plan: "plan_completion (os_decimal S) (os_rand S) (os_json S) (sv_proxy sv) ?seen (rn_routing r) profile endpoint
      (hq_body request) = Some (routing', planned)"
    by (metis surj_pair)
  show ?thesis
  proof (cases planned)
    case (Ok p)
    from plan [unfolded Ok] show ?thesis by (intro exI) (rule flight_step.planned [OF arrived readable])
  next
    case (Err answer)
    from plan [unfolded Err] show ?thesis by (intro exI) (rule flight_step.refused [OF arrived readable])
  qed
next
  case (Planned request plan)
  from now show ?thesis
    by (intro exI) (rule flight_step.sent_first [OF flight [unfolded Planned] _ refl])
next
  case (Streaming request plan u served tr gen items out)
  note streaming = flight [unfolded Streaming]
  obtain turn rc' where turn: "stream_turn (os_decimal S) (os_json S) tr gen (rn_recorder r) items (us_last_tick u) =
      Some (turn, rc')"
    using streamed_total [OF laws ok streaming] by blast
  show ?thesis
  proof (cases turn)
    case (GoesOn tr' gen' rest new)
    from turn [unfolded GoesOn] show ?thesis by (intro exI) (rule flight_step.polled [OF streaming])
  next
    case (Ends new)
    from turn [unfolded Ends] show ?thesis by (intro exI) (rule flight_step.stream_ended [OF streaming])
  qed
next
  case (Waiting request plan n current upstream models)
  note waiting = flight [unfolded Waiting]
  have current: "\<exists>entries. current = JObject entries"
    using ok waiting by (fastforce simp: run_ok_def)
  show ?thesis
  proof (cases "models = [] \<or> \<not> should_fallback upstream")
    case True
    obtain rc' answer where concluding: "conclude (os_decimal S) (os_json S) (os_to_str S) (sv_proxy sv) (mo_clock now)
        plan upstream (rn_recorder r) = Some (rc', answer)"
      using concluding_total [OF laws sv ok now waiting] by blast
    show ?thesis
    proof (cases "opened (os_to_str S) (sv_proxy sv) (mo_clock now) plan upstream")
      case None
      from concluding show ?thesis
        by (intro exI) (rule flight_step.concluded [where allowed = moment_ok and now = now, OF waiting now True None])
    next
      case (Some found)
      obtain u served st g where "found = (u, served, st, g)" by (cases found)
      from Some [unfolded this] show ?thesis
        by (intro exI) (rule flight_step.stream_started [where allowed = moment_ok and now = now, OF waiting now True])
    qed
  next
    case False
    then obtain name rest where models: "models = name # rest" by (cases models) auto
    obtain changed where changed: "json_set ''model'' (JString name) current = Some changed" using current by auto
    obtain b where "to_vec (os_json S) changed = Some b" using json_totalD(1) [OF laws(2)] by blast
    with False show ?thesis
      by (intro exI) (rule flight_step.retried [where allowed = moment_ok and now = now,
          OF waiting [unfolded models] now _ changed _ refl], simp_all)
  qed
qed

fun flight_rank :: "('d, 'e) flight option \<Rightarrow> nat \<times> nat" where
  "flight_rank None = (0, 0)"
| "flight_rank (Some (Streaming _ _ _ _ _ _ items _)) = (1, length items)"
| "flight_rank (Some (Waiting _ _ _ _ _ models)) = (2, length models)"
| "flight_rank (Some (Planned _ _)) = (3, 0)"
| "flight_rank (Some (Arrived _ _ _ _)) = (4, 0)"

lemma flight_step_lowers:
  "flight_step S sv allowed i r r' \<Longrightarrow>
   (flight_rank (rn_flights r' i), flight_rank (rn_flights r i)) \<in> less_than <*lex*> less_than"
  by (erule flight_step.cases) (auto dest: stream_turn_shortens)

lemma flight_step_answers:
  assumes "flight_step S sv allowed i r r'"
  shows "if rn_flights r' i = None then \<exists>completed. rn_answered r' = rn_answered r @ [completed]
    else rn_answered r' = rn_answered r"
  using assms by cases simp_all

lemma flight_finishes:
  fixes S :: "('d, 'u, 'r, 'db, 'ts, 'pe) outside" and r :: "('d, 'r, 'db, 'u, 'e) run" and now :: "('u, 'e) moment"
  assumes laws: "decimal_laws (os_decimal S)" "json_total (os_decimal S) (os_json S)"
    and sv: "service_ok (os_decimal S) sv" and now: "moment_ok now"
    and ok: "run_ok (os_decimal S) sv r" and flight: "rn_flights r i = Some f"
  shows "\<exists>r' completed. (flight_step S sv moment_ok i)\<^sup>*\<^sup>* r r' \<and> rn_flights r' i = None \<and>
    rn_answered r' = rn_answered r @ [completed]"
proof -
  have "wf (inv_image (less_than <*lex*> less_than) (\<lambda>r. flight_rank (rn_flights r i)))" by auto
  then show ?thesis using ok flight
  proof (induction r arbitrary: f rule: wf_induct_rule)
    case (less r)
    obtain r1 where step: "flight_step S sv moment_ok i r r1"
      using flight_progress [OF laws sv less.prems(1) now less.prems(2)] by blast
    show ?case
    proof (cases "rn_flights r1 i")
      case None
      with step flight_step_answers [OF step] show ?thesis by (auto intro: r_into_rtranclp)
    next
      case (Some g)
      have "run_ok (os_decimal S) sv r1" by (rule flight_keeps_ok [OF laws sv step less.prems(1)])
      from less.IH [OF _ this Some] flight_step_lowers [OF step] obtain r' completed where
        "(flight_step S sv moment_ok i)\<^sup>*\<^sup>* r1 r'" "rn_flights r' i = None" "rn_answered r' = rn_answered r1 @ [completed]"
        by auto
      with step flight_step_answers [OF step] Some show ?thesis
        by (auto intro: converse_rtranclp_into_rtranclp)
    qed
  qed
qed

section \<open>A request handled alone\<close>

lemma runs_stores:
  assumes "runs S sv allowed st0 r"
  shows "rn_stores r \<noteq> [] \<and> last (rn_stores r) = rc_measurements (rn_recorder r)"
  using assms unfolding runs_def
proof (induction rule: rtranclp_induct)
  case base
  show ?case by (simp add: run_start_def)
next
  case (step r r')
  from step.hyps(2) show ?case
  proof cases
    case (own i)
    then show ?thesis using step.IH by cases (simp_all add: run_state_defs)
  next
    case other
    from environment_frame [OF other] step.IH show ?thesis by simp
  qed
qed

text \<open>The loop over the fallbacks, attempt by attempt.\<close>

lemma fallbacks_in_steps:
  assumes "send_fallbacks (os_json S) (mo_sidecar now) url n current upstream models = Some (final, requests)"
    and "allowed now" "url = endpoint_url (sv_proxy sv) (pl_endpoint plan)"
    and "rn_flights r i = Some (Waiting request plan n current upstream models)"
  shows "\<exists>n' current' models'. (flight_step S sv allowed i)\<^sup>*\<^sup>* r
      (r\<lparr>rn_flights := (rn_flights r)(i := Some (Waiting request plan n' current' final models')),
         rn_sent := rn_sent r @ map (Pair request) requests\<rparr>) \<and> (models' = [] \<or> \<not> should_fallback final)"
  using assms(1,4)
proof (induction models arbitrary: n current upstream requests r)
  case Nil
  then have "r\<lparr>rn_flights := (rn_flights r)(i := Some (Waiting request plan n current final [])),
      rn_sent := rn_sent r @ map (Pair request) requests\<rparr> = r"
    by (simp add: fun_upd_idem)
  then show ?case by (metis rtranclp.rtrancl_refl)
next
  case (Cons name models)
  show ?case
  proof (cases "should_fallback upstream")
    case False
    with Cons.prems(1) have "final = upstream" "requests = []" by simp_all
    with False Cons.prems(2) show ?thesis
      by (intro exI [of _ n] exI [of _ current] exI [of _ "name # models"]) (simp add: fun_upd_idem)
  next
    case True
    then obtain changed b rest where changed: "json_set ''model'' (JString name) current = Some changed"
      and b: "to_vec (os_json S) changed = Some b"
      and rest: "send_fallbacks (os_json S) (mo_sidecar now) url (Suc n) changed
          (send_attempt (mo_sidecar now) (Suc n) url b) models = Some (final, rest)"
      and requests: "requests = upstream_request_of url b # rest"
      using Cons.prems(1) by (auto simp: bind_eq_Some_conv)
    let ?r = "r\<lparr>rn_flights := (rn_flights r)(i := Some (Waiting request plan (Suc n) changed
        (send_attempt (mo_sidecar now) (Suc n) url b) models)),
      rn_sent := rn_sent r @ [(request, upstream_request_of url b)]\<rparr>"
    have step: "flight_step S sv allowed i r ?r"
      by (rule flight_step.retried [where allowed = allowed and now = now, OF Cons.prems(2) assms(2) True changed b assms(3)])
    have "rn_flights ?r i = Some (Waiting request plan (Suc n) changed
        (send_attempt (mo_sidecar now) (Suc n) url b) models)" by simp
    from Cons.IH [OF rest this] obtain n' current' models' where
      path: "(flight_step S sv allowed i)\<^sup>*\<^sup>* ?r
         (?r\<lparr>rn_flights := (rn_flights ?r)(i := Some (Waiting request plan n' current' final models')),
             rn_sent := rn_sent ?r @ map (Pair request) rest\<rparr>)" and stop: "models' = [] \<or> \<not> should_fallback final"
      by blast
    from converse_rtranclp_into_rtranclp [of "flight_step S sv allowed i", OF step path] stop show ?thesis
      unfolding requests by (intro exI [of _ n'] exI [of _ current'] exI [of _ models']) (simp add: fun_upd_def cong: if_cong)
  qed
qed

text \<open>A streamed answer, turn by turn.\<close>

lemma stream_in_steps:
  assumes "response_stream (os_decimal S) (os_json S) tr gen (rn_recorder r) items (us_last_tick u) = Some (later, rc')"
    and "rn_flights r i = Some (Streaming request plan u served tr gen items out)"
  shows "\<exists>r'. (flight_step S sv allowed i)\<^sup>*\<^sup>* r r' \<and> rn_state r' = with_recorder rc' (rn_state r) \<and>
    rn_flights r' = (rn_flights r)(i := None) \<and> rn_sent r' = rn_sent r \<and>
    rn_answered r' = rn_answered r @ [(Some plan, streamed_answer u served (out @ later))]"
  using assms
proof (induction items arbitrary: tr gen r out later rule: measure_induct_rule [of length])
  case (less items)
  obtain turn rc1 where turn: "stream_turn (os_decimal S) (os_json S) tr gen (rn_recorder r) items (us_last_tick u)
      = Some (turn, rc1)"
    using less.prems(1) by (auto simp: response_stream_turn [of _ _ tr] bind_eq_Some_conv)
  show ?case
  proof (cases turn)
    case (Ends new)
    with turn less.prems(1) have "rc1 = rc'" "new = later" by (simp_all add: response_stream_turn [of _ _ tr])
    have "stream_turn (os_decimal S) (os_json S) tr gen (rn_recorder r) items (us_last_tick u) = Some (Ends later, rc')"
      using turn Ends \<open>rc1 = rc'\<close> \<open>new = later\<close> by simp
    from flight_step.stream_ended [where sv = sv and allowed = allowed, OF less.prems(2) this] show ?thesis
      by (intro exI [of _ "r\<lparr>rn_state := with_recorder rc' (rn_state r), rn_flights := (rn_flights r)(i := None),
          rn_stores := rn_stores r @ [rc_measurements rc'],
          rn_answered := rn_answered r @ [(Some plan, streamed_answer u served (out @ later))]\<rparr>"]) auto
  next
    case (GoesOn tr' gen' rest new)
    then obtain later' where rest: "response_stream (os_decimal S) (os_json S) tr' gen' rc1 rest (us_last_tick u)
        = Some (later', rc')" and later: "later = new @ later'"
      using turn less.prems(1) by (auto simp: response_stream_turn [of _ _ tr] bind_eq_Some_conv)
    obtain r1 where r1: "r1 = r\<lparr>rn_state := with_recorder rc1 (rn_state r),
          rn_flights := (rn_flights r)(i := Some (Streaming request plan u served tr' gen' rest (out @ new))),
          rn_stores := rn_stores r @ [rc_measurements rc1]\<rparr>" by blast
    have s1: "flight_step S sv allowed i r r1"
      unfolding r1 by (rule flight_step.polled [OF less.prems(2) turn [unfolded GoesOn]])
    have "rn_recorder r1 = rc1" and flight: "rn_flights r1 i = Some (Streaming request plan u served tr' gen' rest (out @ new))"
      by (simp_all add: r1 with_recorder_def)
    then have "response_stream (os_decimal S) (os_json S) tr' gen' (rn_recorder r1) rest (us_last_tick u) = Some (later', rc')"
      using rest by simp
    from less.IH [OF stream_turn_shortens [OF turn [unfolded GoesOn]] this flight]
    obtain r' where "(flight_step S sv allowed i)\<^sup>*\<^sup>* r1 r'" "rn_state r' = with_recorder rc' (rn_state r1)"
      "rn_flights r' = (rn_flights r1)(i := None)" "rn_sent r' = rn_sent r1"
      "rn_answered r' = rn_answered r1 @ [(Some plan, streamed_answer u served ((out @ new) @ later'))]"
      by blast
    with s1 show ?thesis
      by (intro exI [of _ r']) (auto simp: r1 later with_recorder_def intro: converse_rtranclp_into_rtranclp)
  qed
qed

text \<open>The end of a completion, whichever it is.\<close>

lemma conclusion_in_steps:
  assumes run: "conclude (os_decimal S) (os_json S) (os_to_str S) (sv_proxy sv) (mo_clock now) plan upstream (rn_recorder r)
      = Some (rc', answer)"
    and now: "allowed now" and flight: "rn_flights r i = Some (Waiting request plan n current upstream models)"
    and stop: "models = [] \<or> \<not> should_fallback upstream"
  shows "\<exists>r'. (flight_step S sv allowed i)\<^sup>*\<^sup>* r r' \<and> rn_state r' = with_recorder rc' (rn_state r) \<and>
    rn_flights r' = (rn_flights r)(i := None) \<and> rn_sent r' = rn_sent r \<and>
    rn_answered r' = rn_answered r @ [(Some plan, answer)]"
proof (cases "opened (os_to_str S) (sv_proxy sv) (mo_clock now) plan upstream")
  case None
  from flight_step.concluded [where allowed = allowed and now = now, OF flight now stop None run] show ?thesis
    by (intro exI [of _ "r\<lparr>rn_state := with_recorder rc' (rn_state r), rn_flights := (rn_flights r)(i := None),
          rn_stores := rn_stores r @ [rc_measurements rc'], rn_answered := rn_answered r @ [(Some plan, answer)]\<rparr>"]) auto
next
  case (Some found)
  obtain u served st g where found: "found = (u, served, st, g)" by (cases found)
  then have upstream: "upstream = Ok u" and opens: "opens_stream (os_to_str S) (sv_proxy sv) (mo_clock now) (pl_profile plan)
      (pl_endpoint plan) (pl_stream plan) (pl_decision plan) u = Some (served, st, g)"
    using Some by (auto simp: opened_def split: result.splits)
  obtain items where items: "response_stream (os_decimal S) (os_json S) (Some st) (Some g) (rn_recorder r) (us_items u)
      (us_last_tick u) = Some (items, rc')" and answer: "answer = streamed_answer u served items"
    using run by (auto simp: conclude_def upstream forward_response_streams [OF opens] bind_eq_Some_conv)
  obtain r1 where r1: "r1 = r\<lparr>rn_flights := (rn_flights r)(i := Some (Streaming request plan u served (Some st) (Some g) (us_items u) []))\<rparr>"
    by blast
  have s1: "flight_step S sv allowed i r r1"
    unfolding r1 by (rule flight_step.stream_started [where allowed = allowed and now = now, OF flight now stop Some [unfolded found]])
  have "rn_recorder r1 = rn_recorder r" and "rn_flights r1 i = Some (Streaming request plan u served (Some st) (Some g) (us_items u) [])"
    by (simp_all add: r1)
  from stream_in_steps [where allowed = allowed and sv = sv, OF _ this(2)] items this(1) obtain r' where
    "(flight_step S sv allowed i)\<^sup>*\<^sup>* r1 r'" "rn_state r' = with_recorder rc' (rn_state r1)"
    "rn_flights r' = (rn_flights r1)(i := None)" "rn_sent r' = rn_sent r1"
    "rn_answered r' = rn_answered r1 @ [(Some plan, streamed_answer u served items)]"
    by fastforce
  with s1 show ?thesis
    by (intro exI [of _ r']) (auto simp: r1 answer intro: converse_rtranclp_into_rtranclp)
qed

lemma completion_alone:
  assumes run: "forward (os_decimal S) (os_rand S) (os_json S) (os_to_str S) (sv_proxy sv) (mo_sidecar now) (mo_clock now)
      (ss_shared (rn_state r)) profile endpoint (hq_body request) = Some (sh', requests, answer)"
    and now: "allowed now" and flight: "rn_flights r i = Some (Arrived request profile endpoint (length (rn_stores r) - 1))"
    and stores: "rn_stores r \<noteq> []" "last (rn_stores r) = rc_measurements (rn_recorder r)"
  shows "\<exists>r' completed. (flight_step S sv allowed i)\<^sup>*\<^sup>* r r' \<and> rn_state r' = (rn_state r)\<lparr>ss_shared := sh'\<rparr> \<and>
    rn_flights r' = (rn_flights r)(i := None) \<and> rn_sent r' = rn_sent r @ map (Pair request) requests \<and>
    rn_answered r' = rn_answered r @ [(completed, answer)]"
proof -
  have "drop (length (rn_stores r) - 1) (rn_stores r) = [rc_measurements (rn_recorder r)]"
    using stores by (metis append_butlast_last_id append_eq_conv_conj length_butlast)
  then have readable: "readable (drop (length (rn_stores r) - 1) (rn_stores r)) (rc_measurements (rn_recorder r))"
    by (simp add: readable_def)
  from run [unfolded forward_in_steps] obtain routing' planned where
    plan: "plan_completion (os_decimal S) (os_rand S) (os_json S) (sv_proxy sv) (rc_measurements (rn_recorder r))
        (rn_routing r) profile endpoint (hq_body request) = Some (routing', planned)"
    by (auto simp: bind_eq_Some_conv)
  note run = run [unfolded forward_in_steps plan, simplified]
  show ?thesis
  proof (cases planned)
    case (Err e)
    from flight_step.refused [OF flight readable plan [unfolded Err]] run Err show ?thesis
      by (intro exI [of _ "r\<lparr>rn_state := with_routing routing' (rn_state r), rn_flights := (rn_flights r)(i := None),
          rn_answered := rn_answered r @ [(None, e)]\<rparr>"]) (auto simp: with_routing_def)
  next
    case (Ok p)
    let ?url = "endpoint_url (sv_proxy sv) (pl_endpoint p)"
    have endpoint: "pl_endpoint p = endpoint" using plan Ok by (cases rule: plan_completion_cases) auto
    from run Ok obtain final rest rc' where
      rest: "send_fallbacks (os_json S) (mo_sidecar now) ?url 0 (pl_request p)
          (send_attempt (mo_sidecar now) 0 ?url (pl_body p)) (dec_fallback_models (pl_decision p)) = Some (final, rest)"
      and requests: "requests = upstream_request_of ?url (pl_body p) # rest"
      and concl: "conclude (os_decimal S) (os_json S) (os_to_str S) (sv_proxy sv) (mo_clock now) p final (rn_recorder r)
          = Some (rc', answer)"
      and sh': "sh' = (ss_shared (rn_state r))\<lparr>sh_routing := routing', sh_recorder := rc'\<rparr>"
      by (auto simp: endpoint send_selected_then_fallback_def bind_eq_Some_conv)
    let ?waiting = "Waiting request p 0 (pl_request p) (send_attempt (mo_sidecar now) 0 ?url (pl_body p))
        (dec_fallback_models (pl_decision p))"
    obtain r1 where r1: "r1 = r\<lparr>rn_state := with_routing routing' (rn_state r),
        rn_flights := (rn_flights r)(i := Some (Planned request p)), rn_decided := rn_decided r @ [decided_route p]\<rparr>"
      by blast
    obtain r2 where r2: "r2 = r1\<lparr>rn_flights := (rn_flights r1)(i := Some ?waiting),
        rn_sent := rn_sent r1 @ [(request, upstream_request_of ?url (pl_body p))]\<rparr>"
      by blast
    have s1: "flight_step S sv allowed i r r1"
      unfolding r1 by (rule flight_step.planned [OF flight readable plan [unfolded Ok]])
    have s2: "flight_step S sv allowed i r1 r2"
      unfolding r2 by (rule flight_step.sent_first [where now = now]) (simp_all add: r1 now)
    have "rn_flights r2 i = Some ?waiting" by (simp add: r2)
    from fallbacks_in_steps [where allowed = allowed and sv = sv and plan = p, OF rest now refl this]
    obtain n' current' models' r3 where s3: "(flight_step S sv allowed i)\<^sup>*\<^sup>* r2 r3"
      and r3: "r3 = r2\<lparr>rn_flights := (rn_flights r2)(i := Some (Waiting request p n' current' final models')),
            rn_sent := rn_sent r2 @ map (Pair request) rest\<rparr>"
      and stop: "models' = [] \<or> \<not> should_fallback final" by blast
    have "rn_recorder r3 = rn_recorder r" and "rn_flights r3 i = Some (Waiting request p n' current' final models')"
      by (simp_all add: r3 r2 r1 with_routing_def)
    from conclusion_in_steps [where S = S and allowed = allowed and sv = sv and now = now and rc' = rc' and answer = answer,
        OF _ now this(2) stop] concl this(1) obtain r4 where s4: "(flight_step S sv allowed i)\<^sup>*\<^sup>* r3 r4" and r4: "rn_state r4 = with_recorder rc' (rn_state r3)"
      "rn_flights r4 = (rn_flights r3)(i := None)" "rn_sent r4 = rn_sent r3"
      "rn_answered r4 = rn_answered r3 @ [(Some p, answer)]"
      by auto
    have "(flight_step S sv allowed i)\<^sup>*\<^sup>* r r4" using s1 s2 s3 s4 by (meson r_into_rtranclp rtranclp_trans)
    then show ?thesis
      by (intro exI [of _ r4] exI [of _ "Some p"]) (simp add: r4 r3 r2 r1 requests sh' run_state_defs)
  qed
qed

text \<open>Every sequential run is a run: a request handled with nothing in between is a schedule of its
  steps, with the same state, the same requests sent and the same answer.\<close>

lemma handled_in_steps:
  assumes run: "runs S sv allowed st0 r" and now: "allowed now" and free: "rn_flights r i = None"
    and handled: "handle_request S sv now (rn_state r) request = Some (st', sent, answer)"
  shows "\<exists>r' completed. runs S sv allowed st0 r' \<and> rn_state r' = st' \<and> rn_flights r' = rn_flights r \<and>
    rn_sent r' = rn_sent r @ map (Pair request) sent \<and>
    rn_answered r' = rn_answered r @ (if completion_of S sv now request = None then [] else [(completed, answer)])"
proof (cases "completion_of S sv now request")
  case None
  from incoming_step.answered [where allowed = allowed and now = now, OF now None handled] have
    "run_step S sv allowed r (r\<lparr>rn_state := st'\<rparr>)" by (blast intro: run_step.other environment_step.incoming)
  then have "runs S sv allowed st0 (r\<lparr>rn_state := st'\<rparr>)"
    using run unfolding runs_def by (rule rtranclp.rtrancl_into_rtrancl [rotated])
  with None completion_of_None [OF None handled] show ?thesis
    by (intro exI [of _ "r\<lparr>rn_state := st'\<rparr>"]) simp
next
  case (Some completion)
  obtain profile endpoint where c: "completion = (profile, endpoint)" by (cases completion)
  let ?f = "Arrived request profile endpoint (length (rn_stores r) - 1)"
  obtain r1 where r1: "r1 = r\<lparr>rn_flights := (rn_flights r)(i := Some ?f)\<rparr>" by blast
  have "run_step S sv allowed r r1"
    unfolding r1 by (rule run_step.other, rule environment_step.incoming, rule incoming_step.arrived [where allowed = allowed and now = now, OF free now Some [unfolded c]])
  then have runs1: "runs S sv allowed st0 r1"
    using run unfolding runs_def by (rule rtranclp.rtrancl_into_rtrancl [rotated])
  from handled obtain sh' where
    "forward (os_decimal S) (os_rand S) (os_json S) (os_to_str S) (sv_proxy sv) (mo_sidecar now) (mo_clock now)
       (ss_shared (rn_state r1)) profile endpoint (hq_body request) = Some (sh', sent, answer)"
    and st': "st' = (rn_state r)\<lparr>ss_shared := sh'\<rparr>"
    by (cases endpoint) (auto simp: completion_of_handled(2) [OF Some [unfolded c]] serve_completion_def
        chat_completions_def legacy_completions_def bind_eq_Some_conv r1)
  from completion_alone [where allowed = allowed and i = i, OF this(1) now] runs_stores [OF run]
  obtain r' completed where steps: "(flight_step S sv allowed i)\<^sup>*\<^sup>* r1 r'" and r': "rn_state r' = st'"
    "rn_flights r' = (rn_flights r1)(i := None)" "rn_sent r' = rn_sent r1 @ map (Pair request) sent"
    "rn_answered r' = rn_answered r1 @ [(completed, answer)]"
    by (auto simp: r1 st')
  have "(run_step S sv allowed)\<^sup>*\<^sup>* r1 r'"
    using steps by (rule rtranclp_mono [THEN predicate2D, rotated]) (auto intro: run_step.own)
  with runs1 have "runs S sv allowed st0 r'" unfolding runs_def by (rule rtranclp_trans)
  moreover have "rn_flights r' = rn_flights r" using free by (simp add: r'(2) r1 fun_upd_idem)
  ultimately show ?thesis using r' Some by (intro exI [of _ r'] exI [of _ completed]) (simp add: r1)
qed

end
