(* ===== verification/Lifecycle.thy ===== *)
theory Lifecycle
  imports Flight_Progress "HOL-Library.Multiset"
begin

text \<open>
  The process around the service (\<open>main\<close> and the end of \<open>serve\<close> in \<open>server.rs\<close>): logging is set up,
  the command is dispatched, the server binds its address and listens until a signal; then it
  accepts nothing more and drains what it has accepted, until the last answer or the deadline of
  \<open>shutdown_signal\<close>. What axum documents of a graceful shutdown is a phase: no connection is
  accepted after the signal, and those open then bring a number of further requests that no bound
  in this code limits, each of which can also close instead.
\<close>

section \<open>Logging\<close>

datatype log_format = PlainText | JsonLines

record 'f tracing =
  tg_filter :: 'f
  tg_format :: log_format

text \<open>\<open>try_new\<close> and \<open>new_lossy\<close> are \<open>EnvFilter\<close>'s parsers of directives.\<close>

definition setup_tracing ::
  "(string \<Rightarrow> 'f option) \<Rightarrow> (string \<Rightarrow> 'f) \<Rightarrow> (string \<Rightarrow> env_var) \<Rightarrow> string \<Rightarrow> 'f tracing" where
  "setup_tracing try_new new_lossy env default_filter =
     (let env_filter = (case env ''RUST_LOG'' of
            EnvValue directives \<Rightarrow> unwrap_or (new_lossy default_filter) (try_new directives)
          | _ \<Rightarrow> new_lossy default_filter);
          is_ok = (\<lambda>v. case v of EnvValue _ \<Rightarrow> True | _ \<Rightarrow> False);
          in_k8s = (is_ok (env ''KUBERNETES_SERVICE_HOST'') \<or> is_ok (env ''KUBERNETES_PORT''))
      in \<lparr>tg_filter = env_filter, tg_format = if in_k8s then JsonLines else PlainText\<rparr>)"

lemma json_logs_iff:
  "tg_format (setup_tracing try_new new_lossy env default_filter) = JsonLines \<longleftrightarrow>
     (\<exists>v. env ''KUBERNETES_SERVICE_HOST'' = EnvValue v) \<or> (\<exists>v. env ''KUBERNETES_PORT'' = EnvValue v)"
  by (auto simp: setup_tracing_def Let_def split: env_var.splits)

section \<open>The start of the process\<close>

definition bind_address :: "(string \<Rightarrow> env_var) \<Rightarrow> string" where
  "bind_address env = (case env ''BIND_ADDRESS'' of EnvValue address \<Rightarrow> address | _ \<Rightarrow> ''0.0.0.0:8000'')"

datatype ('sv, 'st) launched = Terminates nat | ListensAt string 'sv 'st

text \<open>What the start of \<open>serve\<close> asks of its surroundings: the HTTP client of the readiness probe, the
  security headers of the \<open>axum-helmet\<close> crate and an address of the operating system.\<close>

record host =
  ho_client_builds :: bool
  ho_helmet_builds :: bool
  ho_binds :: "string \<Rightarrow> bool"

text \<open>\<open>main\<close> up to the listening server: an error it returns is exit code 1 and a panic of it 101. The
  client is built first, then the routes and their layers, and the address is asked for last.\<close>

definition launch ::
  "features \<Rightarrow> host \<Rightarrow> (string \<Rightarrow> env_var) \<Rightarrow> ('sv, 'st, 'err) dispatched panics \<Rightarrow> ('sv, 'st) launched" where
  "launch ft host env dispatched =
     (case dispatched of
        None \<Rightarrow> Terminates 101
      | Some (Failed _ _) \<Rightarrow> Terminates 1
      | Some (Finished _) \<Rightarrow> Terminates 0
      | Some (Serving sv st) \<Rightarrow>
          if \<not> ho_client_builds host then Terminates 1
          else if ft_security_headers ft \<and> \<not> ho_helmet_builds host then Terminates 1
          else case app_routes ft of
             None \<Rightarrow> Terminates 101
           | Some _ \<Rightarrow>
               if ho_binds host (bind_address env) then ListensAt (bind_address env) sv st else Terminates 1)"

lemma launch_cases:
  shows "launch ft host env d = ListensAt address sv st \<longleftrightarrow>
      d = Some (Serving sv st) \<and> address = bind_address env \<and> ho_client_builds host \<and>
      (ft_security_headers ft \<longrightarrow> ho_helmet_builds host) \<and> ho_binds host address"
    and "launch ft host env d = Terminates 0 \<longleftrightarrow> (\<exists>fs. d = Some (Finished fs))"
    and "launch ft host env d = Terminates 101 \<longleftrightarrow> d = None"
  by (auto simp: launch_def app_routes_eq split: option.splits dispatched.splits)

section \<open>The process\<close>

text \<open>While it drains, up to \<open>n\<close> further requests can come on the connections open at the signal.\<close>

datatype phase = Listening | Draining nat | Exited nat

record ('d, 'r, 'db, 'u, 'e) process =
  pr_run :: "('d, 'r, 'db, 'u, 'e) run"
  pr_now :: instant
  pr_signalled :: "instant option"
  pr_phase :: phase

definition process_start :: "('d, 'r, 'db) service_state \<Rightarrow> instant \<Rightarrow> ('d, 'r, 'db, 'u, 'e) process" where
  "process_start st now = \<lparr>pr_run = run_start st, pr_now = now, pr_signalled = None, pr_phase = Listening\<rparr>"

inductive process_step ::
  "('d, 'u, 'r, 'db, 'ts, 'pe) outside \<Rightarrow> ('d, 'u) service \<Rightarrow> (('u, 'e) moment \<Rightarrow> bool) \<Rightarrow>
   ('d, 'r, 'db, 'u, 'e) process \<Rightarrow> ('d, 'r, 'db, 'u, 'e) process \<Rightarrow> bool"
  for S :: "('d, 'u, 'r, 'db, 'ts, 'pe) outside" and sv and allowed :: "('u, 'e) moment \<Rightarrow> bool" where
  serves: "pr_phase p = Listening \<Longrightarrow> run_step S sv allowed (pr_run p) r \<Longrightarrow>
     process_step S sv allowed p (p\<lparr>pr_run := r\<rparr>)"
| signalled: "pr_phase p = Listening \<Longrightarrow>
     process_step S sv allowed p (p\<lparr>pr_signalled := Some (pr_now p), pr_phase := Draining n\<rparr>)"
| finishes: "pr_phase p = Draining n \<Longrightarrow> flight_step S sv allowed i (pr_run p) r \<Longrightarrow>
     process_step S sv allowed p (p\<lparr>pr_run := r\<rparr>)"
| meanwhile: "pr_phase p = Draining n \<Longrightarrow> background_step S (pr_run p) r \<Longrightarrow>
     process_step S sv allowed p (p\<lparr>pr_run := r\<rparr>)"
| late: "pr_phase p = Draining (Suc n) \<Longrightarrow> incoming_step S sv allowed (pr_run p) r \<Longrightarrow>
     process_step S sv allowed p (p\<lparr>pr_run := r, pr_phase := Draining n\<rparr>)"
| closed: "pr_phase p = Draining (Suc n) \<Longrightarrow> process_step S sv allowed p (p\<lparr>pr_phase := Draining n\<rparr>)"
| drained: "pr_phase p = Draining 0 \<Longrightarrow> rn_flights (pr_run p) = Map.empty \<Longrightarrow>
     process_step S sv allowed p (p\<lparr>pr_phase := Exited 0\<rparr>)"
| forced: "pr_phase p = Draining n \<Longrightarrow> pr_signalled p = Some t \<Longrightarrow> t + SHUTDOWN_TIMEOUT \<le> pr_now p \<Longrightarrow>
     process_step S sv allowed p (p\<lparr>pr_phase := Exited 1\<rparr>)"
| elapsed: "(\<And>code. pr_phase p \<noteq> Exited code) \<Longrightarrow> pr_now p < now \<Longrightarrow>
     process_step S sv allowed p (p\<lparr>pr_now := now\<rparr>)"

inductive_cases process_cases: "process_step S sv allowed p p'"

definition lives ::
  "('d, 'u, 'r, 'db, 'ts, 'pe) outside \<Rightarrow> ('d, 'u) service \<Rightarrow> (('u, 'e) moment \<Rightarrow> bool) \<Rightarrow>
   ('d, 'r, 'db) service_state \<Rightarrow> ('d, 'r, 'db, 'u, 'e) process \<Rightarrow> bool" where
  "lives S sv allowed st0 p \<longleftrightarrow> (\<exists>now. (process_step S sv allowed)\<^sup>*\<^sup>* (process_start st0 now) p)"

text \<open>What a process does to its service is a run.\<close>

lemma process_runs:
  assumes "process_step S sv allowed p p'"
  shows "(run_step S sv allowed)\<^sup>*\<^sup>* (pr_run p) (pr_run p')"
  using assms by cases (auto intro: run_step.intros environment_step.intros)

lemma lives_runs:
  assumes "lives S sv allowed st0 p"
  shows "runs S sv allowed st0 (pr_run p)"
proof -
  obtain now where "(process_step S sv allowed)\<^sup>*\<^sup>* (process_start st0 now) p" using assms by (auto simp: lives_def)
  then show ?thesis
    by (induction rule: rtranclp_induct)
      (auto simp: runs_def process_start_def dest: process_runs intro: rtranclp_trans)
qed

lemma lives_step: "lives S sv allowed st0 p \<Longrightarrow> (process_step S sv allowed)\<^sup>*\<^sup>* p p' \<Longrightarrow> lives S sv allowed st0 p'"
  unfolding lives_def by (blast intro: rtranclp_trans)

section \<open>How a process ends\<close>

text \<open>The phase and the clock agree: nothing ended without a signal, and nothing by force before its
  deadline.\<close>

definition phase_ok :: "('d, 'r, 'db, 'u, 'e) process \<Rightarrow> bool" where
  "phase_ok p \<longleftrightarrow>
     (case pr_phase p of
        Listening \<Rightarrow> pr_signalled p = None
      | Draining _ \<Rightarrow> \<exists>t \<le> pr_now p. pr_signalled p = Some t
      | Exited code \<Rightarrow> \<exists>t \<le> pr_now p. pr_signalled p = Some t \<and>
          (code = 0 \<and> rn_flights (pr_run p) = Map.empty \<or> code = 1 \<and> t + SHUTDOWN_TIMEOUT \<le> pr_now p))"

lemma process_keeps_phase:
  assumes "process_step S sv allowed p p'" and "phase_ok p"
  shows "phase_ok p'"
  using assms by cases (auto simp: phase_ok_def split: phase.splits)

lemma lives_phase:
  assumes "lives S sv allowed st0 p"
  shows "phase_ok p"
proof -
  obtain now where "(process_step S sv allowed)\<^sup>*\<^sup>* (process_start st0 now) p" using assms by (auto simp: lives_def)
  then show ?thesis
    by (induction rule: rtranclp_induct) (simp add: phase_ok_def process_start_def, rule process_keeps_phase)
qed

lemma exited_stays: "pr_phase p = Exited code \<Longrightarrow> \<not> process_step S sv allowed p p'"
  by (auto elim: process_cases)

text \<open>How the program can have ended with an exit code.\<close>

definition exits_with ::
  "('d, 'u, 'r, 'db, 'ts, 'pe) outside \<Rightarrow> (('u, 'e) moment \<Rightarrow> bool) \<Rightarrow> host \<Rightarrow> (string \<Rightarrow> env_var) \<Rightarrow>
   (('d, 'u) service, ('d, 'r, 'db) service_state, 'err) dispatched panics \<Rightarrow> ('d, 'r, 'db, 'u, 'e) process option \<Rightarrow>
   nat \<Rightarrow> bool" where
  "exits_with S allowed host env dispatched p code \<longleftrightarrow>
     (case launch (os_features S) host env dispatched of
        Terminates n \<Rightarrow> p = None \<and> code = n
      | ListensAt _ sv st0 \<Rightarrow> \<exists>q. p = Some q \<and> lives S sv allowed st0 q \<and> pr_phase q = Exited code)"

section \<open>Draining comes to an end\<close>

text \<open>What is left of the requests: how many can still come and how far each one in flight is from
  its answer.\<close>

abbreviation rank_order :: "((nat \<times> nat) \<times> (nat \<times> nat)) set" where
  "rank_order \<equiv> less_than <*lex*> less_than"

definition flights_weight :: "(nat \<Rightarrow> ('d, 'e) flight option) \<Rightarrow> (nat \<times> nat) multiset" where
  "flights_weight flights = image_mset (\<lambda>i. flight_rank (flights i)) (mset_set (dom flights))"

fun drain_left :: "phase \<times> (nat \<Rightarrow> ('d, 'e) flight option) \<Rightarrow> nat \<times> (nat \<times> nat) multiset" where
  "drain_left (Draining n, flights) = (Suc n, flights_weight flights)"
| "drain_left (_, flights) = (0, {#})"

abbreviation drain_order :: "((nat \<times> (nat \<times> nat) multiset) \<times> (nat \<times> (nat \<times> nat) multiset)) set" where
  "drain_order \<equiv> less_than <*lex*> mult rank_order"

definition requests_of :: "('d, 'r, 'db, 'u, 'e) process \<Rightarrow> phase \<times> (nat \<Rightarrow> ('d, 'e) flight option)" where
  "requests_of p = (pr_phase p, rn_flights (pr_run p))"

lemma wf_drain_order: "wf drain_order"
  by (intro wf_lex_prod wf_mult wf_less_than)

text \<open>A flight that ends or gets nearer to its answer makes the weight smaller.\<close>

lemma flights_weight_lowers:
  assumes "finite (dom flights)" and "flights i = Some f" and "(flight_rank new, flight_rank (Some f)) \<in> rank_order"
  shows "(flights_weight (flights(i := new)), flights_weight flights) \<in> mult rank_order"
proof -
  obtain others where others: "others = dom flights - {i}" by blast
  then have dom: "dom flights = insert i others" "finite others" "i \<notin> others" using assms(1,2) by auto
  obtain flights' where flights': "flights' = flights(i := new)" by blast
  have same: "image_mset (\<lambda>j. flight_rank (flights' j)) (mset_set others) =
      image_mset (\<lambda>j. flight_rank (flights j)) (mset_set others)"
    using dom by (intro image_mset_cong) (auto simp: flights')
  have before: "flights_weight flights = image_mset (\<lambda>j. flight_rank (flights j)) (mset_set others) + {#flight_rank (Some f)#}"
    using dom assms(2) by (simp add: flights_weight_def)
  have dom': "dom flights' = (if new = None then others else insert i others)" "flights' i = new"
    using dom(1,3) by (auto simp: flights' split: if_splits)
  have after: "flights_weight flights' = image_mset (\<lambda>j. flight_rank (flights j)) (mset_set others) +
      (if new = None then {#} else {#flight_rank new#})"
    using dom(2,3) same by (simp add: flights_weight_def dom')
  show ?thesis
    unfolding flights' [symmetric] before after by (intro one_step_implies_mult) (use assms(3) in auto)
qed

lemma flight_step_at:
  assumes "flight_step S sv allowed i r r'"
  obtains f new where "rn_flights r i = Some f" "rn_flights r' = (rn_flights r)(i := new)"
    "(flight_rank new, flight_rank (Some f)) \<in> rank_order"
proof -
  obtain f where f: "rn_flights r i = Some f" and same: "rn_flights r' = (rn_flights r)(i := rn_flights r' i)"
    using assms by cases auto
  from flight_step_lowers [OF assms] show thesis by (intro that [OF f same]) (simp add: f)
qed

lemma background_flights:
  assumes "background_step S r r'"
  shows "rn_flights r' = rn_flights r \<or> (\<exists>i. rn_flights r' = (rn_flights r)(i := None))"
  using assms by cases auto

lemma run_step_finite:
  assumes "run_step S sv allowed r r'" and "finite (dom (rn_flights r))"
  shows "finite (dom (rn_flights r'))"
  using assms(1)
proof cases
  case (own i)
  then obtain new where "rn_flights r' = (rn_flights r)(i := new)" by (rule flight_step_at)
  then show ?thesis using assms(2) by simp
next
  case other
  then show ?thesis using assms(2) by (auto elim!: environment_elims)
qed

lemma runs_finite:
  assumes "runs S sv allowed st0 r"
  shows "finite (dom (rn_flights r))"
  using assms unfolding runs_def
  by (induction rule: rtranclp_induct) (simp add: run_start_def, rule run_step_finite)

text \<open>While a process drains, a step that changes its requests lowers what is left of them.\<close>

lemma draining_lowers:
  assumes step: "process_step S sv allowed p p'" and draining: "pr_phase p = Draining n"
    and finite: "finite (dom (rn_flights (pr_run p)))" and changes: "requests_of p' \<noteq> requests_of p"
  shows "(drain_left (requests_of p'), drain_left (requests_of p)) \<in> drain_order"
  using step
proof cases
  case (finishes n i r)
  from finishes(3) obtain f new where "rn_flights (pr_run p) i = Some f" "rn_flights r = (rn_flights (pr_run p))(i := new)"
    "(flight_rank new, flight_rank (Some f)) \<in> rank_order"
    by (rule flight_step_at)
  with flights_weight_lowers [OF finite] finishes(1,2) show ?thesis by (simp add: requests_of_def)
next
  case (meanwhile n r)
  from background_flights [OF meanwhile(3)] changes meanwhile(1) obtain i where
    new: "rn_flights r = (rn_flights (pr_run p))(i := None)" and "rn_flights r \<noteq> rn_flights (pr_run p)"
    by (auto simp: requests_of_def)
  then obtain f where f: "rn_flights (pr_run p) i = Some f" by (cases "rn_flights (pr_run p) i") (auto simp: fun_upd_idem)
  have "(flight_rank None, flight_rank (Some f)) \<in> rank_order" by (cases f) auto
  from flights_weight_lowers [OF finite f this] show ?thesis
    using meanwhile(1,2) by (simp add: requests_of_def new)
qed (use draining changes in \<open>auto simp: requests_of_def\<close>)

lemma draining_stays:
  assumes "process_step S sv allowed p p'" and "pr_phase p \<noteq> Listening"
  shows "pr_phase p' \<noteq> Listening \<and> (\<exists>n. pr_phase p = Draining n)"
  using assms by cases (auto, cases "pr_phase p", auto)

text \<open>A sequence each of whose changes lowers a well-founded measure changes finitely often.\<close>

lemma settles_down:
  assumes "wf R" and lowers: "\<And>k. g (Suc k) \<noteq> g k \<Longrightarrow> (m (g (Suc k)), m (g k)) \<in> R"
  shows "\<exists>K. \<forall>k \<ge> K. g k = g K"
proof -
  have "\<exists>K. \<forall>k \<ge> K. g k = g K" if "a = m (g j)" for a j
    using \<open>wf R\<close> that
  proof (induction a arbitrary: j rule: wf_induct_rule)
    case (less a)
    show ?case
    proof (cases "\<exists>k \<ge> j. g (Suc k) \<noteq> g k")
      case True
      then obtain l where l: "j \<le> l" "g (Suc l) \<noteq> g l" "\<And>k. j \<le> k \<Longrightarrow> k < l \<Longrightarrow> g (Suc k) = g k"
        using exists_least_iff [of "\<lambda>k. j \<le> k \<and> g (Suc k) \<noteq> g k"] by blast
      have "k \<le> l \<Longrightarrow> g k = g j" if "j \<le> k" for k
        using that l(3) by (induction rule: dec_induct) auto
      then have "g l = g j" using l(1) by blast
      with lowers [OF l(2)] less.prems have "(m (g (Suc l)), a) \<in> R" by simp
      from less.IH [OF this refl] show ?thesis .
    next
      case False
      have "g k = g j" if "j \<le> k" for k using that False by (induction rule: dec_induct) auto
      then show ?thesis by blast
    qed
  qed
  then show ?thesis by blast
qed

lemma draining_settles:
  assumes lives: "lives S sv allowed st0 (f 0)" and draining: "pr_phase (f 0) = Draining n"
    and steps: "\<And>k. process_step S sv allowed (f k) (f (Suc k))"
  shows "\<exists>K. \<forall>k \<ge> K. requests_of (f k) = requests_of (f K)"
proof -
  have reached: "(process_step S sv allowed)\<^sup>*\<^sup>* (f 0) (f k)" for k
    by (induction k) (auto intro: rtranclp.rtrancl_into_rtrancl steps)
  have finite: "finite (dom (rn_flights (pr_run (f k))))" for k
    using lives_runs [OF lives_step [OF lives reached]] by (rule runs_finite)
  have "pr_phase (f k) \<noteq> Listening" for k
    by (induction k) (use draining draining_stays [OF steps] in auto)
  then have "\<exists>n. pr_phase (f k) = Draining n" for k using draining_stays [OF steps] by blast
  then have "(drain_left (requests_of (f (Suc k))), drain_left (requests_of (f k))) \<in> drain_order"
    if "requests_of (f (Suc k)) \<noteq> requests_of (f k)" for k
    using draining_lowers [OF steps _ finite that] by blast
  from settles_down [where g = "\<lambda>k. requests_of (f k)", OF wf_drain_order this] show ?thesis .
qed

text \<open>A flight of its own accord is answered or stays, and leaves the ledger to the spawned writes.\<close>

lemma flight_step_counts:
  assumes "flight_step S sv allowed i r r'" and "finite (dom (rn_flights r))"
  shows "length (rn_answered r') + card (dom (rn_flights r')) = length (rn_answered r) + card (dom (rn_flights r))"
proof -
  obtain f new where f: "rn_flights r i = Some f" and new: "rn_flights r' = (rn_flights r)(i := new)"
    using assms(1) by (rule flight_step_at)
  from flight_step_answers [OF assms(1)] show ?thesis
    using f assms(2) card_Suc_Diff1 [OF assms(2), of i] by (cases new) (auto simp: new insert_absorb domI)
qed

lemma flight_step_ledger:
  assumes "flight_step S sv allowed i r r'"
  shows "ss_ledger (rn_state r') = ss_ledger (rn_state r)" "rn_written r' = rn_written r"
  using assms by (cases, auto simp: run_state_defs)+

lemma draining_progress:
  fixes S :: "('d, 'u, 'r, 'db, 'ts, 'pe) outside" and p :: "('d, 'r, 'db, 'u, 'e) process" and now :: "('u, 'e) moment"
  assumes laws: "decimal_laws (os_decimal S)" "json_total (os_decimal S) (os_json S)"
    and sv: "service_ok (os_decimal S) sv" and ok: "run_ok (os_decimal S) sv (pr_run p)" and now: "moment_ok now"
    and draining: "pr_phase p = Draining n" and finite: "finite (dom (rn_flights (pr_run p)))"
  obtains (flying) i r where "process_step S sv moment_ok p (p\<lparr>pr_run := r\<rparr>)" "flight_step S sv moment_ok i (pr_run p) r"
      "requests_of (p\<lparr>pr_run := r\<rparr>) \<noteq> requests_of p"
  | (closing) m where "process_step S sv moment_ok p (p\<lparr>pr_phase := Draining m\<rparr>)" "n = Suc m"
  | (ending) "process_step S sv moment_ok p (p\<lparr>pr_phase := Exited 0\<rparr>)" "rn_flights (pr_run p) = Map.empty"
proof (cases "rn_flights (pr_run p) = Map.empty")
  case True
  with draining show thesis
    by (cases n) (auto intro: ending closing process_step.drained process_step.closed)
next
  case False
  then obtain i f where "rn_flights (pr_run p) i = Some f" by fastforce
  from flight_progress [OF laws sv ok now this] obtain r where r: "flight_step S sv moment_ok i (pr_run p) r" ..
  then obtain f new where "rn_flights (pr_run p) i = Some f" "rn_flights r = (rn_flights (pr_run p))(i := new)"
    "(flight_rank new, flight_rank (Some f)) \<in> rank_order"
    by (rule flight_step_at)
  then have "rn_flights r \<noteq> rn_flights (pr_run p)" by (metis fun_upd_same wf_not_refl wf_lex_prod wf_less_than)
  with process_step.finishes [OF draining r] r show thesis by (intro flying) (auto simp: requests_of_def)
qed

text \<open>A way out on which every request in flight is answered, and on which no ledger write runs.\<close>

lemma draining_ends:
  fixes S :: "('d, 'u, 'r, 'db, 'ts, 'pe) outside" and p :: "('d, 'r, 'db, 'u, 'e) process" and now :: "('u, 'e) moment"
  assumes laws: "decimal_laws (os_decimal S)" "json_total (os_decimal S) (os_json S)"
    and sv: "service_ok (os_decimal S) sv" and now: "moment_ok now"
    and "run_ok (os_decimal S) sv (pr_run p)" "pr_phase p = Draining n" "finite (dom (rn_flights (pr_run p)))"
  shows "\<exists>p'. (process_step S sv moment_ok)\<^sup>*\<^sup>* p p' \<and> pr_phase p' = Exited 0 \<and>
    length (rn_answered (pr_run p')) = length (rn_answered (pr_run p)) + card (dom (rn_flights (pr_run p))) \<and>
    ss_ledger (rn_state (pr_run p')) = ss_ledger (rn_state (pr_run p)) \<and> rn_written (pr_run p') = rn_written (pr_run p)"
proof -
  have "wf (inv_image drain_order (\<lambda>p :: ('d, 'r, 'db, 'u, 'e) process. drain_left (requests_of p)))"
    by (intro wf_inv_image wf_drain_order)
  then show ?thesis using assms(5-7)
  proof (induction p arbitrary: n rule: wf_induct_rule)
    case (less p)
    note lowers = draining_lowers [OF _ less.prems(2,3)]
    show ?case
    proof (cases rule: draining_progress [OF laws sv less.prems(1) now less.prems(2,3), case_names flying closing ending])
      case (flying i r)
      have "run_ok (os_decimal S) sv r" by (rule flight_keeps_ok [OF laws sv flying(2) less.prems(1)])
      moreover have "finite (dom (rn_flights r))"
        using run_step_finite [OF run_step.own [OF flying(2)] less.prems(3)] .
      ultimately obtain p' where "(process_step S sv moment_ok)\<^sup>*\<^sup>* (p\<lparr>pr_run := r\<rparr>) p'" "pr_phase p' = Exited 0"
        "length (rn_answered (pr_run p')) = length (rn_answered r) + card (dom (rn_flights r))"
        "ss_ledger (rn_state (pr_run p')) = ss_ledger (rn_state r)" "rn_written (pr_run p') = rn_written r"
        using less.IH [of "p\<lparr>pr_run := r\<rparr>" n] lowers [OF flying(1,3)] less.prems(2) by auto
      with flying(1) flight_step_counts [OF flying(2) less.prems(3)] flight_step_ledger [OF flying(2)] show ?thesis
        by (intro exI [of _ p']) (auto intro: converse_rtranclp_into_rtranclp)
    next
      case (closing m)
      then have "requests_of (p\<lparr>pr_phase := Draining m\<rparr>) \<noteq> requests_of p" using less.prems(2) by (simp add: requests_of_def)
      from less.IH [of "p\<lparr>pr_phase := Draining m\<rparr>" m] lowers [OF closing(1) this] less.prems(1,3) obtain p' where
        "(process_step S sv moment_ok)\<^sup>*\<^sup>* (p\<lparr>pr_phase := Draining m\<rparr>) p'" "pr_phase p' = Exited 0"
        "length (rn_answered (pr_run p')) = length (rn_answered (pr_run p)) + card (dom (rn_flights (pr_run p)))"
        "ss_ledger (rn_state (pr_run p')) = ss_ledger (rn_state (pr_run p))" "rn_written (pr_run p') = rn_written (pr_run p)"
        by auto
      with closing(1) show ?thesis by (intro exI [of _ p']) (auto intro: converse_rtranclp_into_rtranclp)
    next
      case ending
      then show ?thesis by (intro exI [of _ "p\<lparr>pr_phase := Exited 0\<rparr>"]) auto
    qed
  qed
qed

end
