(* ===== verification/Example_Service.thy ===== *)
theory Example_Service
  imports Lifecycle
begin

text \<open>
  A started service the witnesses of the root theory rest on: two providers and both profiles'
  keys, behind a sidecar that answers 404 or starts an event stream, with one run to an answer
  and one to a stream under way.
\<close>

section \<open>The service\<close>

definition example_router :: "route list \<Rightarrow> http_method \<Rightarrow> string \<Rightarrow> routed" where
  "example_router routes method path =
     (case find (\<lambda>r. ro_method r = method \<and> ro_path r = path) routes of
        Some r \<Rightarrow> Matched r []
      | None \<Rightarrow>
          (case find (\<lambda>r. ro_path r = path) routes of
             Some r \<Rightarrow> WrongMethod r (json_response 405 JNull) | None \<Rightarrow> NoRoute (json_response 404 JNull)))"

definition example_features :: features where
  "example_features =
     \<lparr>ft_metrics = True, ft_security_headers = True, ft_compression = False, ft_payload_limit = True,
      ft_sensitive_headers = True, ft_cors = False, ft_rate_limiting = False, ft_concurrency_limit = False\<rparr>"

definition example_outside ::
  "(rat, string, nat, (rat, nat) generation_row list, nat, string) outside" where
  "example_outside =
     \<lparr>os_decimal = one_decimal, os_url = example_url, os_join = (\<lambda>u path. Some (u @ path)), os_rand = example_rand,
      os_json = example_total_wire, os_to_str = Some, os_ct_eq = (=), os_pg = list_pg, os_ts_text = (\<lambda>_. []),
      os_router = example_router, os_rejection = json_response 400 JNull, os_too_large = json_response 413 JNull,
      os_default_body_limit = 2097152, os_header_value = Some, os_metrics = json_response 200 JNull,
      os_features = example_features\<rparr>"

definition example_prices :: "rat price_table" where
  "example_prices = \<lparr>prices_by_provider = providers_map (enabled_providers example_registry)\<rparr>"

definition example_service_proxy :: "(rat, string) proxy_state" where
  "example_service_proxy =
     \<lparr>px_chat_completions_url = ''http://127.0.0.1:4000/v1/chat/completions'',
      px_legacy_completions_url = ''http://127.0.0.1:4000/v1/completions'',
      px_price_table = example_prices, px_routing = example_policy_with example_env_routing,
      px_public_provider_aliases = {}\<rparr>"

lemma example_registry_ok: "registry_ok one_decimal example_registry"
proof -
  have "trim ''Model'' \<noteq> []" by code_simp
  then show ?thesis
    by (simp add: example_registry_def registry_ok_def provider_ok_def example_provider_def mapping_ok_def
        example_mapping_def d_lt_def one_decimal_def parsing_decimal_def bounded_decimal_def cmp_of_def
        default_constraints_def default_completion_endpoints_def)
qed

lemma example_priced: "price_table_from_registry one_decimal example_registry = Ok example_prices"
  using example_registry_ok by (subst price_table_from_registry_Ok [OF one_decimal_laws])
    (simp add: example_prices_def provider_prices_ok_def prices_ok_def enabled_providers_def example_registry_def
      example_provider_def example_mapping_def one_decimal_def parsing_decimal_def bounded_decimal_def)

lemma example_loaded:
  "load_registry one_decimal (\<lambda>_. Some []) (\<lambda>_. Some example_registry) (\<lambda>_ _. SendFailed ()) path = Ok example_registry"
proof -
  have "registry_validate one_decimal example_registry = Ok ()"
    using example_registry_ok validate_providers_Ok [OF one_decimal_laws, of "{}" "r_providers example_registry"]
    by (simp add: registry_validate_def registry_ok_def)
  moreover have "catalog_sources example_registry = []"
    by (simp add: catalog_sources_def example_registry_def enabled_providers_def example_provider_def map_filter_simps)
  ultimately show ?thesis
    by (simp add: load_registry_def hydrate_upstream_coverage_def ok_or_def map_err_def Let_def)
qed

lemma example_proxy_started:
  "proxy_new one_decimal example_url (\<lambda>u path. Some (u @ path)) ''http://127.0.0.1:4000'' example_prices example_registry
     example_env_routing 0 = Some (Ok (example_service_proxy, example_state))"
proof -
  have "trim_end_matches (CHR ''/'') ''http://127.0.0.1:4000'' = ''http://127.0.0.1:4000''" by code_simp
  moreover have "public_provider_aliases example_registry = {}"
    by (simp add: public_provider_aliases_def example_registry_def example_provider_def)
  ultimately show ?thesis
    by (simp add: proxy_new_def one_decimal_def example_routing_with example_url_def example_service_proxy_def
        CHAT_COMPLETIONS_PATH_def LEGACY_COMPLETIONS_PATH_def)
qed

abbreviation example_starts ::
  "(rat, string) service \<Rightarrow> (rat, nat, (rat, nat) generation_row list) service_state \<Rightarrow> bool" where
  "example_starts sv st \<equiv>
     run_service example_outside Ok (\<lambda>_. []) example_env (\<lambda>_. Some []) (\<lambda>_. Some example_registry)
       (\<lambda>_ _. SendFailed ()) 0 = Some (Ok (sv, st) :: (_, (rat, unit, unit, unit) startup_error) result)"

lemma example_started:
  "\<exists>sv st. example_starts sv st \<and>
     sv_auth sv = with_beta_key (auth_new ''prod'') ''beta'' \<and> sv_proxy sv = example_service_proxy \<and>
     ss_shared st = \<lparr>sh_routing = example_state, sh_recorder = empty_recorder\<rparr>"
proof -
  have "catalog_fits one_decimal example_registry"
    by (simp add: catalog_fits_def enabled_providers_def example_registry_def example_provider_def example_mapping_def
        mapping_fits_def prices_ok_def one_decimal_def parsing_decimal_def bounded_decimal_def dec_max_def)
  from catalog_from_registry_ok [OF one_decimal_laws this]
  obtain models where "catalog_from_registry one_decimal example_registry = Some models" by blast
  moreover have "trim ''postgres://ledger'' = ''postgres://ledger''" by code_simp
  then have "database_url example_env = Ok ''postgres://ledger''"
    by (simp add: database_url_def example_env_def GATEWAY_KEY_ENV_def BETA_GATEWAY_KEY_ENV_def PRICE_CEILING_ENV_def
        HYSTERESIS_ENV_def MAX_SHARE_ENV_def SHARE_WINDOW_ENV_def)
  ultimately show ?thesis
    by (simp add: run_service_def example_outside_def example_config example_loaded example_priced connect_lazy_def
        result_bind_def example_proxy_started gateway_auth_of_def Let_def)
qed

definition example_not_found :: "unit upstream_response" where
  "example_not_found = example_sidecar_answer\<lparr>us_status := 404\<rparr>"

lemma example_not_found_forwarded:
  "\<exists>rc' answer. forward_response D J Some example_service_proxy example_clock profile endpoint stream
     decision example_not_found rc = Some (rc', answer)"
  by (cases "from_headers Some (us_headers example_sidecar_answer)")
    (simp_all add: forward_response_def Let_def example_not_found_def is_success_def example_service_proxy_def
      response_uses_public_alias_def is_some_and_def)

lemma example_forwarded:
  "\<exists>sh' requests answer. forward one_decimal example_rand example_total_wire Some example_service_proxy
     (\<lambda>_ _. Ok example_not_found :: (unit upstream_response, unit) result) example_clock
     \<lparr>sh_routing = example_state, sh_recorder = empty_recorder\<rparr> Production Chat ''request''
     = Some (sh', requests, answer) \<and> requests \<noteq> []"
proof -
  obtain st' request' dec where routed: "route_for_endpoint one_decimal example_rand
      (example_policy_with example_env_routing) [] example_state Production Chat example_request = Some (st', request', Ok dec)"
    using example_decision_with [of example_env_routing, where f = "\<lambda>s. if s = ''1'' then Some 1 else None"]
    unfolding one_decimal_def by (force simp: example_env_routing_def)
  obtain rc' answer where answered: "forward_response one_decimal example_total_wire Some example_service_proxy
      example_clock Production Chat False dec example_not_found empty_recorder = Some (rc', answer)"
    using example_not_found_forwarded by blast
  have request: "from_slice example_total_wire ''request'' = Some example_request"
    "to_vec example_total_wire request' \<noteq> None" "json_get ''stream'' example_request = None"
    by (simp_all add: example_total_wire_def example_wire_def example_request_def bm_get_def)
  have accepted: "\<not> should_fallback (Ok example_not_found :: (unit upstream_response, unit) result)"
    by (simp add: should_fallback_def example_not_found_def retryable_status_def is_server_error_def)
  have proxy: "px_routing example_service_proxy = example_policy_with example_env_routing"
    "rc_measurements empty_recorder = []"
    by (simp_all add: example_service_proxy_def empty_recorder_def)
  show ?thesis
    using request routed answered
    by (auto simp: forward_def Let_def proxy send_selected_then_fallback_def send_attempt_def
        send_fallbacks_accepted [OF accepted])
qed

definition example_http :: http_request where
  "example_http =
     \<lparr>hq_method = POST, hq_path = ''/api/v1/chat/completions'', hq_headers = [''authorization'' \<mapsto> ''Bearer prod''],
      hq_body = ''request'', hq_id = None\<rparr>"

definition example_moment :: "(string, unit) moment" where
  "example_moment =
     \<lparr>mo_sidecar = (\<lambda>_ _. Ok example_not_found), mo_clock = example_clock, mo_probe = Ok 200, mo_layer = (\<lambda>_ _. None),
      mo_uuid = ''id'', mo_panic = PanicOther\<rparr>"

lemma example_completion_of:
  assumes "sv_auth sv = with_beta_key (auth_new ''prod'') ''beta''" and short: "length body < 100"
  shows "completion_of example_outside sv example_moment (example_http\<lparr>hq_body := body\<rparr>) = Some (Production, Chat)"
proof -
  have limit: "\<not> 20971520 < length body" using short by linarith
  let ?layers = "outer_layers example_features @ inner_layers example_features @ Authorize # inference_layers example_features"
  have "app_routes example_features = Some routes \<Longrightarrow> example_router routes POST ''/api/v1/chat/completions'' =
      Matched \<lparr>ro_method = POST, ro_path = ''/api/v1/chat/completions'', ro_handler = ChatCompletions,
        ro_layers = ?layers\<rparr> []" for routes
    by (auto simp: app_routes_eq inference_routes_def example_router_def)
  moreover obtain routes where "app_routes example_features = Some routes"
    by (simp add: app_routes_eq)
  moreover have "first_answer (layer_answer example_outside sv example_moment (example_http\<lparr>hq_body := body\<rparr>)) ?layers = None"
    by (simp add: limit first_answer_None layer_answer_def outer_layers_def inner_layers_def policy_layers_def
        example_features_def example_outside_def example_moment_def example_http_def assms
        authorized_profile_def profile_for_def with_beta_key_def auth_new_def INFERENCE_PAYLOAD_SIZE_BYTES_def)
  moreover have "authorized_profile (=) Some (sv_auth sv) (hq_headers example_http) = Some Production"
    by (simp add: assms authorized_profile_def example_http_def profile_for_def with_beta_key_def auth_new_def)
  ultimately show ?thesis
    using short by (auto simp: completion_of_def admitted_def example_outside_def example_http_def policy_layers_def example_features_def)
qed

lemma example_completion:
  assumes "sv_auth sv = with_beta_key (auth_new ''prod'') ''beta''"
  shows "completion_of example_outside sv example_moment example_http = Some (Production, Chat)"
  using example_completion_of [OF assms, of "''request''"] by (simp add: example_http_def)

text \<open>A run of the example service: its first request handled to its answer.\<close>

lemma example_run:
  "\<exists>sv st r requests answer. example_starts sv st \<and>
     sv_auth sv = with_beta_key (auth_new ''prod'') ''beta'' \<and> sv_proxy sv = example_service_proxy \<and>
     runs example_outside sv ((=) example_moment) st r \<and>
     rn_sent r = map (Pair example_http) requests \<and> requests \<noteq> [] \<and> length (rn_answered r) = 1 \<and>
     (\<exists>st'. handle_request example_outside sv example_moment st example_http = Some (st', requests, answer))"
proof -
  obtain sv st where started: "example_starts sv st"
    and sv: "sv_auth sv = with_beta_key (auth_new ''prod'') ''beta''" "sv_proxy sv = example_service_proxy"
    and st: "ss_shared st = \<lparr>sh_routing = example_state, sh_recorder = empty_recorder\<rparr>"
    using example_started by blast
  note completion = example_completion [OF sv(1)]
  obtain sh' requests answer where forwarded: "forward one_decimal example_rand example_total_wire Some example_service_proxy
     (\<lambda>_ _. Ok example_not_found :: (unit upstream_response, unit) result) example_clock
     \<lparr>sh_routing = example_state, sh_recorder = empty_recorder\<rparr> Production Chat ''request''
     = Some (sh', requests, answer)" and sent: "requests \<noteq> []"
    using example_forwarded by blast
  have handled: "handle_request example_outside sv example_moment st example_http
      = Some (st\<lparr>ss_shared := sh'\<rparr>, requests, answer)"
    unfolding completion_of_handled(2) [OF completion] using forwarded
    by (simp add: serve_completion_def chat_completions_def st sv example_outside_def example_moment_def example_http_def)
  have start: "runs example_outside sv ((=) example_moment) st (run_start st)" by (simp add: runs_def)
  have state: "rn_state (run_start st) = st" "rn_flights (run_start st) 0 = None" by (simp_all add: run_start_def)
  from handled_in_steps [OF start refl state(2), unfolded state(1), OF handled] completion sent started sv handled
  show ?thesis by (auto simp: run_start_def)
qed

lemma example_moment_ok: "moment_ok example_moment"
  by (simp add: moment_ok_def example_moment_def upstream_ok_def example_not_found_def example_sidecar_answer_def
      item_ok_def tick_ok_def duration_ok_def example_clock_def)

lemma example_table_priced: "table_priced one_decimal example_prices"
proof -
  have digits: "priced one_decimal prices" if "prices = mapping_prices (example_mapping slug (of_int i) (of_int k))"
    "0 \<le> i" "i < 2 ^ 31" "0 \<le> k" "k < 2 ^ 31" for prices slug i k
    unfolding priced_def prices_digits_def price_digits_def that(1)
    using that(2-) by (intro exI [of _ 0])
      (auto simp: mapping_prices_def example_mapping_def one_decimal_def parsing_decimal_def bounded_decimal_def)
  have "priced one_decimal prices" if "price_table_get example_prices provider_id slug = Some prices"
    for provider_id slug prices
  proof -
    from that obtain m where "m \<in> {example_mapping ''m'' 2 3, example_mapping ''m'' 1 2}" "prices = mapping_prices m"
      using price_table_get_reviewed [OF one_decimal_laws example_priced, of provider_id slug prices]
      by (auto simp: example_registry_def example_provider_def)
    with digits [of prices "''m''" 2 3] digits [of prices "''m''" 1 2] show ?thesis by auto
  qed
  then show ?thesis unfolding table_priced_def by blast
qed

lemma example_laws:
  "json_total one_decimal example_total_wire"
  "sv_proxy sv = example_service_proxy \<Longrightarrow> table_priced one_decimal (px_price_table (sv_proxy sv))"
  by (simp_all add: json_total_def example_total_wire_def example_wire_def example_service_proxy_def example_table_priced)

section \<open>A stream under way\<close>

definition example_stream_answer :: "unit upstream_response" where
  "example_stream_answer = example_sidecar_answer
     \<lparr>us_headers := (us_headers example_sidecar_answer)(''content-type'' \<mapsto> ''text/event-stream'')\<rparr>"

definition example_stream_moment :: "(string, unit) moment" where
  "example_stream_moment = example_moment\<lparr>mo_sidecar := \<lambda>_ _. Ok example_stream_answer\<rparr>"

lemma example_stream_planned:
  "\<exists>routing' plan. plan_completion one_decimal example_rand example_total_wire example_service_proxy [] example_state
     Production Chat ''stream'' = Some (routing', Ok plan) \<and>
     pl_profile plan = Production \<and> pl_endpoint plan = Chat \<and> pl_stream plan \<and>
     dec_canonical_model (pl_decision plan) = ''m''"
proof -
  obtain st' request' dec where routed: "route_for_endpoint one_decimal example_rand
      (example_policy_with example_env_routing) [] example_state Production Chat example_stream_request = Some (st', request', Ok dec)"
    and m: "dec_canonical_model dec = ''m''"
    using example_decision_of [of example_env_routing example_stream_request "\<lambda>s. if s = ''1'' then Some 1 else None"]
    unfolding one_decimal_def by (force simp: example_env_routing_def)
  have request: "from_slice example_total_wire ''stream'' = Some example_stream_request"
    "to_vec example_total_wire request' \<noteq> None" "json_get ''stream'' example_stream_request = Some (JBool True)"
    by (simp_all add: example_total_wire_def example_wire_def example_stream_request_def bm_get_def)
  have proxy: "px_routing example_service_proxy = example_policy_with example_env_routing"
    by (simp add: example_service_proxy_def)
  show ?thesis using request routed m by (auto simp: plan_completion_def Let_def proxy)
qed

lemma example_stream_opened:
  assumes "pl_stream plan" and "dec_canonical_model (pl_decision plan) = ''m''"
  shows "\<exists>served st g. opened Some example_service_proxy clk plan (Ok example_stream_answer :: (unit upstream_response, unit) result) =
    Some (example_stream_answer, served, st, g)"
proof -
  have served: "from_headers Some (us_headers example_stream_answer) = Some (ServedProvider ''b'')"
    unfolding from_headers_def example_stream_answer_def example_sidecar_answer_def by simp code_simp
  have event: "is_event_stream Some (Some ''text/event-stream'')" by code_simp
  have "prices_for_request ''m'' (ServedProvider ''b'') example_prices = Ok (mapping_prices (example_mapping ''m'' 1 2))"
    by (simp add: prices_for_request_def price_table_get_def example_prices_def canonical_slug_def option_defs
        providers_map_def models_map_def enabled_providers_def example_registry_def example_provider_def
        example_mapping_def bm_get_def)
  then show ?thesis
    using served event assms
    by (simp add: opened_def opens_stream_def example_stream_answer_def example_sidecar_answer_def is_success_def
        example_service_proxy_def)
qed

lemma example_streams:
  "\<exists>sv st (r :: (rat, nat, (rat, nat) generation_row list, string, unit) run) r' request plan served s g.
     example_starts sv st \<and> runs example_outside sv (\<lambda>_. True) st r \<and>
     flight_step example_outside sv (\<lambda>_. True) 0 r r' \<and> rn_recorder r = empty_recorder \<and>
     rn_flights r' 0 = Some (Streaming request plan example_stream_answer served s g (us_items example_stream_answer) [])"
proof -
  obtain sv st where started: "example_starts sv st"
    and sv: "sv_auth sv = with_beta_key (auth_new ''prod'') ''beta''" "sv_proxy sv = example_service_proxy"
    and st: "ss_shared st = \<lparr>sh_routing = example_state, sh_recorder = empty_recorder\<rparr>"
    using example_started by blast
  let ?flying = "flight_step example_outside sv (\<lambda>_. True) 0" and ?http = "example_http\<lparr>hq_body := ''stream''\<rparr>"
  let ?answer = "Ok example_stream_answer :: (unit upstream_response, unit) result"
  have outside: "os_decimal example_outside = one_decimal" "os_json example_outside = example_total_wire"
    "os_rand example_outside = example_rand" "os_to_str example_outside = Some"
    by (simp_all add: example_outside_def)
  obtain routing' plan where plan: "plan_completion one_decimal example_rand example_total_wire example_service_proxy []
      example_state Production Chat ''stream'' = Some (routing', Ok plan)" "pl_stream plan"
      "dec_canonical_model (pl_decision plan) = ''m''"
    using example_stream_planned by blast
  obtain served s g where opened: "opened Some example_service_proxy (mo_clock example_stream_moment) plan ?answer =
      Some (example_stream_answer, served, s, g)"
    using example_stream_opened [OF plan(2,3)] by blast
  obtain r0 :: "(rat, nat, (rat, nat) generation_row list, string, unit) run" where r0: "r0 = run_start st" by blast
  obtain r1 where r1: "r1 = r0\<lparr>rn_flights := (rn_flights r0)(0 := Some (Arrived ?http Production Chat (length (rn_stores r0) - 1)))\<rparr>"
    by blast
  obtain r2 where r2: "r2 = r1\<lparr>rn_state := with_routing routing' (rn_state r1),
      rn_flights := (rn_flights r1)(0 := Some (Planned ?http plan)), rn_decided := rn_decided r1 @ [decided_route plan]\<rparr>"
    by blast
  obtain url where url: "url = endpoint_url (sv_proxy sv) (pl_endpoint plan)" by blast
  obtain r3 where r3: "r3 = r2\<lparr>rn_flights := (rn_flights r2)(0 := Some (Waiting ?http plan 0 (pl_request plan)
        (send_attempt (mo_sidecar example_stream_moment) 0 url (pl_body plan)) (dec_fallback_models (pl_decision plan)))),
      rn_sent := rn_sent r2 @ [(?http, upstream_request_of url (pl_body plan))]\<rparr>"
    by blast
  let ?f = "Streaming ?http plan example_stream_answer served (Some s) (Some g) (us_items example_stream_answer) []"
  have "run_step example_outside sv (\<lambda>_. True) r0 r1"
    unfolding r1 by (rule run_step.other, rule environment_step.incoming, rule incoming_step.arrived [where now = example_moment])
      (simp_all add: r0 run_start_def example_completion_of [OF sv(1)])
  moreover have arrived: "rn_flights r1 0 = Some (Arrived ?http Production Chat (length (rn_stores r0) - 1))"
    by (simp add: r1)
  have "?flying r1 r2"
    unfolding r2 by (rule flight_step.planned [where seen = "[]", OF arrived])
      (simp_all add: r1 r0 run_start_def outside sv plan(1) st empty_recorder_def readable_def)
  moreover have "?flying r2 r3"
    unfolding r3 by (rule flight_step.sent_first [OF _ _ url]) (simp_all add: r2)
  ultimately have run: "runs example_outside sv (\<lambda>_. True) st r3"
    unfolding runs_def r0 [symmetric] by (meson converse_rtranclp_into_rtranclp r_into_rtranclp run_step.own)
  have waiting: "rn_flights r3 0 = Some (Waiting ?http plan 0 (pl_request plan) ?answer (dec_fallback_models (pl_decision plan)))"
    by (simp add: r3 send_attempt_def example_stream_moment_def)
  have accepted: "\<not> should_fallback ?answer"
    by (simp add: should_fallback_def example_stream_answer_def example_sidecar_answer_def retryable_status_def is_server_error_def)
  have step: "?flying r3 (r3\<lparr>rn_flights := (rn_flights r3)(0 := Some ?f)\<rparr>)"
    by (rule flight_step.stream_started [where now = example_stream_moment, OF waiting])
      (simp_all add: outside sv opened accepted)
  moreover have "rn_recorder r3 = empty_recorder" by (simp add: r3 r2 r1 r0 run_start_def st with_routing_def)
  ultimately show ?thesis
    using started run
    by (intro exI [of _ sv] exI [of _ st] exI [of _ r3] exI [of _ "r3\<lparr>rn_flights := (rn_flights r3)(0 := Some ?f)\<rparr>"]
        exI [of _ ?http] exI [of _ plan] exI [of _ served] exI [of _ "Some s"] exI [of _ "Some g"]) simp
qed

end
