(* ===== verification/Spec2Isabelle.thy ===== *)
theory Spec2Isabelle
  imports Example_Service
begin

text \<open>
  A model of seren-router, the service between a gateway and an LLM sidecar, and the theorems
  that make it correct.

  The program. \<open>src/main.rs\<close> loads a reviewed provider registry, extends it with the catalogs
  of providers that declare one, and either renders the sidecar's configuration or serves. A
  served request is authenticated (\<open>gateway_auth.rs\<close>), which fixes its routing profile; a
  completion is parsed (\<open>policy/preference.rs\<close>), routed to a provider with planned fallbacks
  (\<open>policy/routing.rs\<close>, \<open>policy/select.rs\<close>, over the measurements of \<open>policy/measurements.rs\<close>),
  sent to the sidecar with retries (\<open>proxy.rs\<close>), and its answer is costed from the price table
  (\<open>pricing.rs\<close>, \<open>usage_cost.rs\<close>), sanitized and, when streamed, rewritten event by event
  (\<open>sse.rs\<close>). What it cost is measured and written to the ledger (\<open>ledger.rs\<close>), whose database a
  supervisor keeps recovering (\<open>db.rs\<close>). Catalog and generation endpoints read the registry and
  the ledger (\<open>catalog.rs\<close>, \<open>ledger.rs\<close>).

  Theories, and the code each models (under \<open>src/\<close>):

    Prelude: results, options, panics, slices and string functions of the standard library;
      \<open>named_theorems\<close> collections; the locale \<open>cmp_order\<close> of comparators, with the stable
      sort and the minimum that rest on it.
    Ordered_Map: \<open>BTreeMap\<close> as an association list with ascending keys; grouping by push.
    Json: \<open>serde_json::Value\<close>. Reading and writing text is the record \<open>json_ops\<close>.
    Float64: \<open>f64\<close> as signed rationals with rounding, infinities and NaN.
    Decimal_Api: the interface of \<open>rust_decimal\<close> (\<open>decimal_ops\<close>) and its laws
      (\<open>decimal_laws\<close>), with a model of them (\<open>bounded_decimal\<close>).
    Routing_Profile: \<open>routing_profile.rs\<close>, \<open>attribution.rs\<close>, \<open>compatibility.rs\<close>, responses.
    Gateway_Auth: \<open>gateway_auth.rs\<close>, \<open>auth.rs\<close>.
    Registry: \<open>registry.rs\<close>. Pricing: \<open>pricing.rs\<close>. Usage_Cost: \<open>usage_cost.rs\<close>.
    Sse: \<open>sse.rs\<close>, the transformer as a state passed from chunk to chunk.
    Measurements, Preference, Select, Routing: the files of \<open>policy/\<close>.
    Config: \<open>config.rs\<close>.
    Upstream_Catalog: \<open>upstream_catalog.rs\<close>, and of \<open>main.rs\<close> command parsing, registry
      loading and hydration.
    Catalog: \<open>catalog.rs\<close>. Sidecar_Config: \<open>sidecar_config.rs\<close>. Deployment: \<open>deployment.rs\<close>.
    Db_Health: \<open>db.rs\<close>; the supervisor and the operations that report to it are step relations
      on a shared state, so every interleaving of their atomic accesses is a path.
    Ledger: \<open>ledger.rs\<close> with its two SQL statements.
    Generation: of \<open>proxy.rs\<close> the timing and generation contexts, what is recorded, and
      \<open>stream_with_response_transformer\<close>.
    Proxy: the rest of \<open>proxy.rs\<close>.
    Server: \<open>server.rs\<close>: probes, request ids, the answer to a panic, the limits of each class of
      routes and the middleware stack; a router is a list of routes, each with its layers.
    Service: \<open>routes.rs\<close>, \<open>protect\<close>, and of \<open>main.rs\<close> start-up and dispatch; a request
      from its route through its layers to its answer.
    Panic_Freedom: each component's operations have a value in the states a service reaches.
    Stream_Turns: a streamed answer turn by turn, as \<open>stream_with_response_transformer\<close> polls it.
    Interleaving: \<open>forward\<close> taken apart where it waits for the sidecar, and the runs of a service:
      every interleaving of the steps of the requests in flight with new requests, dropped ones,
      ledger writes and the database supervisor.
    Flight_Progress: nothing in flight is stuck, and the sequential service is one of the runs.
    Lifecycle: the process: \<open>main\<close>, \<open>setup_tracing\<close>, and of \<open>serve\<close> binding, listening and the
      graceful shutdown with its deadline (\<open>shutdown_signal\<close>), to the exit code.
    Example_Service: a started service for the witnesses below.
    Spec2Isabelle: what spans components.

  Correspondence. A struct is a record, an enum a datatype, with a prefix on the field names; a
  function keeps its name. Integers have their width (\<open>u8\<close>, \<open>u64\<close>); token counts that meet the
  ledger's BIGINT are converted with their checks. A \<open>Result\<close> is \<open>Ok\<close> or \<open>Err\<close>; a definition
  of type \<open>'a panics\<close> is \<open>None\<close> where the code panics (\<open>expect\<close>, arithmetic that overflows,
  indexing a value that is no object). Mutated state is passed and returned: the routing state
  (traffic shares and generator), the recorder (measurements, ledger writes spawned, segment
  durations, reasons of omitted records). An \<open>Instant\<close> is a number of nanoseconds and each reading
  of the clock an argument.

  What the lemmas show. Money: the cost of a completion is exact, rounded once to ten places,
  taken from the documented source, written unchanged into the answer, and recorded exactly once
  when, and only when, the client gets the completion (\<open>provider_cost_usd_exact\<close>,
  \<open>inject_usage_cost_charges_exactly\<close>, \<open>streamed_generation_billed_or_failed\<close>,
  \<open>success_is_billed\<close>, \<open>generation_round_trip\<close>). What recording is, \<open>recorded\<close> says field by field
  (one ledger write, or one logged reason when the answer has no id or a token count exceeds 63
  bits), and what the client is shown of a charge, \<open>shows_charge\<close> and \<open>charge_shown\<close>: the cost
  text, the token counts and the id in the body, or in the last event of a stream with a usage.
  Confidentiality: nothing of a provider behind an alias reaches a client, in bodies, streams
  and errors (\<open>sanitize_public_completion_value_confidential\<close>, \<open>public_stream_confidential\<close>,
  \<open>aliased_response_confidential\<close>). Streams: the result does not depend on how the bytes are
  cut, and a stream fails closed (\<open>transform_chunk_boundaries\<close>, \<open>priced_stream_fails_closed\<close>).
  Routing: requests go only to permitted providers, in the planned order, within the share cap,
  and never panic; everything sent out is deployed in the sidecar and priced
  (\<open>route_goes_to_permitted_providers\<close>, \<open>failover_follows_plan\<close>, \<open>default_selection_respects_share_cap\<close>,
  \<open>every_attempt_is_deployed_and_priced\<close>). Start-up: validation, price
  table, catalog and sidecar configuration against their specifications, their orders spelled out
  on priorities, prices and ids and not through the code's comparators; hydration only adds and
  never costs the start; the configuration file is replaced atomically. Database: a failure
  always leaves the supervisor a step. The whole service: in every run every request is answered
  without a panic (\<open>service_never_panics\<close>) and every request in flight can finish
  (\<open>in_flight_finishes\<close>), by progress and preservation of \<open>run_ok\<close>; the shared state is that of
  the routing decisions and the answers in their orders (\<open>shared_state_linear\<close>); the sequential
  \<open>handle_request\<close> is one of the schedules (\<open>handled_alone_is_a_run\<close>); nothing of a completion is
  recorded before its answer ends, a stream included (\<open>unanswered_is_unrecorded\<close>); and a request
  without a valid credential changes nothing and learns nothing (\<open>nothing_without_credential\<close>,
  \<open>served_routes_guarded\<close>). The process: a shutdown ends, by a multiset of the distances of the
  requests in flight from their answers (\<open>shutdown_terminates\<close>), and the exit code tells how
  (\<open>exit_code_tells\<close>); a graceful exit does not wait for ledger writes (\<open>draining_ends\<close>).

  Interfaces. The locales are \<open>cmp_order\<close> (Prelude; interpreted on the comparisons of Float64,
  Select, Routing, Catalog and Sidecar_Config), \<open>ordered_map\<close> and \<open>grouping_map\<close> (Ordered_Map),
  \<open>traffic_window\<close> (Select, the share tracker) and \<open>chunked_machine\<close> (Sse, the transformer); each
  is interpreted on the model's own definitions. \<open>json_ops\<close>,
  \<open>decimal_ops\<close>, \<open>rand_ops\<close>, \<open>url_ops\<close>, \<open>pg_ops\<close>, \<open>file_env\<close>, the sidecar, \<open>to_str\<close> of header
  values and the YAML functions are code that is not under \<open>src/\<close>: arguments of the definitions
  that use them. Hypotheses about them are named: \<open>decimal_laws\<close> (values of rust_decimal
  operations), \<open>json_round_trips\<close> (serde_json reads back what it wrote), \<open>pg_laws\<close> (an insert
  adds its row, a select filters the table, costs are kept at ten places), \<open>json_total\<close>
  (serde_json writes every value and reads every decimal's text as a number), \<open>router_laws\<close>
  (axum answers with a registered route), \<open>moment_ok\<close> (the sidecar speaks HTTP, instants fit). Each theorem with a
  hypothesis has a witness at a concrete instance.

  Bounds. There is no fuel: every loop is a structural or measured recursion (the event loop of
  Sse on the pending bytes, failover on the planned fallbacks, the stream on the polls it
  receives). \<open>decimal_laws\<close> bounds decimals by 2^96 - 1; exactness of costs needs prices below
  the bound its theorem names and holds for all 64-bit token counts.

  A limit of the price theorem. \<open>every_attempt_is_deployed_and_priced\<close> speaks of the price table;
  the lookup that serves a request first strips the provider's id from the model
  (\<open>canonical_slug\<close>), and a slug whose author is named like its provider is then not found
  (\<open>prices_of_self_named_slug\<close>).

  Not modelled. How axum matches a method and a path (\<open>os_router\<close>; the layers of a route wrap its
  method fallback too), what its extractors answer (\<open>os_rejection\<close>) and what tower's layers do beyond answering instead of the handler (\<open>mo_layer\<close>):
  headers they add, compression. A run has a completion's steps (routing, each attempt, each turn of
  a stream, recording) and drops it between any two of them, as an expired timeout or a client that
  left does; each step is atomic, which the code makes it by the lock of the routing state and by
  recording last. How axum drains a connection after the signal is a number of further requests the
  open connections bring; the signal handlers are taken as installed. Whether the HTTP client, the
  security headers and the address can be had is the record \<open>host\<close>. Tracing and metrics output
  other than the segment durations, \<open>connect\<close> of \<open>db.rs\<close> (unused by the service), the bodies of
  sqlx, reqwest, serde, rust_decimal, rand, url and tokio.
\<close>

section \<open>The service as a whole\<close>

text \<open>A request to the sidecar names a generated route of a reviewed, enabled mapping of the
  caller's profile, and that mapping is priced.\<close>

definition deployed_attempt ::
  "json_ops \<Rightarrow> agent_gateway_config \<Rightarrow> 'd price_table \<Rightarrow> 'd registry \<Rightarrow> routing_profile \<Rightarrow> 'u upstream_request \<Rightarrow> bool" where
  "deployed_attempt J cfg table r profile sent \<longleftrightarrow>
     (\<exists>request. \<exists>p \<in> set (enabled_providers r). \<exists>m \<in> set (p_models p).
        to_vec J request = Some (ur_body sent) \<and> supports p profile \<and>
        model_route_new p m \<in> set (llm_models (ag_llm cfg)) \<and>
        json_get ''model'' request = Some (JString (mr_name (model_route_new p m))) \<and>
        price_table_get table (p_id p) (m_slug m) = Some (mapping_prices m))"

lemma permitted_route_deployed:
  assumes "decimal_laws D" and "price_table_from_registry D r = Ok table" and "build_config D r options = Ok cfg"
    and serve: "may_serve D r profile endpoint request canonical i"
    and model: "json_get ''model'' request' = Some (JString (sidecar_model i canonical))"
    and body: "to_vec J request' = Some (ur_body sent)"
  shows "deployed_attempt J cfg table r profile sent"
proof -
  from serve obtain p m where p: "p \<in> set (enabled_providers r)" "p_id p = i" "profile \<in> p_profiles p"
    and m: "m \<in> set (p_models p)" "m_slug m = canonical"
    by (auto simp: may_serve_def)
  have "model_route_new p m \<in> set (llm_models (ag_llm cfg))"
    unfolding build_config_Ok(2) [OF assms(3)] deployed_mappings_def using p m by force
  moreover have "mr_name (model_route_new p m) = sidecar_model i canonical"
    using p m by (simp add: model_route_new_def route_name_def sidecar_model_def)
  moreover have "price_table_get table (p_id p) (m_slug m) = Some (mapping_prices m)"
    using price_table_get_reviewed [OF assms(1,2)] p(1) m(1) by (fastforce simp: enabled_providers_def)
  ultimately show ?thesis
    unfolding deployed_attempt_def using p m model body by (metis supports_def)
qed

lemma permitted_attempt_deployed:
  assumes "decimal_laws D" "price_table_from_registry D r = Ok table" "build_config D r options = Ok cfg"
    and "permitted_attempt D J r profile (ur_body sent)"
  shows "deployed_attempt J cfg table r profile sent"
  using permitted_route_deployed [OF assms(1-3)] assms(4)
  by (auto simp: permitted_attempt_def permitted_name_def)

text \<open>What start-up fixes: the registry behind the routes, the prices and the rendered configuration.\<close>

lemma started_routes:
  assumes laws: "decimal_laws (os_decimal S)"
    and started: "run_service S from_str pool_of env read_file from_yaml send rng = Some (Ok (sv, st0))"
  obtains config r where
    "config_from_env (os_decimal S) (os_url S) (os_ct_eq S) env = Ok config"
    "load_registry (os_decimal S) read_file from_yaml send (registry_path config) = Ok r"
    "price_table_from_registry (os_decimal S) r = Ok (px_price_table (sv_proxy sv))"
    "routing_from_registry (os_decimal S) r (routing config) rng = Ok (px_routing (sv_proxy sv), sh_routing (ss_shared st0))"
    "pol_config (px_routing (sv_proxy sv)) = routing config" "0 < rg_share_window (routing config)"
    "shares_ok (routing config) (sh_routing (ss_shared st0))" "window_of (sh_routing (ss_shared st0)) = (\<lambda>_. [])"
    "sh_recorder (ss_shared st0) = empty_recorder"
proof -
  obtain config r where config: "config_from_env (os_decimal S) (os_url S) (os_ct_eq S) env = Ok config"
    and r: "load_registry (os_decimal S) read_file from_yaml send (registry_path config) = Ok r"
    and proxy: "proxy_new (os_decimal S) (os_url S) (os_join S) (sidecar_url config) (px_price_table (sv_proxy sv)) r
       (routing config) rng = Some (Ok (sv_proxy sv, sh_routing (ss_shared st0)))"
    and table: "price_table_from_registry (os_decimal S) r = Ok (px_price_table (sv_proxy sv))"
    and fresh: "sh_recorder (ss_shared st0) = empty_recorder"
    using started by (rule run_service_Ok)
  note routes = proxy_new_Ok(1) [OF proxy]
  show thesis
    by (rule that [OF config r table routes routes_lookup(5) [OF routes] _ routing_starts_empty [OF routes] _ fresh])
      (use config_routing_ok [OF laws config] routes_lookup(6) [OF routes] in
        \<open>auto simp: routing_config_ok_def window_of_def\<close>)
qed

lemma started_ok:
  assumes "run_service S from_str pool_of env read_file from_yaml send rng = Some (Ok (sv, st0))"
    and laws: "decimal_laws (os_decimal S)" and "table_priced (os_decimal S) (px_price_table (sv_proxy sv))"
  shows "service_ok (os_decimal S) sv \<and> state_ok sv st0"
proof -
  obtain config r where config: "config_from_env (os_decimal S) (os_url S) (os_ct_eq S) env = Ok config"
    and models: "catalog_from_registry (os_decimal S) r = Some (sv_catalog sv)"
    and proxy: "proxy_new (os_decimal S) (os_url S) (os_join S) (sidecar_url config) (px_price_table (sv_proxy sv)) r
       (routing config) rng = Some (Ok (sv_proxy sv, sh_routing (ss_shared st0)))"
    and fresh: "sh_recorder (ss_shared st0) = empty_recorder" "l_database_health (ss_ledger st0) = health_starting"
    using assms(1) by (rule run_service_Ok)
  note routes = proxy_new_Ok(1) [OF proxy]
  have "service_ok (os_decimal S) sv"
    unfolding service_ok_def
    using assms(3) catalog_complete [OF models] config_routing_ok [OF laws config]
      routing_table_any_generator [OF routes, where rng' = "0::nat"]
    by blast
  moreover have "state_ok sv st0"
    using routing_starts_empty [OF routes] routes_lookup(5) [OF routes] store_ok_Nil
    by (simp add: state_ok_def fresh empty_recorder_def health_starting_def health_new_def status_of_def)
  ultimately show ?thesis by blast
qed

text \<open>C6: Everything the service sends to its sidecar is authorized, deployed and priced: with the
  sidecar configuration rendered from the registry the service started with, in every run of a
  started service, however its requests interleave, each request sent, the retries included, was
  sent for a caller whose credential gives it a profile, and names a route of the generated
  configuration that belongs to an enabled provider of that profile; the service's price table
  holds that route's reviewed prices.\<close>

theorem every_attempt_is_deployed_and_priced:
  assumes laws: "decimal_laws (os_decimal S)"
    and started: "run_service S from_str pool_of env read_file from_yaml send rng = Some (Ok (sv, st0))"
    and rendered: "registry_path_from_env env = Ok path"
      "load_registry (os_decimal S) read_file from_yaml send path = Ok reg"
      "build_config (os_decimal S) reg default_options = Ok cfg"
    and run: "runs S sv allowed st0 r" and sent: "(request, attempt) \<in> set (rn_sent r)"
  shows "\<exists>profile. authorized_profile (os_ct_eq S) (os_to_str S) (sv_auth sv) (hq_headers request) = Some profile \<and>
    deployed_attempt (os_json S) cfg (px_price_table (sv_proxy sv)) reg profile attempt"
proof -
  obtain config r' where config: "config_from_env (os_decimal S) (os_url S) (os_ct_eq S) env = Ok config"
    and r': "load_registry (os_decimal S) read_file from_yaml send (registry_path config) = Ok r'"
    and table: "price_table_from_registry (os_decimal S) r' = Ok (px_price_table (sv_proxy sv))"
    and routes: "routing_from_registry (os_decimal S) r' (routing config) rng =
      Ok (px_routing (sv_proxy sv), sh_routing (ss_shared st0))"
    and window: "0 < rg_share_window (routing config)" "shares_ok (routing config) (sh_routing (ss_shared st0))"
    using started_routes [OF laws started] by metis
  have reg: "r' = reg" using r' rendered(1,2) config_registry_path [OF config] by simp
  from runs_permitted [OF run routes window] sent obtain profile where
    "authorized_profile (os_ct_eq S) (os_to_str S) (sv_auth sv) (hq_headers request) = Some profile"
    "permitted_attempt (os_decimal S) (os_json S) r' profile (ur_body attempt)"
    by fastforce
  with permitted_attempt_deployed [OF laws table [unfolded reg] rendered(3)] show ?thesis
    unfolding reg by blast
qed

text \<open>C8: The shared state is linear: in every run of a started service, whatever steps of how many
  requests interleave, the rolling windows are those of all routing decisions in their order, and
  the measurements, the spawned ledger writes and everything else recorded are the result of
  settling the answered completions one after the other in the order of their answers, each as
  \<open>accounted\<close> says; no update is lost or repeated, and a dropped request leaves nothing behind
  but its routing decision.\<close>

theorem shared_state_linear:
  assumes "decimal_laws (os_decimal S)"
    and started: "run_service S from_str pool_of env read_file from_yaml send rng = Some (Ok (sv, st0))"
    and run: "runs S sv allowed st0 r"
  shows "window_of (rn_routing r) =
      windows_after (rg_share_window (pol_config (px_routing (sv_proxy sv)))) (rn_decided r) (\<lambda>_. []) \<and>
    settles (os_decimal S) (os_json S) (rn_answered r) empty_recorder (rn_recorder r)"
  using started_routes [OF assms(1) started] runs_shared [OF run] by metis

text \<open>C17: Sequential service is one of the interleavings: from any run, a request that \<open>handle_request\<close>
  answers can be handled step by step with nothing in between, to the same state, the same
  requests to the sidecar and the same answer, leaving the other requests in flight as they were.\<close>

theorem handled_alone_is_a_run:
  assumes "runs S sv allowed st0 r" "allowed now" "rn_flights r i = None"
    and "handle_request S sv now (rn_state r) request = Some (st', sent, answer)"
  shows "\<exists>r' completed. runs S sv allowed st0 r' \<and> rn_state r' = st' \<and> rn_flights r' = rn_flights r \<and>
    rn_sent r' = rn_sent r @ map (Pair request) sent \<and>
    rn_answered r' = rn_answered r @ (if completion_of S sv now request = None then [] else [(completed, answer)])"
  using handled_in_steps [OF assms] .

text \<open>C14: A completion is recorded with the end of its answer and never before: in every run, a step
  after which a completion is still in flight leaves the recorder and the answers as they were, and
  so does everything that can happen around it then, its being dropped included; what the client
  of a stream under way has received by then is only public frames under the canonical model.\<close>

theorem unanswered_is_unrecorded:
  assumes run: "runs S sv allowed st0 r" and step: "flight_step S sv allowed i r r'"
    and still: "rn_flights r' i = Some f"
  shows "rn_recorder r' = rn_recorder r \<and> rn_answered r' = rn_answered r \<and>
    (\<forall>later. environment_step S sv allowed r' later \<longrightarrow>
       rn_recorder later = rn_recorder r' \<and> rn_answered later = rn_answered r') \<and>
    (case f of
       Streaming request plan u served tr gen items out \<Rightarrow>
         all_delivered out \<and> (\<exists>frames. delivered out = concat frames \<and>
           (\<forall>frame \<in> set frames. public_frame (os_json S) (dec_canonical_model (pl_decision plan)) frame))
     | _ \<Rightarrow> True)"
proof -
  have "runs S sv allowed st0 r'"
    using run step unfolding runs_def by (blast intro: run_step.own rtranclp.rtrancl_into_rtrancl)
  from runs_streams [OF this still] flight_step_records [OF run step] still environment_frame
  show ?thesis by (fastforce simp: under_way_def split: flight.split)
qed

text \<open>C13: A shutdown ends: from the moment of the signal, in every state a started service can have
  reached, it is always possible to answer every request in flight and exit with code 0; some
  change of the requests or the exit is always enabled; in every infinite schedule these changes
  are finitely many, so no requests keep the process alive for ever; and from the deadline on the
  exit is enabled whatever is still in flight.\<close>

theorem shutdown_terminates:
  fixes S :: "('d, 'u, 'r, 'db, 'ts, 'pe) outside" and p :: "('d, 'r, 'db, 'u, 'e) process" and now :: "('u, 'e) moment"
  assumes laws: "decimal_laws (os_decimal S)" "json_total (os_decimal S) (os_json S)"
    and started: "run_service S from_str pool_of env read_file from_yaml send rng = Some (Ok (sv, st0))"
    and priced: "table_priced (os_decimal S) (px_price_table (sv_proxy sv))"
    and lives: "lives S sv moment_ok st0 p" and draining: "pr_phase p = Draining n" and now: "moment_ok now"
  shows "(\<exists>p'. (process_step S sv moment_ok)\<^sup>*\<^sup>* p p' \<and> pr_phase p' = Exited 0 \<and>
      length (rn_answered (pr_run p')) = length (rn_answered (pr_run p)) + card (dom (rn_flights (pr_run p)))) \<and>
    (\<exists>p'. process_step S sv moment_ok p p' \<and> requests_of p' \<noteq> requests_of p) \<and>
    (\<forall>f. f 0 = p \<and> (\<forall>k. process_step S sv moment_ok (f k) (f (Suc k))) \<longrightarrow>
      (\<exists>K. \<forall>k \<ge> K. requests_of (f k) = requests_of (f K))) \<and>
    (\<exists>t \<le> pr_now p. pr_signalled p = Some t \<and>
      (t + SHUTDOWN_TIMEOUT \<le> pr_now p \<longrightarrow> process_step S sv moment_ok p (p\<lparr>pr_phase := Exited 1\<rparr>)))"
proof -
  from started_ok [OF started laws(1) priced]
  have sv: "service_ok (os_decimal S) sv" and st0: "state_ok sv st0" by blast+
  note runs = lives_runs [OF lives]
  note ok = runs_ok [OF laws sv runs st0] and finite = runs_finite [OF runs]
  have "\<exists>p'. process_step S sv moment_ok p p' \<and> requests_of p' \<noteq> requests_of p"
    by (rule draining_progress [OF laws sv ok now draining finite]) (auto simp: requests_of_def draining)
  moreover have "\<exists>t \<le> pr_now p. pr_signalled p = Some t"
    using lives_phase [OF lives] draining by (simp add: phase_ok_def)
  ultimately show ?thesis
    using draining_ends [OF laws sv now ok draining finite] draining_settles [of S sv moment_ok st0] lives draining
      process_step.forced [OF draining, where S = S and sv = sv and allowed = moment_ok]
    by blast
qed

text \<open>C11: The exit code tells how the program ended: 0 is a configuration rendered or a shutdown that
  left no completion in flight; 1 is a start that failed, be it that the HTTP client, the
  security headers or the bound address was refused, or a shutdown that was forced, and then no
  earlier than its timeout after the signal; 101 is a panic of the start; there is no other, and
  nothing happens after it.\<close>

theorem exit_code_tells:
  assumes "exits_with S allowed host env dispatched p code"
  shows "(case p of
      None \<Rightarrow>
        code = 0 \<and> (\<exists>fs. dispatched = Some (Finished fs)) \<or>
        code = 1 \<and> ((\<exists>fs e. dispatched = Some (Failed fs e)) \<or>
          (\<exists>sv st0. dispatched = Some (Serving sv st0)) \<and>
          (\<not> ho_client_builds host \<or> ft_security_headers (os_features S) \<and> \<not> ho_helmet_builds host \<or>
           \<not> ho_binds host (bind_address env))) \<or>
        code = 101 \<and> dispatched = None
    | Some q \<Rightarrow>
        (\<exists>sv st0. dispatched = Some (Serving sv st0) \<and> ho_client_builds host \<and>
          (ft_security_headers (os_features S) \<longrightarrow> ho_helmet_builds host) \<and> ho_binds host (bind_address env) \<and>
          runs S sv allowed st0 (pr_run q) \<and> (\<forall>q'. \<not> process_step S sv allowed q q')) \<and>
        (\<exists>t. pr_signalled q = Some t \<and>
          (code = 0 \<and> rn_flights (pr_run q) = Map.empty \<or> code = 1 \<and> t + SHUTDOWN_TIMEOUT \<le> pr_now q)))"
proof (cases "launch (os_features S) host env dispatched")
  case (Terminates n)
  with assms show ?thesis
    by (auto simp: exits_with_def launch_def app_routes_eq split: option.splits dispatched.splits if_splits)
next
  case (ListensAt address sv st0)
  with assms obtain q where q: "p = Some q" "lives S sv allowed st0 q" "pr_phase q = Exited code"
    by (auto simp: exits_with_def)
  from lives_phase [OF q(2)] q(3) have "\<exists>t. pr_signalled q = Some t \<and>
      (code = 0 \<and> rn_flights (pr_run q) = Map.empty \<or> code = 1 \<and> t + SHUTDOWN_TIMEOUT \<le> pr_now q)"
    by (auto simp: phase_ok_def)
  with ListensAt [unfolded launch_cases] lives_runs [OF q(2)] exited_stays [OF q(3)] q(1) show ?thesis by auto
qed

text \<open>A router answers with a route it was given.\<close>

definition router_laws ::
  "(route list \<Rightarrow> http_method \<Rightarrow> string \<Rightarrow> routed) \<Rightarrow> bool" where
  "router_laws R \<longleftrightarrow> (\<forall>routes m path r params. R routes m path = Matched r params \<longrightarrow> r \<in> set routes)"

text \<open>What a client without a valid credential can be told: nothing that depends on the registry,
  the ledger, the measurements or the routing state.\<close>

definition told_without_credential ::
  "('d, 'u, 'r, 'db, 'ts, 'pe) outside \<Rightarrow> ('u, 'e) moment \<Rightarrow> ('d, 'r, 'db) service_state \<Rightarrow> http_request \<Rightarrow>
   response \<Rightarrow> bool" where
  "told_without_credential S now st request answer \<longleftrightarrow>
     answer \<in> {unauthorized, hello, livez, os_metrics S, os_too_large S} \<or>
     readyz (l_database_health (ss_ledger st)) (mo_probe now) = Some answer \<or>
     (\<exists>routes r. os_router S routes (hq_method request) (hq_path request) \<in> {NoRoute answer, WrongMethod r answer}) \<or>
     (\<exists>l. mo_layer now l request = Some answer)"

lemma layer_answer_told:
  "layer_answer S sv now request l = Some answer \<Longrightarrow> told_without_credential S now st request answer"
  by (cases l) (auto simp: layer_answer_def told_without_credential_def split: if_splits)

text \<open>C9: Without a valid credential nothing happens: in any state, a request whose bearer token is
  not the key of exactly one profile changes no state, sends nothing to the sidecar, and is told
  only that it is unauthorized or what the public pages, the probes, the router and the limits
  say to everyone.\<close>

theorem nothing_without_credential:
  assumes equality: "\<And>a b. os_ct_eq S a b \<longleftrightarrow> a = b" and router: "router_laws (os_router S)"
    and handled: "handle_request S sv now st request = Some (st', sent, answer)"
    and key: "\<And>key profile. bearer (os_to_str S) (hq_headers request) = Some key \<Longrightarrow> \<not> key_of (sv_auth sv) profile key"
  shows "st' = st \<and> sent = [] \<and> told_without_credential S now st request answer"
proof -
  have "os_ct_eq S = (=)" using equality by (intro ext) auto
  then have none: "authorized_profile (os_ct_eq S) (os_to_str S) (sv_auth sv) (hq_headers request) = None"
    using key authorized_profile_iff [of "os_to_str S" "sv_auth sv" "hq_headers request"]
    by (metis not_None_eq)
  from handled show ?thesis
  proof (cases rule: handle_request_run)
    case answered
    from answered(3) have "told_without_credential S now st request answer"
    proof
      assume "\<exists>l. layer_answer S sv now request l = Some answer"
      then obtain l where "layer_answer S sv now request l = Some answer" ..
      then show ?thesis by (rule layer_answer_told)
    qed (unfold told_without_credential_def, blast)
    with answered show ?thesis by simp
  next
    case (run routes r params profile)
    then have "Authorize \<notin> set (ro_layers r)" "profile = None" using none by (auto split: if_splits)
    moreover have "r \<in> set routes" using router run(2) unfolding router_laws_def by blast
    with served_routes_cases [OF run(1)] have "guarded (os_features S) r" by blast
    ultimately have "ro_handler r \<in> {Hello, Livez, Readyz, Metrics}"
      by (auto simp: guarded_def split: if_splits dest: last_in_set)
    then show ?thesis
      using run(5) \<open>profile = None\<close>
      by (auto simp: run_handler_def Let_def told_without_credential_def)
  qed
qed

text \<open>C7: The service is sound: in every run of a started service, every request, whatever
  its bytes and whatever the sidecar answers, is served an answer under its request id; no index,
  \<open>expect\<close>, conversion or decimal operator on the way panics. Prices need at most 22 decimal places
  and 31-bit digits; the sidecar speaks HTTP and instants fit 64-bit seconds.\<close>

theorem service_never_panics:
  assumes laws: "decimal_laws (os_decimal S)" "json_total (os_decimal S) (os_json S)"
    and started: "run_service S from_str pool_of env read_file from_yaml send rng = Some (Ok (sv, st0))"
    and priced: "table_priced (os_decimal S) (px_price_table (sv_proxy sv))"
    and run: "runs S sv moment_ok st0 r" and now: "moment_ok now"
  shows "\<exists>st' sent answer. serve_http S sv now (rn_state r) request =
    Served st' sent answer (make_request_id (os_header_value S) (mo_uuid now) (hq_headers request))"
proof -
  from started_ok [OF started laws(1) priced]
  have sv: "service_ok (os_decimal S) sv" and st0: "state_ok sv st0" by blast+
  have "state_ok sv (rn_state r)" using runs_ok [OF laws sv run st0] by (simp add: run_ok_def)
  from handle_request_total [OF laws sv this now, of request]
  obtain st' sent answer where "handle_request S sv now (rn_state r) request = Some (st', sent, answer)" by auto
  then show ?thesis by (simp add: serve_http_def)
qed

text \<open>C12: No completion gets stuck: in every run of a started service, each completion in flight can
  be finished by its own steps alone, whatever the others did, ending with exactly one answer; and
  every step it takes, alone or not, brings it nearer to that answer.\<close>

theorem in_flight_finishes:
  fixes S :: "('d, 'u, 'r, 'db, 'ts, 'pe) outside" and r :: "('d, 'r, 'db, 'u, 'e) run" and now :: "('u, 'e) moment"
  assumes laws: "decimal_laws (os_decimal S)" "json_total (os_decimal S) (os_json S)"
    and started: "run_service S from_str pool_of env read_file from_yaml send rng = Some (Ok (sv, st0))"
    and priced: "table_priced (os_decimal S) (px_price_table (sv_proxy sv))"
    and run: "runs S sv moment_ok st0 r" and now: "moment_ok now" and flight: "rn_flights r i = Some f"
  shows "(\<exists>r' completed. (flight_step S sv moment_ok i)\<^sup>*\<^sup>* r r' \<and> rn_flights r' i = None \<and>
      rn_answered r' = rn_answered r @ [completed]) \<and>
    (\<forall>r'. flight_step S sv moment_ok i r r' \<longrightarrow>
      (flight_rank (rn_flights r' i), flight_rank (rn_flights r i)) \<in> less_than <*lex*> less_than)"
proof -
  from started_ok [OF started laws(1) priced]
  have sv: "service_ok (os_decimal S) sv" and st0: "state_ok sv st0" by blast+
  from flight_finishes [OF laws sv now runs_ok [OF laws sv run st0] flight] flight_step_lowers show ?thesis by blast
qed

theorem every_attempt_is_deployed_and_priced_witness:
  "\<exists>cfg sv st r attempt.
     build_config one_decimal example_registry default_options = Ok cfg \<and>
     example_starts sv st \<and>
     runs example_outside sv ((=) example_moment) st r \<and> (example_http, attempt) \<in> set (rn_sent r) \<and>
     deployed_attempt example_total_wire cfg example_prices example_registry Production attempt"
proof -
  obtain cfg where cfg: "build_config one_decimal example_registry default_options = Ok cfg"
    using build_config_succeeds [OF one_decimal_laws example_registry_ok] by blast
  obtain sv st r requests where started: "example_starts sv st"
    and sv: "sv_auth sv = with_beta_key (auth_new ''prod'') ''beta''" "sv_proxy sv = example_service_proxy"
    and run: "runs example_outside sv ((=) example_moment) st r"
    and sent: "rn_sent r = map (Pair example_http) requests" "requests \<noteq> []"
    using example_run by blast
  have attempt: "(example_http, hd requests) \<in> set (rn_sent r)" using sent by simp
  have outside: "os_decimal example_outside = one_decimal" "os_json example_outside = example_total_wire"
    "os_ct_eq example_outside = (=)" "os_to_str example_outside = Some"
    by (simp_all add: example_outside_def)
  have profile: "authorized_profile (=) Some (sv_auth sv) (hq_headers example_http) = Some Production"
    by (simp add: sv authorized_profile_def example_http_def profile_for_def with_beta_key_def auth_new_def)
  have "deployed_attempt example_total_wire cfg example_prices example_registry Production (hd requests)"
    using every_attempt_is_deployed_and_priced [OF _ started config_registry_path [OF example_config] _ _ run attempt,
        unfolded outside, OF one_decimal_laws example_loaded cfg] profile
    by (simp add: sv example_service_proxy_def)
  with cfg started run attempt show ?thesis by blast
qed

theorem shared_state_linear_witness:
  "\<exists>sv st r.
     example_starts sv st \<and>
     runs example_outside sv ((=) example_moment) st r \<and> rn_answered r \<noteq> [] \<and>
     settles one_decimal example_total_wire (rn_answered r) empty_recorder (rn_recorder r)"
proof -
  obtain sv st r where started: "example_starts sv st"
    and run: "runs example_outside sv ((=) example_moment) st r" and answered: "length (rn_answered r) = 1"
    using example_run by blast
  have "settles one_decimal example_total_wire (rn_answered r) empty_recorder (rn_recorder r)"
    using shared_state_linear [OF _ started run] by (simp add: example_outside_def one_decimal_laws)
  moreover have "rn_answered r \<noteq> []" using answered by auto
  ultimately show ?thesis using started run by blast
qed

theorem handled_alone_is_a_run_witness:
  "\<exists>sv st st' sent answer r'.
     handle_request example_outside sv example_moment st example_http = Some (st', sent, answer) \<and>
     runs example_outside sv ((=) example_moment) st r' \<and> rn_state r' = st' \<and>
     rn_sent r' = map (Pair example_http) sent \<and> sent \<noteq> []"
proof -
  obtain sv st r requests answer st' where sent: "requests \<noteq> []"
    and handled: "handle_request example_outside sv example_moment st example_http = Some (st', requests, answer)"
    using example_run by blast
  have start: "runs example_outside sv ((=) example_moment) st (run_start st)" by (simp add: runs_def)
  have state: "rn_state (run_start st) = st" "rn_flights (run_start st) 0 = None" by (simp_all add: run_start_def)
  from handled_alone_is_a_run [OF start refl state(2), unfolded state(1), OF handled] sent handled
  show ?thesis by (fastforce simp: run_start_def)
qed

lemma example_router_laws: "router_laws example_router"
  by (auto simp: router_laws_def example_router_def find_Some_iff split: option.splits)

theorem service_never_panics_witness:
  "\<exists>sv st st' sent answer id. example_starts sv st \<and>
     serve_http example_outside sv example_moment st example_http = Served st' sent answer id"
proof -
  obtain sv st where started: "example_starts sv st" and sv: "sv_proxy sv = example_service_proxy"
    using example_started by blast
  have run: "runs example_outside sv moment_ok st (run_start st)" by (simp add: runs_def)
  show ?thesis
    using service_never_panics [OF _ _ started _ run example_moment_ok, of example_http] example_laws sv started
    by (force simp: example_outside_def one_decimal_laws run_start_def)
qed

theorem in_flight_finishes_witness:
  "\<exists>sv st (r :: (rat, nat, (rat, nat) generation_row list, string, unit) run) r' completed.
     example_starts sv st \<and> runs example_outside sv moment_ok st r \<and> rn_flights r 0 \<noteq> None \<and>
     (flight_step example_outside sv moment_ok 0)\<^sup>*\<^sup>* r r' \<and> rn_answered r' = [completed]"
proof -
  obtain sv st where started: "example_starts sv st"
    and sv: "sv_auth sv = with_beta_key (auth_new ''prod'') ''beta''" "sv_proxy sv = example_service_proxy"
    using example_started by blast
  let ?start = "run_start st :: (rat, nat, (rat, nat) generation_row list, string, unit) run"
  let ?f = "Arrived example_http Production Chat (length (rn_stores ?start) - 1)"
  obtain r where r: "r = ?start\<lparr>rn_flights := (rn_flights ?start)(0 := Some ?f)\<rparr>" by blast
  have "run_step example_outside sv moment_ok ?start r"
    unfolding r by (rule run_step.other, rule environment_step.incoming, rule incoming_step.arrived [where now = example_moment])
      (simp_all add: run_start_def example_moment_ok example_completion [OF sv(1)])
  then have run: "runs example_outside sv moment_ok st r" unfolding runs_def by (rule r_into_rtranclp)
  have flight: "rn_flights r 0 = Some ?f" and fresh: "rn_answered r = []" by (simp_all add: r run_start_def)
  have "\<exists>r' completed. (flight_step example_outside sv moment_ok 0)\<^sup>*\<^sup>* r r' \<and> rn_answered r' = [completed]"
    using in_flight_finishes [OF _ _ started _ run example_moment_ok flight] example_laws sv(2) fresh
    by (fastforce simp: example_outside_def one_decimal_laws)
  with started run flight show ?thesis by blast
qed

theorem nothing_without_credential_witness:
  "\<exists>sv st answer.
     example_starts sv st \<and>
     handle_request example_outside sv example_moment st (example_http\<lparr>hq_headers := Map.empty\<rparr>) = Some (st, [], answer)"
proof -
  obtain sv st where started: "example_starts sv st"
    and sv: "sv_proxy sv = example_service_proxy"
    using example_started by blast
  let ?request = "example_http\<lparr>hq_headers := Map.empty\<rparr>"
  have outside: "os_ct_eq example_outside = (=)" "os_router example_outside = example_router"
    "os_decimal example_outside = one_decimal" "os_json example_outside = example_total_wire"
    by (simp_all add: example_outside_def)
  have "service_ok one_decimal sv" "state_ok sv st"
    using started_ok [OF started] example_laws(2) [OF sv] by (simp_all add: outside one_decimal_laws)
  with handle_request_total [of example_outside sv st example_moment ?request] example_moment_ok
    example_laws(1)
  obtain st' sent answer where handled: "handle_request example_outside sv example_moment st ?request = Some (st', sent, answer)"
    by (auto simp: outside one_decimal_laws)
  from nothing_without_credential [OF _ _ handled] have "st' = st \<and> sent = []"
    by (simp add: outside example_router_laws bearer_def)
  with started handled show ?thesis by blast
qed

theorem shutdown_terminates_witness:
  "\<exists>sv st (p :: (rat, nat, (rat, nat) generation_row list, string, unit) process) p' t.
     example_starts sv st \<and> lives example_outside sv moment_ok st p \<and> rn_flights (pr_run p) 0 \<noteq> None \<and>
     (process_step example_outside sv moment_ok)\<^sup>*\<^sup>* p p' \<and> pr_phase p' = Exited 0 \<and>
     length (rn_answered (pr_run p')) = 1 \<and> pr_signalled p = Some t"
proof -
  obtain sv st where started: "example_starts sv st"
    and sv: "sv_auth sv = with_beta_key (auth_new ''prod'') ''beta''" "sv_proxy sv = example_service_proxy"
    using example_started by blast
  let ?start = "process_start st 0 :: (rat, nat, (rat, nat) generation_row list, string, unit) process"
  let ?f = "Arrived example_http Production Chat (length (rn_stores (pr_run ?start)) - 1)"
  obtain p where p: "p = ?start\<lparr>pr_run := (pr_run ?start)\<lparr>rn_flights := (rn_flights (pr_run ?start))(0 := Some ?f)\<rparr>\<rparr>"
    by blast
  let ?signalled = "p\<lparr>pr_signalled := Some (pr_now p), pr_phase := Draining 0\<rparr>"
  have "process_step example_outside sv moment_ok ?start p"
    unfolding p by (rule process_step.serves, simp add: process_start_def, rule run_step.other,
        rule environment_step.incoming, rule incoming_step.arrived [where now = example_moment])
      (simp_all add: process_start_def run_start_def example_moment_ok example_completion [OF sv(1)])
  moreover have "process_step example_outside sv moment_ok p ?signalled"
    by (rule process_step.signalled) (simp add: p process_start_def)
  ultimately have lives: "lives example_outside sv moment_ok st ?signalled"
    unfolding lives_def by (intro exI [of _ 0]) (rule converse_rtranclp_into_rtranclp, assumption, rule r_into_rtranclp)
  have laws: "decimal_laws (os_decimal example_outside)" "json_total (os_decimal example_outside) (os_json example_outside)"
    using example_laws(1) by (simp_all add: example_outside_def one_decimal_laws)
  have priced: "table_priced (os_decimal example_outside) (px_price_table (sv_proxy sv))"
    using example_laws(2) [OF sv(2)] by (simp add: example_outside_def)
  have draining: "pr_phase ?signalled = Draining 0" by simp
  have flights: "rn_flights (pr_run ?signalled) 0 \<noteq> None" "dom (rn_flights (pr_run ?signalled)) = {0}"
    "rn_answered (pr_run ?signalled) = []"
    by (simp_all add: p process_start_def run_start_def)
  from shutdown_terminates [OF laws started priced lives draining example_moment_ok] flights
  obtain p' t where "(process_step example_outside sv moment_ok)\<^sup>*\<^sup>* ?signalled p'" "pr_phase p' = Exited 0"
    "length (rn_answered (pr_run p')) = 1" "pr_signalled ?signalled = Some t"
    by (elim conjE exE) simp
  with started lives flights(1) show ?thesis by blast
qed

theorem exit_code_tells_witness:
  "\<exists>sv st (q :: (rat, nat, (rat, nat) generation_row list, string, unit) process) t.
     example_starts sv st \<and>
     exits_with example_outside ((=) example_moment) \<lparr>ho_client_builds = True, ho_helmet_builds = True, ho_binds = \<lambda>_. True\<rparr> example_env
       (Some (Serving sv st) :: (_, _, unit) dispatched panics) (Some q) 0 \<and>
     pr_signalled q = Some t \<and> rn_flights (pr_run q) = Map.empty"
proof -
  obtain sv st where started: "example_starts sv st" using example_started by blast
  let ?start = "process_start st 0 :: (rat, nat, (rat, nat) generation_row list, string, unit) process"
  let ?step = "process_step example_outside sv ((=) example_moment)"
  obtain p where p: "p = ?start\<lparr>pr_signalled := Some (pr_now ?start), pr_phase := Draining 0\<rparr>" by blast
  obtain q where q: "q = p\<lparr>pr_phase := Exited 0\<rparr>" by blast
  have "?step ?start p" unfolding p by (rule process_step.signalled) (simp add: process_start_def)
  moreover have "?step p q"
    unfolding q by (rule process_step.drained) (simp_all add: p process_start_def run_start_def)
  ultimately have "lives example_outside sv ((=) example_moment) st q"
    unfolding lives_def by (meson converse_rtranclp_into_rtranclp r_into_rtranclp)
  then have exits: "exits_with example_outside ((=) example_moment) \<lparr>ho_client_builds = True, ho_helmet_builds = True, ho_binds = \<lambda>_. True\<rparr> example_env
      (Some (Serving sv st) :: (_, _, unit) dispatched panics) (Some q) 0"
    by (auto simp: exits_with_def launch_def app_routes_eq q)
  from exit_code_tells [OF exits] have "\<exists>t. pr_signalled q = Some t \<and> rn_flights (pr_run q) = Map.empty" by auto
  with started exits show ?thesis by blast
qed

theorem unanswered_is_unrecorded_witness:
  "\<exists>sv st (r :: (rat, nat, (rat, nat) generation_row list, string, unit) run) r' request plan u served tr gen items out.
     example_starts sv st \<and> runs example_outside sv (\<lambda>_. True) st r \<and>
     flight_step example_outside sv (\<lambda>_. True) 0 r r' \<and>
     rn_flights r' 0 = Some (Streaming request plan u served tr gen items out) \<and>
     rn_recorder r' = empty_recorder \<and> all_delivered out"
proof -
  obtain sv st and r :: "(rat, nat, (rat, nat) generation_row list, string, unit) run" and r' request plan served s g where
    started: "example_starts sv st" and run: "runs example_outside sv (\<lambda>_. True) st r"
    and step: "flight_step example_outside sv (\<lambda>_. True) 0 r r'" and fresh: "rn_recorder r = empty_recorder"
    and streams: "rn_flights r' 0 = Some (Streaming request plan example_stream_answer served s g (us_items example_stream_answer) [])"
    using example_streams by blast
  from unanswered_is_unrecorded [OF run step streams] fresh have "rn_recorder r' = empty_recorder \<and> all_delivered ([] :: (bytes, unit) result list)"
    by simp
  with started run step streams show ?thesis by blast
qed

end
